(* ===== verification/Prelude.thy ===== *)
theory Prelude
  imports Main "HOL-Library.Word"
begin

text \<open>
  Shared vocabulary of the development: machine integers, the names of kernel objects that
  identify locks and sleep channels, the outcome of running a piece of kernel code, and the
  generic lemmas on lists, scans and words that the components use.
\<close>

unbundle bit_operations_syntax

section \<open>Machine integers\<close>

type_synonym u8 = "8 word"
type_synonym u16 = "16 word"
type_synonym u32 = "32 word"

section \<open>Names of kernel objects\<close>

text \<open>
  The code identifies a spin lock and a sleep channel by an address. The kernel has finitely
  many kinds of them; an address is named by the object it points to.
\<close>

datatype lockid =
    PtableLock | TicksLock | BcacheLock | IcacheLock | LogLock | FtableLock | KmemLock
  | ConsLock | IdeLock | PipeLock u32 | BufLock nat | InodeLock nat

datatype chan =
    ProcChan nat | LogChan | TicksChan | PipeReadChan u32 | PipeWriteChan u32
  | BufChan nat | BufLockChan nat | InodeLockChan nat | InputChan

section \<open>Outcomes of kernel code\<close>

text \<open>
  A run of kernel code from a state ends in one of five ways: it returns a value and a state;
  it calls \<^verbatim>\<open>panic\<close>; it meets undefined behaviour of C or a processor fault (a null pointer is
  followed, a division by zero); it gives up the processor, spinning on a held lock, sleeping
  on a channel or leaving it to another thread, with the state at that moment; or it is in a loop that never ends.
  Code that resumes after a pause is modelled by a definition of its own.
\<close>

datatype pause = Spinning lockid | Sleeping chan | Switching

datatype ('s, 'a) outcome =
    Ret 'a 's
  | Panic string
  | Undef string
  | Pause pause 's
  | Hang

primrec andthen :: "('s, 'a) outcome \<Rightarrow> ('a \<Rightarrow> 's \<Rightarrow> ('s, 'b) outcome) \<Rightarrow> ('s, 'b) outcome" where
  "andthen (Ret v s) f = f v s"
| "andthen (Panic m) f = Panic m"
| "andthen (Undef m) f = Undef m"
| "andthen (Pause w s) f = Pause w s"
| "andthen Hang f = Hang"

text \<open>Sequencing is associative, and returning is its unit.\<close>

lemma andthen_Ret_right [simp]: "andthen m Ret = m"
  by (cases m) simp_all

lemma andthen_assoc: "andthen (andthen m f) g = andthen m (\<lambda>v s. andthen (f v s) g)"
  by (cases m) simp_all

lemma andthen_eq_Ret:
  "andthen m f = Ret v s \<longleftrightarrow> (\<exists>v' s'. m = Ret v' s' \<and> f v' s' = Ret v s)"
  by (cases m) simp_all

lemma andthen_cong [fundef_cong]:
  "m = m' \<Longrightarrow> (\<And>v s. m' = Ret v s \<Longrightarrow> f v s = g v s) \<Longrightarrow> andthen m f = andthen m' g"
  by (cases m') simp_all

text \<open>A \<^verbatim>\<open>for\<close> loop over the entries of a table, in order.\<close>

primrec each :: "('i \<Rightarrow> 's \<Rightarrow> ('s, unit) outcome) \<Rightarrow> 'i list \<Rightarrow> 's \<Rightarrow> ('s, unit) outcome" where
  "each f [] s = Ret () s"
| "each f (i # is) s = andthen (f i s) (\<lambda>_ s. each f is s)"

lemma each_append: "each f (is @ js) s = andthen (each f is s) (\<lambda>_ s. each f js s)"
  by (induction "is" arbitrary: s) (simp_all add: andthen_assoc)

lemma each_fold:
  assumes "I s" "\<And>i s. i \<in> set is \<Longrightarrow> I s \<Longrightarrow> f i s = Ret () (g i s) \<and> I (g i s)"
  shows "each f is s = Ret () (fold g is s) \<and> I (fold g is s)"
  using assms by (induction "is" arbitrary: s) simp_all

section \<open>Scanning a table\<close>

text \<open>
  The kernel looks for the first entry of a table that satisfies a test with a \<^verbatim>\<open>for\<close> loop;
  \<open>scan\<close> is that loop, started at index \<open>i\<close>.
\<close>

primrec scan :: "('a \<Rightarrow> bool) \<Rightarrow> 'a list \<Rightarrow> nat \<Rightarrow> nat option" where
  "scan P [] i = None"
| "scan P (x # xs) i = (if P x then Some i else scan P xs (Suc i))"

definition first_such :: "('a \<Rightarrow> bool) \<Rightarrow> 'a list \<Rightarrow> nat option" where
  "first_such P xs = scan P xs 0"

definition modify :: "nat \<Rightarrow> ('a \<Rightarrow> 'a) \<Rightarrow> 'a list \<Rightarrow> 'a list" where
  "modify i f xs = xs[i := f (xs ! i)]"

lemma scan_SomeD:
  "scan P xs i = Some j \<Longrightarrow> i \<le> j \<and> j - i < length xs \<and> P (xs ! (j - i)) \<and> (\<forall>k < j - i. \<not> P (xs ! k))"
proof (induction xs arbitrary: i)
  case Nil
  then show ?case by simp
next
  case (Cons x xs)
  show ?case
  proof (cases "P x")
    case True
    with Cons.prems show ?thesis by simp
  next
    case False
    with Cons.prems have "scan P xs (Suc i) = Some j" by simp
    note IH = Cons.IH [OF this]
    then have "j - i = Suc (j - Suc i)" by linarith
    with IH False show ?thesis
      by (auto simp: less_Suc_eq_0_disj)
  qed
qed

lemma scan_None: "scan P xs i = None \<longleftrightarrow> (\<forall>x \<in> set xs. \<not> P x)"
  by (induction xs arbitrary: i) auto

lemma first_such_None: "first_such P xs = None \<longleftrightarrow> (\<forall>x \<in> set xs. \<not> P x)"
  by (simp add: first_such_def scan_None)

lemma first_such_SomeD:
  assumes "first_such P xs = Some j"
  shows "j < length xs" "P (xs ! j)" "\<And>k. k < j \<Longrightarrow> \<not> P (xs ! k)"
  using scan_SomeD [OF assms [unfolded first_such_def]] by auto

lemma first_such_ex:
  assumes "j < length xs" "P (xs ! j)"
  obtains i where "first_such P xs = Some i" "i \<le> j"
proof (cases "first_such P xs")
  case None
  with assms show ?thesis by (auto simp: first_such_None)
next
  case (Some i)
  with first_such_SomeD(3) [OF Some, of j] assms(2) have "i \<le> j" by (meson not_le)
  with Some show ?thesis by (rule that)
qed

lemma length_modify [simp]: "length (modify i f xs) = length xs"
  by (simp add: modify_def)

lemma modify_modify: "modify i f (modify i g xs) = modify i (\<lambda>x. f (g x)) xs"
  by (cases "i < length xs") (simp_all add: modify_def list_update_beyond)

lemma nth_modify:
  "j < length xs \<Longrightarrow> modify i f xs ! j = (if i = j then f (xs ! j) else xs ! j)"
  by (auto simp: modify_def nth_list_update)

lemma nth_modify_eq [simp]: "i < length xs \<Longrightarrow> modify i f xs ! i = f (xs ! i)"
  by (simp add: modify_def)

lemma nth_modify_neq [simp]: "i \<noteq> j \<Longrightarrow> modify i f xs ! j = xs ! j"
  by (simp add: modify_def)

lemma map_modify_same:
  "(\<And>x. g (f x) = g x) \<Longrightarrow> map g (modify i f xs) = map g xs"
  by (rule nth_equalityI) (auto simp: nth_modify)

section \<open>Words\<close>

lemma unat_sub_le: "(y :: 'a :: len word) \<le> x \<Longrightarrow> unat (x - y) = unat x - unat y"
  by (rule unat_sub)

lemma unat_of_nat_small: "n < 2 ^ 32 \<Longrightarrow> unat (of_nat n :: u32) = n"
  by (simp add: unat_of_nat)

lemma unat_plus_small:
  "unat (x :: u32) + unat y < 2 ^ 32 \<Longrightarrow> unat (x + y) = unat x + unat y"
  by (simp add: unat_word_ariths)

lemma int_unat_word_of_int:
  "0 \<le> k \<Longrightarrow> k < 2 ^ 32 \<Longrightarrow> int (unat (word_of_int k :: u32)) = k"
  by (simp add: unsigned_of_int take_bit_int_eq_self)

section \<open>Runs that end\<close>

text \<open>A run ends unless it is the value \<open>Hang\<close> of a loop that never stops; the collection
  \<open>ends\<close> holds the facts that operations end.\<close>

named_theorems ends

definition terminates :: "('s, 'a) outcome \<Rightarrow> bool" where
  "terminates x \<longleftrightarrow> x \<noteq> Hang"

lemma terminates_simps [simp]:
  "terminates (Ret v s)" "terminates (Panic e)" "terminates (Undef e)" "terminates (Pause w s)" "\<not> terminates Hang"
  by (simp_all add: terminates_def)

lemma terminates_andthen [ends]:
  "terminates x \<Longrightarrow> (\<And>v s. x = Ret v s \<Longrightarrow> terminates (f v s)) \<Longrightarrow> terminates (andthen x f)"
  by (cases x) auto

lemma terminates_each [ends]: "(\<And>i s. i \<in> set xs \<Longrightarrow> terminates (f i s)) \<Longrightarrow> terminates (each f xs s)"
  by (induction xs arbitrary: s) (auto intro!: terminates_andthen)

end
