(* ===== verification/Spinlock.thy ===== *)
theory Spinlock
  imports Prelude
begin

text \<open>
  Per-CPU state and spin locks: \<^verbatim>\<open>spinlock.c\<close> and the functions \<^verbatim>\<open>mycpu\<close>, \<^verbatim>\<open>cpuid\<close>,
  \<^verbatim>\<open>myproc\<close> and \<^verbatim>\<open>mythd\<close> of \<^verbatim>\<open>proc.c\<close>. The record \<open>machine\<close> holds the CPU table, the
  APIC id of the CPU that executes, the interrupt flag of every CPU and the lock words; the
  operations are state transformers on it. The second half gives their closed forms, lifts
  them to any kernel state that contains a machine, and proves mutual exclusion for every
  interleaving of the CPUs. The debugging fields \<^verbatim>\<open>name\<close> and \<^verbatim>\<open>pcs\<close> of a lock are left out.
\<close>

section \<open>State\<close>

text \<open>A process and a thread are named by their index in \<^verbatim>\<open>ptable\<close>; a null pointer is \<open>None\<close>.
  Of the descriptor table and the task state of a CPU the fields that \<^verbatim>\<open>switchuvm\<close> and \<^verbatim>\<open>sched\<close> write
  are kept; the base of the task state descriptor is the index of the CPU whose task state it
  describes, and \<open>tr_sel\<close> is the task register. The interrupt flag and \<^verbatim>\<open>cr3\<close> of each CPU are
  functions of its APIC id.\<close>

record segdesc =
  sd_type :: nat
  sd_base :: nat
  sd_limit :: nat
  sd_s :: bool
  sd_dpl :: nat

record cpu =
  apicid :: nat
  ts_ss0 :: u16
  ts_esp0 :: u32
  ts_iomb :: u16
  gdt_tss :: "segdesc option"
  tr_sel :: u16
  ncli :: int
  intena :: bool
  c_proc :: "nat option"
  c_thd :: "nat option"

record spinlock =
  locked :: bool
  lk_cpu :: "nat option"

record machine =
  cpus :: "cpu list"
  lapicid :: nat
  eflags_IF :: "nat \<Rightarrow> bool"
  cr3 :: "nat \<Rightarrow> u32"
  locks :: "lockid \<Rightarrow> spinlock"

section \<open>Operations\<close>

definition readeflags_IF :: "machine \<Rightarrow> bool" where
  "readeflags_IF m = eflags_IF m (lapicid m)"

definition cli :: "machine \<Rightarrow> machine" where
  "cli m = m\<lparr>eflags_IF := (eflags_IF m)(lapicid m := False)\<rparr>"

definition sti :: "machine \<Rightarrow> machine" where
  "sti m = m\<lparr>eflags_IF := (eflags_IF m)(lapicid m := True)\<rparr>"

definition mycpu :: "machine \<Rightarrow> (machine, nat) outcome" where
  "mycpu m =
     (if readeflags_IF m then Panic ''mycpu called with interrupts enabled''
      else case first_such (\<lambda>c. apicid c = lapicid m) (cpus m) of
        None \<Rightarrow> Panic ''unknown apicid''
      | Some i \<Rightarrow> Ret i m)"

definition cpuid :: "machine \<Rightarrow> (machine, nat) outcome" where
  "cpuid m = mycpu m"

definition initlock :: "lockid \<Rightarrow> machine \<Rightarrow> machine" where
  "initlock lk m = m\<lparr>locks := (locks m)(lk := \<lparr>locked = False, lk_cpu = None\<rparr>)\<rparr>"

definition pushcli :: "machine \<Rightarrow> (machine, unit) outcome" where
  "pushcli m =
     (let eflags = readeflags_IF m; m = cli m in
      andthen (mycpu m) (\<lambda>c m.
        let m = (if ncli (cpus m ! c) = 0
                 then m\<lparr>cpus := modify c (\<lambda>cp. cp\<lparr>intena := eflags\<rparr>) (cpus m)\<rparr> else m) in
        Ret () (m\<lparr>cpus := modify c (\<lambda>cp. cp\<lparr>ncli := ncli cp + 1\<rparr>) (cpus m)\<rparr>)))"

definition popcli :: "machine \<Rightarrow> (machine, unit) outcome" where
  "popcli m =
     (if readeflags_IF m then Panic ''popcli - interruptible''
      else andthen (mycpu m) (\<lambda>c m.
        let m = m\<lparr>cpus := modify c (\<lambda>cp. cp\<lparr>ncli := ncli cp - 1\<rparr>) (cpus m)\<rparr> in
        if ncli (cpus m ! c) < 0 then Panic ''popcli''
        else if ncli (cpus m ! c) = 0 \<and> intena (cpus m ! c) then Ret () (sti m)
        else Ret () m))"

definition holding :: "lockid \<Rightarrow> machine \<Rightarrow> (machine, bool) outcome" where
  "holding lk m =
     andthen (pushcli m) (\<lambda>_ m.
     andthen (mycpu m) (\<lambda>c m.
       let r = locked (locks m lk) \<and> lk_cpu (locks m lk) = Some c in
     andthen (popcli m) (\<lambda>_ m. Ret r m)))"

text \<open>The loop on \<^verbatim>\<open>xchg\<close> and what follows it; a CPU that spins comes back to it.\<close>

definition acquire_spin :: "lockid \<Rightarrow> machine \<Rightarrow> (machine, unit) outcome" where
  "acquire_spin lk m =
     (if locked (locks m lk) then Pause (Spinning lk) m
      else let m = m\<lparr>locks := (locks m)(lk := (locks m lk)\<lparr>locked := True\<rparr>)\<rparr> in
        andthen (mycpu m) (\<lambda>c m.
          Ret () (m\<lparr>locks := (locks m)(lk := (locks m lk)\<lparr>lk_cpu := Some c\<rparr>)\<rparr>)))"

definition acquire :: "lockid \<Rightarrow> machine \<Rightarrow> (machine, unit) outcome" where
  "acquire lk m =
     andthen (pushcli m) (\<lambda>_ m.
     andthen (holding lk m) (\<lambda>h m.
       if h then Panic ''acquire'' else acquire_spin lk m))"

definition release :: "lockid \<Rightarrow> machine \<Rightarrow> (machine, unit) outcome" where
  "release lk m =
     andthen (holding lk m) (\<lambda>h m.
       if \<not> h then Panic ''release''
       else let m = m\<lparr>locks := (locks m)(lk := (locks m lk)\<lparr>lk_cpu := None\<rparr>)\<rparr>;
                m = m\<lparr>locks := (locks m)(lk := (locks m lk)\<lparr>locked := False\<rparr>)\<rparr> in
            popcli m)"

definition myproc :: "machine \<Rightarrow> (machine, nat option) outcome" where
  "myproc m =
     andthen (pushcli m) (\<lambda>_ m.
     andthen (mycpu m) (\<lambda>c m.
       let p = c_proc (cpus m ! c) in
     andthen (popcli m) (\<lambda>_ m. Ret p m)))"

definition mythd :: "machine \<Rightarrow> (machine, nat option) outcome" where
  "mythd m =
     andthen (pushcli m) (\<lambda>_ m.
     andthen (mycpu m) (\<lambda>c m.
       let t = c_thd (cpus m ! c) in
     andthen (popcli m) (\<lambda>_ m. Ret t m)))"

section \<open>Closed forms\<close>

text \<open>
  The executing CPU is found when its APIC id is in the table; then \<^verbatim>\<open>pushcli\<close> and \<^verbatim>\<open>popcli\<close>
  nest. \<open>pushed\<close>, \<open>popped\<close>, \<open>taken\<close> and \<open>dropped\<close> are the states they and the lock
  operations lead to; \<open>settle\<close> is what a matched pair leaves behind, at most a refreshed
  \<^verbatim>\<open>intena\<close> of a CPU that holds no lock, where the code never reads it.
\<close>

definition cpu_index :: "machine \<Rightarrow> nat" where
  "cpu_index m = (case first_such (\<lambda>c. apicid c = lapicid m) (cpus m) of None \<Rightarrow> 0 | Some i \<Rightarrow> i)"

abbreviation this_cpu :: "machine \<Rightarrow> cpu" where
  "this_cpu m \<equiv> cpus m ! cpu_index m"

definition cpu_ok :: "machine \<Rightarrow> bool" where
  "cpu_ok m \<longleftrightarrow> first_such (\<lambda>c. apicid c = lapicid m) (cpus m) \<noteq> None
     \<and> 0 \<le> ncli (this_cpu m) \<and> (0 < ncli (this_cpu m) \<longrightarrow> \<not> readeflags_IF m)"

definition pushed :: "machine \<Rightarrow> machine" where
  "pushed m = (cli m)\<lparr>cpus := modify (cpu_index m)
     (\<lambda>cp. cp\<lparr>intena := (if ncli cp = 0 then readeflags_IF m else intena cp), ncli := ncli cp + 1\<rparr>) (cpus m)\<rparr>"

definition popped :: "machine \<Rightarrow> machine" where
  "popped m = (let m' = m\<lparr>cpus := modify (cpu_index m) (\<lambda>cp. cp\<lparr>ncli := ncli cp - 1\<rparr>) (cpus m)\<rparr>
     in if ncli (this_cpu m) = 1 \<and> intena (this_cpu m) then sti m' else m')"

definition settle :: "machine \<Rightarrow> machine" where
  "settle m = m\<lparr>cpus := modify (cpu_index m)
     (\<lambda>cp. if ncli cp = 0 then cp\<lparr>intena := readeflags_IF m\<rparr> else cp) (cpus m)\<rparr>"

definition free_lock :: spinlock where
  "free_lock = \<lparr>locked = False, lk_cpu = None\<rparr>"

definition taken :: "lockid \<Rightarrow> machine \<Rightarrow> machine" where
  "taken lk m = (pushed m)\<lparr>locks := (locks m)(lk := \<lparr>locked = True, lk_cpu = Some (cpu_index m)\<rparr>)\<rparr>"

definition dropped :: "lockid \<Rightarrow> machine \<Rightarrow> machine" where
  "dropped lk m = popped (m\<lparr>locks := (locks m)(lk := free_lock)\<rparr>)"

definition holds :: "lockid \<Rightarrow> machine \<Rightarrow> bool" where
  "holds lk m \<longleftrightarrow> locked (locks m lk) \<and> lk_cpu (locks m lk) = Some (cpu_index m)"

definition curproc :: "machine \<Rightarrow> nat option" where
  "curproc m = c_proc (this_cpu m)"

definition curthd :: "machine \<Rightarrow> nat option" where
  "curthd m = c_thd (this_cpu m)"

lemma cpu_ncli_idem: "ncli cp = n \<Longrightarrow> cp\<lparr>intena := b, ncli := n\<rparr> = cp\<lparr>intena := b\<rparr>"
  by (cases cp) simp

lemma cpu_intena_ncli_idem: "cp\<lparr>intena := intena cp, ncli := ncli cp\<rparr> = cp"
  by (cases cp) simp

lemma spinlock_all: "l\<lparr>locked := b, lk_cpu := c\<rparr> = \<lparr>locked = b, lk_cpu = c\<rparr>"
  by (cases l) simp

lemma cpu_ok_index: "cpu_ok m \<Longrightarrow> cpu_index m < length (cpus m)"
  by (auto simp: cpu_ok_def cpu_index_def dest: first_such_SomeD(1))

lemma locks_update_simps [simp]:
  "cpu_index (locks_update f m) = cpu_index m" "readeflags_IF (locks_update f m) = readeflags_IF m"
  "cpu_ok (locks_update f m) = cpu_ok m"
  by (simp_all add: cpu_index_def readeflags_IF_def cpu_ok_def)

lemma scan_modify:
  "(\<And>x. P (f x) = P x) \<Longrightarrow> scan P (xs[i := f (xs ! i)]) j = scan P xs j"
proof (induction xs arbitrary: i j)
  case Nil
  then show ?case by simp
next
  case (Cons x xs)
  then show ?case by (cases i) auto
qed

lemma first_such_modify: "(\<And>x. P (f x) = P x) \<Longrightarrow> first_such P (modify i f xs) = first_such P xs"
  by (simp add: first_such_def modify_def scan_modify)

lemma mycpu_ok: "cpu_ok m \<Longrightarrow> \<not> readeflags_IF m \<Longrightarrow> mycpu m = Ret (cpu_index m) m"
  by (auto simp: mycpu_def cpu_ok_def cpu_index_def)

lemma pushcli_eq:
  assumes "cpu_ok m"
  shows "pushcli m = Ret () (pushed m)"
proof -
  have i: "cpu_index m < length (cpus m)" using assms by (rule cpu_ok_index)
  have "mycpu (cli m) = Ret (cpu_index m) (cli m)"
    using assms by (auto simp: mycpu_def cpu_ok_def cpu_index_def cli_def readeflags_IF_def)
  then show ?thesis
    using i by (auto simp: pushcli_def pushed_def modify_def cli_def)
qed

lemma cpu_index_pushed [simp]: "cpu_index (pushed m) = cpu_index m"
  by (simp add: cpu_index_def pushed_def cli_def first_such_modify)

lemma pushed_simps [simp]:
  "locks (pushed m) = locks m" "lapicid (pushed m) = lapicid m" "cr3 (pushed m) = cr3 m"
  "length (cpus (pushed m)) = length (cpus m)" "readeflags_IF (pushed m) = False"
  by (simp_all add: pushed_def cli_def readeflags_IF_def)

lemma this_cpu_pushed:
  "cpu_ok m \<Longrightarrow> this_cpu (pushed m) = (this_cpu m)\<lparr>intena := (if ncli (this_cpu m) = 0
     then readeflags_IF m else intena (this_cpu m)), ncli := ncli (this_cpu m) + 1\<rparr>"
  using cpu_ok_index [of m] by (simp add: pushed_def cli_def cpu_index_def first_such_modify)

lemma cpu_ok_pushed [simp]: "cpu_ok m \<Longrightarrow> cpu_ok (pushed m)"
proof -
  assume a: "cpu_ok m"
  have "first_such (\<lambda>c. apicid c = lapicid (pushed m)) (cpus (pushed m)) \<noteq> None"
    using a by (simp add: cpu_ok_def pushed_def cli_def first_such_modify)
  with a show ?thesis
    by (simp only: cpu_ok_def this_cpu_pushed [OF a] pushed_simps) (simp add: cpu_ok_def)
qed

lemma popcli_eq:
  assumes "cpu_ok m" "0 < ncli (this_cpu m)"
  shows "popcli m = Ret () (popped m)"
proof -
  have i: "cpu_index m < length (cpus m)" using assms(1) by (rule cpu_ok_index)
  have ie: "\<not> readeflags_IF m" using assms by (simp add: cpu_ok_def)
  show ?thesis
    using i ie assms(2) by (simp add: popcli_def mycpu_ok [OF assms(1) ie] popped_def Let_def)
qed

lemma popped_pushed: "cpu_ok m \<Longrightarrow> popped (pushed m) = settle m"
proof -
  assume a: "cpu_ok m"
  have i: "cpu_index m < length (cpus m)" using a by (rule cpu_ok_index)
  show ?thesis
  proof (cases "ncli (this_cpu m) = 0")
    case True
    show ?thesis
    proof (cases "readeflags_IF m")
      case True
      then have "(eflags_IF m)(lapicid m := True) = eflags_IF m"
        by (simp add: readeflags_IF_def fun_upd_idem)
      with \<open>ncli (this_cpu m) = 0\<close> True i show ?thesis
        by (simp add: popped_def this_cpu_pushed [OF a] Let_def)
          (simp add: pushed_def settle_def sti_def cli_def modify_def cpu_ncli_idem cpu_intena_ncli_idem)
    next
      case False
      then have "(eflags_IF m)(lapicid m := False) = eflags_IF m"
        by (simp add: readeflags_IF_def fun_upd_idem)
      with \<open>ncli (this_cpu m) = 0\<close> False i show ?thesis
        by (simp add: popped_def this_cpu_pushed [OF a] Let_def)
          (simp add: pushed_def settle_def sti_def cli_def modify_def cpu_ncli_idem cpu_intena_ncli_idem)
    qed
  next
    case False
    with a have n: "0 < ncli (this_cpu m)" "\<not> readeflags_IF m" by (auto simp: cpu_ok_def)
    then have "(eflags_IF m)(lapicid m := False) = eflags_IF m"
      by (simp add: readeflags_IF_def fun_upd_idem)
    with n i show ?thesis
      by (simp add: popped_def this_cpu_pushed [OF a] Let_def)
        (simp add: pushed_def settle_def sti_def cli_def modify_def cpu_ncli_idem cpu_intena_ncli_idem)
  qed
qed

lemma settle_nested: "0 < ncli (this_cpu m) \<Longrightarrow> settle m = m"
  by (simp add: settle_def modify_def)

lemma holding_eq: "cpu_ok m \<Longrightarrow> holding lk m = Ret (holds lk m) (settle m)"
proof -
  assume a: "cpu_ok m"
  have p: "cpu_ok (pushed m)" "0 < ncli (this_cpu (pushed m))"
    using a this_cpu_pushed [OF a] by (simp_all add: cpu_ok_def [of m])
  show ?thesis
    by (simp add: holding_def pushcli_eq [OF a] mycpu_ok [OF p(1)] popcli_eq [OF p]
        popped_pushed [OF a] holds_def)
qed

lemma myproc_eq: "cpu_ok m \<Longrightarrow> myproc m = Ret (curproc m) (settle m)"
  and mythd_eq: "cpu_ok m \<Longrightarrow> mythd m = Ret (curthd m) (settle m)"
proof -
  assume a: "cpu_ok m"
  have p: "cpu_ok (pushed m)" "0 < ncli (this_cpu (pushed m))"
    using a this_cpu_pushed [OF a] by (simp_all add: cpu_ok_def [of m])
  show "myproc m = Ret (curproc m) (settle m)" "mythd m = Ret (curthd m) (settle m)"
    by (simp_all add: myproc_def mythd_def curproc_def curthd_def pushcli_eq [OF a]
        mycpu_ok [OF p(1)] popcli_eq [OF p] popped_pushed [OF a])
      (simp_all add: this_cpu_pushed [OF a, simplified])
qed

lemma settle_simps [simp]:
  "locks (settle m) = locks m" "lapicid (settle m) = lapicid m" "cr3 (settle m) = cr3 m"
  "length (cpus (settle m)) = length (cpus m)" "eflags_IF (settle m) = eflags_IF m"
  "readeflags_IF (settle m) = readeflags_IF m"
  by (simp_all add: settle_def readeflags_IF_def)

lemma cpu_index_settle [simp]: "cpu_index (settle m) = cpu_index m"
  by (simp add: cpu_index_def settle_def first_such_modify)

lemma this_cpu_settle:
  "cpu_ok m \<Longrightarrow> this_cpu (settle m) = (if ncli (this_cpu m) = 0
     then (this_cpu m)\<lparr>intena := readeflags_IF m\<rparr> else this_cpu m)"
  using cpu_ok_index [of m] by (simp add: settle_def cpu_index_def first_such_modify)

lemma acquire_eq:
  assumes "cpu_ok m"
  shows "acquire lk m = (if holds lk m then Panic ''acquire''
     else if locked (locks m lk) then Pause (Spinning lk) (pushed m) else Ret () (taken lk m))"
proof -
  have p: "0 < ncli (this_cpu (pushed m))"
    using assms this_cpu_pushed [OF assms] by (simp add: cpu_ok_def [of m])
  have ok: "cpu_ok (pushed m)" using assms by simp
  have h: "holds lk (pushed m) = holds lk m" by (simp add: holds_def)
  let ?m = "(pushed m)\<lparr>locks := (locks m)(lk := (locks m lk)\<lparr>locked := True\<rparr>)\<rparr>"
  have c: "mycpu ?m = Ret (cpu_index m) ?m"
    using mycpu_ok [of ?m] ok by simp
  show ?thesis
    by (simp add: acquire_def pushcli_eq [OF assms] holding_eq [OF ok] settle_nested [OF p] h
        acquire_spin_def Let_def c taken_def spinlock_all)
qed

lemma release_eq:
  assumes "cpu_ok m" "0 < ncli (this_cpu m)"
  shows "release lk m = (if holds lk m then Ret () (dropped lk m) else Panic ''release'')"
proof -
  let ?m = "m\<lparr>locks := (locks m)(lk := free_lock)\<rparr>"
  have ok: "cpu_ok ?m" "0 < ncli (this_cpu ?m)"
    using assms by simp_all
  have "(locks m lk)\<lparr>lk_cpu := None, locked := False\<rparr> = free_lock"
    by (cases "locks m lk") (simp add: free_lock_def)
  then show ?thesis
    using popcli_eq [OF ok] by (simp add: release_def holding_eq [OF assms(1)] settle_nested [OF assms(2)]
        Let_def dropped_def)
qed

lemma taken_simps [simp]:
  "cpu_index (taken lk m) = cpu_index m" "lapicid (taken lk m) = lapicid m"
  "cr3 (taken lk m) = cr3 m" "readeflags_IF (taken lk m) = False"
  "locks (taken lk m) = (locks m)(lk := \<lparr>locked = True, lk_cpu = Some (cpu_index m)\<rparr>)"
  "cpus (taken lk m) = cpus (pushed m)"
  by (simp_all add: taken_def)

lemma cpu_ok_taken [simp]: "cpu_ok m \<Longrightarrow> cpu_ok (taken lk m)"
  by (simp add: taken_def)

lemma holds_taken [simp]: "holds lk' (taken lk m) \<longleftrightarrow> lk' = lk \<or> holds lk' m"
  by (simp add: holds_def)

lemma ncli_taken [simp]: "cpu_ok m \<Longrightarrow> ncli (cpus (pushed m) ! cpu_index m) = ncli (this_cpu m) + 1"
  using this_cpu_pushed [of m] by simp

lemma cur_taken [simp]:
  assumes "cpu_ok m"
  shows "curproc (taken lk m) = curproc m" "curthd (taken lk m) = curthd m"
  using this_cpu_pushed [OF assms] by (simp_all add: curproc_def curthd_def)

lemma cur_settle [simp]:
  assumes "cpu_ok m"
  shows "curproc (settle m) = curproc m" "curthd (settle m) = curthd m"
  using this_cpu_settle [OF assms] by (simp_all add: curproc_def curthd_def)

lemma cpu_ok_settle [simp]: "cpu_ok m \<Longrightarrow> cpu_ok (settle m)"
proof -
  assume a: "cpu_ok m"
  have "first_such (\<lambda>c. apicid c = lapicid (settle m)) (cpus (settle m)) \<noteq> None"
    using a by (simp add: cpu_ok_def settle_def first_such_modify)
  with a show ?thesis
    by (simp only: cpu_ok_def this_cpu_settle [OF a] settle_simps) (simp add: cpu_ok_def)
qed

lemma dropped_taken:
  assumes "cpu_ok m" "locks m lk = free_lock"
  shows "dropped lk (taken lk m) = settle m"
proof -
  have l: "(locks m)(lk := free_lock) = locks m" using assms(2) by (simp add: fun_upd_idem)
  have "(taken lk m)\<lparr>locks := (locks (taken lk m))(lk := free_lock)\<rparr> = pushed m"
    using l pushed_simps(1) [of m] by (simp add: taken_def)
  then show ?thesis by (simp only: dropped_def popped_pushed [OF assms(1)])
qed

lemma cpu_index_popped [simp]: "cpu_index (popped m) = cpu_index m"
  by (simp add: cpu_index_def popped_def sti_def Let_def first_such_modify)

lemma cpu_index_dropped [simp]: "cpu_index (dropped lk m) = cpu_index m"
  by (simp add: dropped_def)

lemma locks_dropped [simp]: "locks (dropped lk m) = (locks m)(lk := free_lock)"
  by (simp add: dropped_def popped_def sti_def Let_def)

lemma this_cpu_popped:
  "cpu_ok m \<Longrightarrow> this_cpu (popped m) = (this_cpu m)\<lparr>ncli := ncli (this_cpu m) - 1\<rparr>"
  using cpu_ok_index [of m]
  by (simp add: popped_def cpu_index_def sti_def Let_def first_such_modify)

lemma dropped_simps [simp]:
  assumes "cpu_ok m"
  shows "ncli (cpus (dropped lk m) ! cpu_index m) = ncli (this_cpu m) - 1"
    "curproc (dropped lk m) = curproc m" "curthd (dropped lk m) = curthd m"
  using this_cpu_popped [of "m\<lparr>locks := (locks m)(lk := free_lock)\<rparr>"] assms
  by (simp_all add: dropped_def curproc_def curthd_def)

lemma cpu_ok_popped: "cpu_ok m \<Longrightarrow> 0 < ncli (this_cpu m) \<Longrightarrow> cpu_ok (popped m)"
proof -
  assume a: "cpu_ok m" and n: "0 < ncli (this_cpu m)"
  have f: "first_such (\<lambda>c. apicid c = lapicid (popped m)) (cpus (popped m)) \<noteq> None"
    using a by (simp add: cpu_ok_def popped_def sti_def Let_def first_such_modify)
  have e: "ncli (this_cpu m) \<noteq> 1 \<Longrightarrow> readeflags_IF (popped m) = readeflags_IF m"
    by (simp add: popped_def readeflags_IF_def)
  show ?thesis
    unfolding cpu_ok_def this_cpu_popped [OF a]
    using f e a n by (auto simp: cpu_ok_def)
qed

lemma cpu_ok_dropped [simp]: "cpu_ok m \<Longrightarrow> 0 < ncli (this_cpu m) \<Longrightarrow> cpu_ok (dropped lk m)"
  by (simp add: dropped_def cpu_ok_popped)

lemma holds_dropped [simp]: "holds lk' (dropped lk m) \<longleftrightarrow> lk' \<noteq> lk \<and> holds lk' m"
  by (simp add: holds_def free_lock_def)

section \<open>Lock operations on a kernel state\<close>

text \<open>Every kernel state extends \<open>kbase\<close>, which carries the machine.\<close>

record kbase =
  mach :: machine

definition on_mach ::
  "(machine \<Rightarrow> (machine, 'a) outcome) \<Rightarrow> 'x kbase_scheme \<Rightarrow> ('x kbase_scheme, 'a) outcome" where
  "on_mach f s = (case f (mach s) of
       Ret v m \<Rightarrow> Ret v (s\<lparr>mach := m\<rparr>)
     | Panic e \<Rightarrow> Panic e | Undef e \<Rightarrow> Undef e
     | Pause w m \<Rightarrow> Pause w (s\<lparr>mach := m\<rparr>) | Hang \<Rightarrow> Hang)"

abbreviation kacquire :: "lockid \<Rightarrow> 'x kbase_scheme \<Rightarrow> ('x kbase_scheme, unit) outcome" where
  "kacquire lk \<equiv> on_mach (acquire lk)"

abbreviation krelease :: "lockid \<Rightarrow> 'x kbase_scheme \<Rightarrow> ('x kbase_scheme, unit) outcome" where
  "krelease lk \<equiv> on_mach (release lk)"

text \<open>The executing CPU can enter the critical section of a free lock.\<close>

definition lockable :: "lockid \<Rightarrow> machine \<Rightarrow> bool" where
  "lockable lk m \<longleftrightarrow> cpu_ok m \<and> locks m lk = free_lock"

lemma lockable_settle [simp]: "lockable lk m \<Longrightarrow> lockable lk (settle m)"
  by (simp add: lockable_def)

lemma lockable_taken [simp]: "lk' \<noteq> lk \<Longrightarrow> lockable lk' m \<Longrightarrow> lockable lk' (taken lk m)"
  by (simp add: lockable_def)

lemma lockable_cpu_ok [simp]: "lockable lk m \<Longrightarrow> cpu_ok m"
  by (simp add: lockable_def)

lemma kacquire_free [simp]:
  "lockable lk (mach s) \<Longrightarrow> kacquire lk s = Ret () (s\<lparr>mach := taken lk (mach s)\<rparr>)"
  by (simp add: on_mach_def lockable_def acquire_eq holds_def free_lock_def)

lemma krelease_taken [simp]:
  "mach s = taken lk m \<Longrightarrow> lockable lk m \<Longrightarrow> krelease lk s = Ret () (s\<lparr>mach := settle m\<rparr>)"
  by (simp add: on_mach_def lockable_def release_eq dropped_taken cpu_ok_def [of m])

section \<open>Interleavings of the CPUs\<close>

text \<open>
  \<open>lsys\<close> adds to the machine the lock each CPU is spinning on and the set \<open>inside\<close> of
  critical sections that CPUs have entered and not left. A step is one lock operation by the
  executing CPU or a change of the executing CPU.
\<close>

record lsys =
  lmach :: machine
  spinning_on :: "nat \<Rightarrow> lockid option"
  inside :: "(nat \<times> lockid) set"

inductive lock_step :: "lsys \<Rightarrow> lsys \<Rightarrow> bool" where
  enter: "spinning_on s (cpu_index (lmach s)) = None \<Longrightarrow> acquire lk (lmach s) = Ret () m \<Longrightarrow>
    lock_step s (s\<lparr>lmach := m, inside := insert (cpu_index (lmach s), lk) (inside s)\<rparr>)"
| block: "spinning_on s (cpu_index (lmach s)) = None \<Longrightarrow> acquire lk (lmach s) = Pause w m \<Longrightarrow>
    lock_step s (s\<lparr>lmach := m, spinning_on := (spinning_on s)(cpu_index (lmach s) := Some lk)\<rparr>)"
| win: "spinning_on s (cpu_index (lmach s)) = Some lk \<Longrightarrow> acquire_spin lk (lmach s) = Ret () m \<Longrightarrow>
    lock_step s (s\<lparr>lmach := m, spinning_on := (spinning_on s)(cpu_index (lmach s) := None),
                   inside := insert (cpu_index (lmach s), lk) (inside s)\<rparr>)"
| leave: "spinning_on s (cpu_index (lmach s)) = None \<Longrightarrow> release lk (lmach s) = Ret () m \<Longrightarrow>
    lock_step s (s\<lparr>lmach := m, inside := inside s - {(cpu_index (lmach s), lk)}\<rparr>)"
| other_cpu: "lock_step s (s\<lparr>lmach := (lmach s)\<lparr>lapicid := a\<rparr>\<rparr>)"

inductive lock_reach :: "lsys \<Rightarrow> bool" where
  boot: "(\<And>lk. locks (lmach s) lk = free_lock) \<Longrightarrow> inside s = {} \<Longrightarrow> spinning_on s = (\<lambda>_. None) \<Longrightarrow>
    lock_reach s"
| step: "lock_reach s \<Longrightarrow> lock_step s t \<Longrightarrow> lock_reach t"

definition lock_inv :: "lsys \<Rightarrow> bool" where
  "lock_inv s \<longleftrightarrow> (\<forall>c lk. (c, lk) \<in> inside s \<longleftrightarrow>
     locked (locks (lmach s) lk) \<and> lk_cpu (locks (lmach s) lk) = Some c)"

lemma mycpu_Ret: "mycpu m = Ret c m' \<Longrightarrow> m' = m \<and> c = cpu_index m"
  by (auto simp: mycpu_def cpu_index_def split: if_splits option.splits)

lemma pushcli_Ret: "pushcli m = Ret u m' \<Longrightarrow> locks m' = locks m \<and> cpu_index m' = cpu_index m"
  by (auto simp: pushcli_def Let_def andthen_eq_Ret cli_def dest!: mycpu_Ret split: if_splits)
    (auto simp: cpu_index_def first_such_modify)

lemma popcli_Ret: "popcli m = Ret u m' \<Longrightarrow> locks m' = locks m \<and> cpu_index m' = cpu_index m"
  by (auto simp: popcli_def Let_def andthen_eq_Ret sti_def dest!: mycpu_Ret split: if_splits)
    (auto simp: cpu_index_def first_such_modify)

lemma holding_Ret:
  "holding lk m = Ret h m' \<Longrightarrow> locks m' = locks m \<and> cpu_index m' = cpu_index m \<and> h = holds lk m"
  by (auto simp: holding_def Let_def andthen_eq_Ret holds_def
      dest!: mycpu_Ret pushcli_Ret popcli_Ret)

lemma acquire_spin_Ret:
  "acquire_spin lk m = Ret u m' \<Longrightarrow> \<not> locked (locks m lk) \<and>
     locks m' = (locks m)(lk := \<lparr>locked = True, lk_cpu = Some (cpu_index m)\<rparr>)"
  by (auto simp: acquire_spin_def Let_def andthen_eq_Ret spinlock_all dest!: mycpu_Ret split: if_splits)

lemma acquire_Ret:
  "acquire lk m = Ret u m' \<Longrightarrow> \<not> locked (locks m lk) \<and>
     locks m' = (locks m)(lk := \<lparr>locked = True, lk_cpu = Some (cpu_index m)\<rparr>)"
  by (auto simp: acquire_def andthen_eq_Ret dest!: pushcli_Ret holding_Ret acquire_spin_Ret split: if_splits)

lemma acquire_Pause: "acquire lk m = Pause w m' \<Longrightarrow> locks m' = locks m"
proof -
  assume a: "acquire lk m = Pause w m'"
  have np: "pushcli n \<noteq> Pause w n'" "mycpu n \<noteq> Pause w n'" "popcli n \<noteq> Pause w n'"
    "holding lk n \<noteq> Pause w n'" for n n'
    by (auto simp: pushcli_def popcli_def mycpu_def holding_def Let_def split: option.splits if_splits)
  obtain m1 where m1: "pushcli m = Ret () m1"
    using a np(1) by (cases "pushcli m") (auto simp: acquire_def)
  obtain h m2 where m2: "holding lk m1 = Ret h m2"
    using a m1 np(4) by (cases "holding lk m1") (auto simp: acquire_def)
  have "acquire_spin lk m2 = Pause w m'"
    using a m1 m2 by (auto simp: acquire_def split: if_splits)
  then have "m' = m2"
    using np(2) by (auto simp: acquire_spin_def Let_def mycpu_def split: if_splits option.splits)
  with pushcli_Ret [OF m1] holding_Ret [OF m2] show ?thesis by simp
qed

lemma release_Ret:
  "release lk m = Ret u m' \<Longrightarrow> holds lk m \<and> locks m' = (locks m)(lk := free_lock)"
  by (auto simp: release_def Let_def andthen_eq_Ret free_lock_def dest!: holding_Ret popcli_Ret
      split: if_splits)

lemma lock_step_inv: "lock_step s t \<Longrightarrow> lock_inv s \<Longrightarrow> lock_inv t"
proof (induction rule: lock_step.induct)
  case (enter s lk m)
  with acquire_Ret [OF enter.hyps(2)] show ?case by (auto simp: lock_inv_def)
next
  case (block s lk w m)
  with acquire_Pause [OF block.hyps(2)] show ?case by (simp add: lock_inv_def)
next
  case (win s lk m)
  with acquire_spin_Ret [OF win.hyps(2)] show ?case by (auto simp: lock_inv_def)
next
  case (leave s lk m)
  with release_Ret [OF leave.hyps(2)] show ?case by (auto simp: lock_inv_def holds_def free_lock_def)
next
  case (other_cpu s a)
  then show ?case by (simp add: lock_inv_def)
qed

lemma lock_reach_inv: "lock_reach s \<Longrightarrow> lock_inv s"
proof (induction rule: lock_reach.induct)
  case (boot s)
  then show ?case by (simp add: lock_inv_def free_lock_def)
next
  case (step s t)
  then show ?case by (blast intro: lock_step_inv)
qed

section \<open>Properties\<close>

text \<open>C17. Mutual exclusion of spin locks: in every interleaving of lock operations of any number of
  CPUs, at most one CPU is between a returned \<^verbatim>\<open>acquire\<close> and its \<^verbatim>\<open>release\<close> of the same lock,
  and that CPU is the one the lock records.\<close>

theorem spin_mutual_exclusion:
  assumes "lock_reach s" "(c, lk) \<in> inside s" "(d, lk) \<in> inside s"
  shows "c = d \<and> locked (locks (lmach s) lk) \<and> lk_cpu (locks (lmach s) lk) = Some c"
  using lock_reach_inv [OF assms(1)] assms(2,3) by (auto simp: lock_inv_def)

definition idle_cpu :: "nat \<Rightarrow> cpu" where
  "idle_cpu a = \<lparr>apicid = a, ts_ss0 = 0, ts_esp0 = 0, ts_iomb = 0, gdt_tss = None, tr_sel = 0,
     ncli = 0, intena = False, c_proc = None, c_thd = None\<rparr>"

definition two_cpus :: machine where
  "two_cpus = \<lparr>cpus = [idle_cpu 7, idle_cpu 3], lapicid = 3, eflags_IF = (\<lambda>_. True),
     cr3 = (\<lambda>_. 0), locks = (\<lambda>_. free_lock)\<rparr>"

lemma two_cpus_ok: "cpu_ok two_cpus" "cpu_index two_cpus = 1"
  by (simp_all add: two_cpus_def idle_cpu_def cpu_ok_def cpu_index_def first_such_def)

theorem spin_mutual_exclusion_witness:
  "\<exists>s. lock_reach s \<and> (1, LogLock) \<in> inside s \<and> lk_cpu (locks (lmach s) LogLock) = Some 1"
proof -
  let ?s = "\<lparr>lmach = two_cpus, spinning_on = (\<lambda>_. None), inside = {}\<rparr>"
  let ?t = "?s\<lparr>lmach := taken LogLock two_cpus, inside := insert (1, LogLock) {}\<rparr>"
  have "lock_reach ?s"
    by (rule lock_reach.boot) (simp_all add: two_cpus_def idle_cpu_def)
  moreover have "acquire LogLock two_cpus = Ret () (taken LogLock two_cpus)"
    using two_cpus_ok(1) by (simp add: acquire_eq holds_def) (simp add: two_cpus_def idle_cpu_def free_lock_def)
  then have "lock_step ?s ?t"
    using lock_step.enter [of ?s LogLock "taken LogLock two_cpus"] two_cpus_ok(2) by simp
  ultimately have r: "lock_reach ?t" by (rule lock_reach.step)
  have i: "(1, LogLock) \<in> inside ?t" by simp
  from spin_mutual_exclusion [OF r i i] r i show ?thesis by blast
qed

primrec pushes :: "nat \<Rightarrow> machine \<Rightarrow> (machine, unit) outcome" where
  "pushes 0 m = Ret () m"
| "pushes (Suc n) m = andthen (pushes n m) (\<lambda>_ m. pushcli m)"

primrec pops :: "nat \<Rightarrow> machine \<Rightarrow> (machine, unit) outcome" where
  "pops 0 m = Ret () m"
| "pops (Suc n) m = andthen (pops n m) (\<lambda>_ m. popcli m)"

definition at_depth :: "machine \<Rightarrow> nat \<Rightarrow> machine \<Rightarrow> bool" where
  "at_depth m n x \<longleftrightarrow> cpu_ok x \<and> ncli (this_cpu x) = ncli (this_cpu m) + int n
     \<and> readeflags_IF x = (n = 0 \<and> readeflags_IF m)
     \<and> (0 < n \<and> ncli (this_cpu m) = 0 \<longrightarrow> intena (this_cpu x) = readeflags_IF m)"

lemma at_depth_push:
  assumes "cpu_ok m" "at_depth m n x"
  shows "at_depth m (Suc n) (pushed x)"
  using assms this_cpu_pushed [of x] by (auto simp: at_depth_def cpu_ok_def [of m])

lemma readeflags_popped:
  "readeflags_IF (popped x) = (readeflags_IF x \<or> (ncli (this_cpu x) = 1 \<and> intena (this_cpu x)))"
  by (auto simp: popped_def sti_def readeflags_IF_def Let_def)

lemma at_depth_pop:
  assumes "cpu_ok m" "at_depth m (Suc n) x"
  shows "popcli x = Ret () (popped x) \<and> at_depth m n (popped x)"
proof -
  have x: "cpu_ok x" "0 < ncli (this_cpu x)" "\<not> readeflags_IF x"
    using assms by (auto simp: at_depth_def cpu_ok_def [of m])
  then show ?thesis
    using assms popcli_eq [OF x(1,2)] cpu_ok_popped [OF x(1,2)] this_cpu_popped [OF x(1)]
    by (auto simp: at_depth_def readeflags_popped cpu_ok_def [of m])
qed

lemma pushes_depth: "cpu_ok m \<Longrightarrow> \<exists>x. pushes n m = Ret () x \<and> at_depth m n x"
proof (induction n)
  case 0
  then show ?case by (simp add: at_depth_def)
next
  case (Suc n)
  then obtain x where "pushes n m = Ret () x" "at_depth m n x" by auto
  moreover from this(2) have "cpu_ok x" by (simp add: at_depth_def)
  ultimately show ?case using Suc.prems by (auto simp: pushcli_eq at_depth_push)
qed

lemma pops_depth:
  "cpu_ok m \<Longrightarrow> at_depth m n x \<Longrightarrow> k \<le> n \<Longrightarrow> \<exists>y. pops k x = Ret () y \<and> at_depth m (n - k) y"
proof (induction k)
  case 0
  then show ?case by simp
next
  case (Suc k)
  then obtain y where y: "pops k x = Ret () y" "at_depth m (n - k) y" by auto
  moreover have "n - k = Suc (n - Suc k)" using Suc.prems by simp
  ultimately show ?case using at_depth_pop [OF Suc.prems(1), of "n - Suc k" y] by auto
qed

text \<open>C18. \<^verbatim>\<open>pushcli\<close> and \<^verbatim>\<open>popcli\<close> are matched, for nestings within the range of the C \<^verbatim>\<open>int\<close> that counts them: after
  \<open>n\<close> calls of \<^verbatim>\<open>pushcli\<close> and \<open>k \<le> n\<close> calls of \<^verbatim>\<open>popcli\<close> no call has panicked and the counter has not overflown, the nesting depth is \<open>n - k\<close> above the start, and interrupts
  are on exactly when the calls are matched and interrupts were on at the start.\<close>

theorem cli_nesting:
  assumes "cpu_ok m" "k \<le> n" "ncli (this_cpu m) + int n < 2 ^ 31"
  shows "\<exists>m'. andthen (pushes n m) (\<lambda>_ m. pops k m) = Ret () m'
    \<and> ncli (this_cpu m') = ncli (this_cpu m) + int (n - k)
    \<and> readeflags_IF m' = (k = n \<and> readeflags_IF m) \<and> (\<forall>j \<le> n. \<exists>x. pushes j m = Ret () x \<and> ncli (this_cpu x) < 2 ^ 31)"
proof -
  have "\<exists>x. pushes j m = Ret () x \<and> ncli (this_cpu x) < 2 ^ 31" if "j \<le> n" for j
    using pushes_depth [OF assms(1), of j] assms(3) that by (auto simp: at_depth_def)
  moreover obtain x where "pushes n m = Ret () x" "at_depth m n x"
    using pushes_depth [OF assms(1)] by blast
  moreover obtain y where "pops k x = Ret () y" "at_depth m (n - k) y"
    using pops_depth [OF assms(1) \<open>at_depth m n x\<close> assms(2)] by blast
  ultimately show ?thesis using assms(2) by (auto simp: at_depth_def)
qed

theorem cli_nesting_witness:
  "\<exists>m'. andthen (pushes 3 two_cpus) (\<lambda>_ m. pops 3 m) = Ret () m' \<and> readeflags_IF m'"
proof -
  have "ncli (this_cpu two_cpus) + int 3 < 2 ^ 31" "readeflags_IF two_cpus"
    by (simp_all add: two_cpus_def idle_cpu_def readeflags_IF_def cpu_index_def first_such_def)
  then show ?thesis using cli_nesting [OF two_cpus_ok(1), of 3 3] by auto
qed

end
