(* ===== verification/Memory.thy ===== *)
theory Memory
  imports Prelude
begin

text \<open>
  Byte-addressed memory, the address arithmetic of \<^verbatim>\<open>memlayout.h\<close> and \<^verbatim>\<open>mmu.h\<close>, and the
  memory and string routines of \<^verbatim>\<open>string.c\<close>. Memory is a function from 32-bit addresses to
  bytes; a word is stored in four bytes, least significant first. The comparison routines take
  their operands as functions from offsets to bytes, which is what a C pointer is to them.
\<close>

section \<open>Layout constants and address arithmetic\<close>

definition EXTMEM :: u32 where "EXTMEM = 0x100000"
definition PHYSTOP :: u32 where "PHYSTOP = 0xE000000"
definition DEVSPACE :: u32 where "DEVSPACE = 0xFE000000"
definition KERNBASE :: u32 where "KERNBASE = 0x80000000"
definition KERNLINK :: u32 where "KERNLINK = KERNBASE + EXTMEM"
definition V2P :: "u32 \<Rightarrow> u32" where "V2P a = a - KERNBASE"
definition P2V :: "u32 \<Rightarrow> u32" where "P2V a = a + KERNBASE"

definition PGSIZE :: u32 where "PGSIZE = 4096"
definition PDX :: "u32 \<Rightarrow> u32" where "PDX va = drop_bit 22 va AND 0x3FF"
definition PTX :: "u32 \<Rightarrow> u32" where "PTX va = drop_bit 12 va AND 0x3FF"
definition PGADDR :: "u32 \<Rightarrow> u32 \<Rightarrow> u32 \<Rightarrow> u32" where
  "PGADDR d t off = push_bit 22 d OR push_bit 12 t OR off"
definition PGROUNDUP :: "u32 \<Rightarrow> u32" where
  "PGROUNDUP sz = (sz + PGSIZE - 1) AND NOT (PGSIZE - 1)"
definition PGROUNDDOWN :: "u32 \<Rightarrow> u32" where
  "PGROUNDDOWN a = a AND NOT (PGSIZE - 1)"
definition PTE_P :: u32 where "PTE_P = 0x001"
definition PTE_W :: u32 where "PTE_W = 0x002"
definition PTE_U :: u32 where "PTE_U = 0x004"
definition PTE_ADDR :: "u32 \<Rightarrow> u32" where "PTE_ADDR pte = pte AND NOT 0xFFF"
definition PTE_FLAGS :: "u32 \<Rightarrow> u32" where "PTE_FLAGS pte = pte AND 0xFFF"

section \<open>Words in memory\<close>

type_synonym memory = "u32 \<Rightarrow> u8"

definition join4 :: "u8 \<Rightarrow> u8 \<Rightarrow> u8 \<Rightarrow> u8 \<Rightarrow> u32" where
  "join4 a b c d = ucast a OR push_bit 8 (ucast b) OR push_bit 16 (ucast c) OR push_bit 24 (ucast d)"

definition byte_at :: "nat \<Rightarrow> u32 \<Rightarrow> u8" where
  "byte_at k v = ucast (drop_bit (8 * k) v)"

definition load32 :: "memory \<Rightarrow> u32 \<Rightarrow> u32" where
  "load32 m a = join4 (m a) (m (a + 1)) (m (a + 2)) (m (a + 3))"

definition store32 :: "memory \<Rightarrow> u32 \<Rightarrow> u32 \<Rightarrow> memory" where
  "store32 m a v = m(a := byte_at 0 v, a + 1 := byte_at 1 v, a + 2 := byte_at 2 v, a + 3 := byte_at 3 v)"

section \<open>string.c\<close>

primrec stosb :: "nat \<Rightarrow> u32 \<Rightarrow> u8 \<Rightarrow> memory \<Rightarrow> memory" where
  "stosb 0 d c m = m"
| "stosb (Suc n) d c m = stosb n (d + 1) c (m(d := c))"

primrec stosl :: "nat \<Rightarrow> u32 \<Rightarrow> u32 \<Rightarrow> memory \<Rightarrow> memory" where
  "stosl 0 d w m = m"
| "stosl (Suc n) d w m = stosl n (d + 4) w (store32 m d w)"

definition memset :: "u32 \<Rightarrow> u32 \<Rightarrow> u32 \<Rightarrow> memory \<Rightarrow> memory" where
  "memset dst c n m =
     (if dst mod 4 = 0 \<and> n mod 4 = 0
      then let c = c AND 0xFF in
        stosl (unat (n div 4)) dst (push_bit 24 c OR push_bit 16 c OR push_bit 8 c OR c) m
      else stosb (unat n) dst (ucast c) m)"

primrec copy_up :: "nat \<Rightarrow> u32 \<Rightarrow> u32 \<Rightarrow> memory \<Rightarrow> memory" where
  "copy_up 0 d s m = m"
| "copy_up (Suc n) d s m = copy_up n (d + 1) (s + 1) (m(d := m s))"

primrec copy_down :: "nat \<Rightarrow> u32 \<Rightarrow> u32 \<Rightarrow> memory \<Rightarrow> memory" where
  "copy_down 0 d s m = m"
| "copy_down (Suc n) d s m = copy_down n (d - 1) (s - 1) (m(d - 1 := m (s - 1)))"

definition memmove :: "u32 \<Rightarrow> u32 \<Rightarrow> u32 \<Rightarrow> memory \<Rightarrow> memory" where
  "memmove dst src n m =
     (if src < dst \<and> src + n > dst
      then copy_down (unat n) (dst + n) (src + n) m
      else copy_up (unat n) dst src m)"

primrec memcmp :: "nat \<Rightarrow> (nat \<Rightarrow> u8) \<Rightarrow> (nat \<Rightarrow> u8) \<Rightarrow> int" where
  "memcmp 0 s1 s2 = 0"
| "memcmp (Suc n) s1 s2 =
     (if s1 0 \<noteq> s2 0 then uint (s1 0) - uint (s2 0)
      else memcmp n (\<lambda>i. s1 (Suc i)) (\<lambda>i. s2 (Suc i)))"

primrec strncmp :: "nat \<Rightarrow> (nat \<Rightarrow> u8) \<Rightarrow> (nat \<Rightarrow> u8) \<Rightarrow> int" where
  "strncmp 0 p q = 0"
| "strncmp (Suc n) p q =
     (if p 0 \<noteq> 0 \<and> p 0 = q 0 then strncmp n (\<lambda>i. p (Suc i)) (\<lambda>i. q (Suc i))
      else uint (p 0) - uint (q 0))"

text \<open>
  \<^verbatim>\<open>strncpy\<close> and \<^verbatim>\<open>safestrcpy\<close> on a destination of its own: the source is read at offset
  \<open>j\<close>, the destination written at offset \<open>i\<close>, and \<open>n\<close> counts down as the code's \<^verbatim>\<open>n\<close> does.
\<close>

primrec zero_fill :: "nat \<Rightarrow> nat \<Rightarrow> (nat \<Rightarrow> u8) \<Rightarrow> (nat \<Rightarrow> u8)" where
  "zero_fill 0 i d = d"
| "zero_fill (Suc n) i d = zero_fill n (Suc i) (d(i := 0))"

primrec strncpy_from :: "nat \<Rightarrow> nat \<Rightarrow> (nat \<Rightarrow> u8) \<Rightarrow> (nat \<Rightarrow> u8) \<Rightarrow> (nat \<Rightarrow> u8)" where
  "strncpy_from 0 i t d = d"
| "strncpy_from (Suc n) i t d =
     (if t i \<noteq> 0 then strncpy_from n (Suc i) t (d(i := t i))
      else zero_fill n (Suc i) (d(i := t i)))"

definition strncpy :: "(nat \<Rightarrow> u8) \<Rightarrow> (nat \<Rightarrow> u8) \<Rightarrow> nat \<Rightarrow> (nat \<Rightarrow> u8)" where
  "strncpy d t n = strncpy_from n 0 t d"

primrec safestrcpy_from :: "nat \<Rightarrow> nat \<Rightarrow> (nat \<Rightarrow> u8) \<Rightarrow> (nat \<Rightarrow> u8) \<Rightarrow> (nat \<Rightarrow> u8)" where
  "safestrcpy_from 0 i t d = d(i := 0)"
| "safestrcpy_from (Suc n) i t d =
     (if t i \<noteq> 0 then safestrcpy_from n (Suc i) t (d(i := t i))
      else d(i := t i, Suc i := 0))"

definition safestrcpy :: "(nat \<Rightarrow> u8) \<Rightarrow> (nat \<Rightarrow> u8) \<Rightarrow> int \<Rightarrow> (nat \<Rightarrow> u8)" where
  "safestrcpy d t n = (if n \<le> 0 then d else safestrcpy_from (nat (n - 1)) 0 t d)"

partial_function (option) strlen_from :: "(nat \<Rightarrow> u8) \<Rightarrow> nat \<Rightarrow> nat option" where
  "strlen_from s n = (if s n \<noteq> 0 then strlen_from s (Suc n) else Some n)"

definition strlen :: "(nat \<Rightarrow> u8) \<Rightarrow> nat option" where
  "strlen s = strlen_from s 0"

section \<open>Facts\<close>

lemma unat_less_4G: "unat (x :: u32) < 2 ^ 32"
  using unsigned_less [of x] by simp

lemma PGMASK: "PGSIZE - 1 = mask 12"
  by (simp add: PGSIZE_def mask_eq_exp_minus_1)

lemma mod_PGSIZE: "(a :: u32) mod PGSIZE = take_bit 12 a"
  by (simp add: PGSIZE_def take_bit_eq_mod)

lemma PGROUNDDOWN_aligned [simp]: "PGROUNDDOWN a mod PGSIZE = 0"
  unfolding PGROUNDDOWN_def PGMASK mod_PGSIZE by (auto intro!: bit_word_eqI simp: bit_simps)

lemma PGROUNDUP_DOWN: "PGROUNDUP a = PGROUNDDOWN (a + PGSIZE - 1)"
  by (simp add: PGROUNDUP_def PGROUNDDOWN_def)

lemma PGROUNDUP_aligned [simp]: "PGROUNDUP a mod PGSIZE = 0"
  by (simp add: PGROUNDUP_DOWN)

lemma unat_PGROUNDDOWN: "unat (PGROUNDDOWN a) = unat a div 4096 * 4096"
proof -
  have "PGROUNDDOWN a = push_bit 12 (drop_bit 12 a)"
    unfolding PGROUNDDOWN_def PGMASK by (auto intro!: bit_word_eqI simp: bit_simps)
  then have "PGROUNDDOWN a = (a div 4096) * 4096"
    by (simp add: push_bit_eq_mult drop_bit_eq_div)
  moreover have "unat (a div 4096) = unat a div 4096" by (simp add: unat_div)
  moreover have "unat a div 4096 * 4096 < 2 ^ 32" using unat_less_4G [of a] by simp
  ultimately show ?thesis by (simp add: unat_word_ariths)
qed

lemma aligned_iff: "(a :: u32) mod PGSIZE = 0 \<longleftrightarrow> unat a mod 4096 = 0"
proof -
  have "unat (a mod PGSIZE) = unat a mod 4096" by (simp add: PGSIZE_def unat_mod)
  then show ?thesis using unat_eq_0 [of "a mod PGSIZE"] by argo
qed

lemma join4_bytes: "join4 (byte_at 0 v) (byte_at 1 v) (byte_at 2 v) (byte_at 3 v) = v"
proof (rule bit_word_eqI)
  fix n
  assume "n < LENGTH(32)"
  then consider "n < 8" | "8 \<le> n \<and> n < 16" | "16 \<le> n \<and> n < 24" | "24 \<le> n \<and> n < 32" by fastforce
  then show "bit (join4 (byte_at 0 v) (byte_at 1 v) (byte_at 2 v) (byte_at 3 v)) n = bit v n"
    by cases (auto simp: join4_def byte_at_def bit_simps)
qed

lemma load_store32 [simp]: "load32 (store32 m a v) a = v"
  by (simp add: load32_def store32_def join4_bytes [simplified])

text \<open>Offsets from a base address: the \<open>n\<close> bytes at \<open>d\<close> are the addresses \<open>a\<close> with
  \<open>unat (a - d) < n\<close>, also when the range wraps around.\<close>

lemma unat_offset_Suc:
  fixes a d :: u32
  assumes "a \<noteq> d"
  shows "unat (a - (d + 1)) = unat (a - d) - 1"
proof -
  have "a - (d + 1) = (a - d) - 1" by simp
  moreover have "a - d \<noteq> 0" using assms by simp
  ultimately show ?thesis using unat_minus_one by metis
qed

lemma offset_less_Suc:
  fixes a d :: u32
  assumes "a \<noteq> d"
  shows "unat (a - d) < Suc n \<longleftrightarrow> unat (a - (d + 1)) < n"
proof -
  have "unat (a - d) \<noteq> 0" using assms by (simp add: unat_eq_0)
  then show ?thesis using unat_offset_Suc [OF assms] by auto
qed

lemma stosb_apply: "n < 2 ^ 32 \<Longrightarrow> stosb n d c m a = (if unat (a - d) < n then c else m a)"
proof (induction n arbitrary: d m)
  case 0
  then show ?case by simp
next
  case (Suc n)
  then have "stosb (Suc n) d c m a = (if unat (a - (d + 1)) < n then c else (m(d := c)) a)"
    by simp
  also have "\<dots> = (if unat (a - d) < Suc n then c else m a)"
    using offset_less_Suc [of a d n] by (cases "a = d") auto
  finally show ?case .
qed

lemma store32_apply:
  "store32 m d w a = (if unat (a - d) < 4 then byte_at (unat (a - d)) w else m a)"
proof (cases "unat (a - d) < 4")
  case True
  then have "unat (a - d) \<in> {0, 1, 2, 3}" by auto
  moreover have "a - d = of_nat (unat (a - d))" by simp
  ultimately consider "a - d = 0" | "a - d = 1" | "a - d = 2" | "a - d = 3"
    by fastforce
  then show ?thesis
  proof cases
    case 1
    then have "a = d" by simp
    then show ?thesis by (simp add: store32_def)
  next
    case 2
    then have "a = d + 1" by (simp add: diff_eq_eq add.commute)
    then show ?thesis by (simp add: store32_def)
  next
    case 3
    then have "a = d + 2" by (simp add: diff_eq_eq add.commute)
    then show ?thesis by (simp add: store32_def)
  next
    case 4
    then have "a = d + 3" by (simp add: diff_eq_eq add.commute)
    then show ?thesis by (simp add: store32_def)
  qed
next
  case False
  then have "a \<noteq> d" "a \<noteq> d + 1" "a \<noteq> d + 2" "a \<noteq> d + 3" by auto
  with False show ?thesis by (simp add: store32_def)
qed

lemma unat_offset_add:
  fixes a d k :: u32
  assumes "unat k \<le> unat (a - d)"
  shows "unat (a - (d + k)) = unat (a - d) - unat k"
proof -
  have "k \<le> a - d" using assms by (simp add: word_le_nat_alt)
  then show ?thesis using unat_sub [of k "a - d"] by (simp add: diff_diff_add)
qed

lemma unat_diff_wrap:
  fixes x k :: u32
  assumes "unat x < unat k"
  shows "unat (x - k) = 2 ^ 32 + unat x - unat k"
  using assms by (simp add: unat_sub_if')

lemma unat_offset_below:
  fixes a d k :: u32
  assumes "unat (a - d) < unat k"
  shows "unat (a - (d + k)) = 2 ^ 32 + unat (a - d) - unat k"
  using unat_diff_wrap [OF assms] by (simp only: diff_diff_add)

lemma bit_255: "bit (0xFF :: u32) n \<longleftrightarrow> n < 8"
proof -
  have "(0xFF :: u32) = mask 8" by (simp add: mask_eq_exp_minus_1)
  then have "bit (0xFF :: u32) n = bit (mask 8 :: u32) n" by (rule arg_cong)
  then show ?thesis by (auto simp: bit_mask_iff)
qed

lemma stosl_apply:
  "4 * n < 2 ^ 32 \<Longrightarrow> (\<And>k. k < 4 \<Longrightarrow> byte_at k w = c) \<Longrightarrow>
   stosl n d w m a = (if unat (a - d) < 4 * n then c else m a)"
proof (induction n arbitrary: d m)
  case 0
  then show ?case by simp
next
  case (Suc n)
  have IH: "stosl (Suc n) d w m a = (if unat (a - (d + 4)) < 4 * n then c else store32 m d w a)"
    using Suc by simp
  show ?case
  proof (cases "unat (a - d) < 4")
    case True
    then have "unat (a - (d + 4)) = 2 ^ 32 + unat (a - d) - 4"
      using unat_offset_below [of a d 4] by simp
    with Suc.prems(1) have "\<not> unat (a - (d + 4)) < 4 * n" by simp
    with IH True Suc.prems(2) show ?thesis by (simp add: store32_apply)
  next
    case False
    then have "unat (a - (d + 4)) = unat (a - d) - 4"
      using unat_offset_add [of 4 a d] by simp
    with IH False show ?thesis by (auto simp: store32_apply)
  qed
qed

lemma byte_at_splat_bits:
  assumes "k < 4" "\<And>n. 8 \<le> n \<Longrightarrow> \<not> bit b n"
  shows "byte_at k (push_bit 24 b OR push_bit 16 b OR push_bit 8 b OR b) = ucast b"
proof -
  from assms(1) consider "k = 0" | "k = 1" | "k = 2" | "k = 3" by linarith
  then show ?thesis
    using assms(2) by cases (auto intro!: bit_word_eqI simp: byte_at_def bit_simps)
qed

lemma ucast_and_255: "ucast ((c :: u32) AND 0xFF) = (ucast c :: u8)"
proof (rule bit_word_eqI)
  fix n
  assume "n < LENGTH(8)"
  then show "bit (ucast (c AND 0xFF) :: u8) n = bit (ucast c :: u8) n"
    by (simp only: bit_simps bit_255) simp
qed

lemma byte_at_splat:
  "k < 4 \<Longrightarrow> byte_at k (push_bit 24 (c AND 0xFF) OR push_bit 16 (c AND 0xFF) OR push_bit 8 (c AND 0xFF)
     OR (c AND 0xFF)) = ucast (c :: u32)"
  using byte_at_splat_bits [of k "c AND 0xFF"]
  by (simp only: bit_and_iff bit_255 not_less ucast_and_255) simp

text \<open>\<^verbatim>\<open>memset\<close> fills exactly the \<open>n\<close> bytes at \<open>dst\<close>, by words or by bytes.\<close>

lemma memset_apply: "memset dst c n m a = (if unat (a - dst) < unat n then ucast c else m a)"
proof (cases "dst mod 4 = 0 \<and> n mod 4 = 0")
  case True
  have "unat (n mod 4) = 0" using True by simp
  then have n: "4 * unat (n div 4) = unat n"
    by (simp add: unat_mod unat_div) presburger
  moreover have "unat n < 2 ^ 32" by (rule unat_less_4G)
  ultimately show ?thesis
    using True stosl_apply [of "unat (n div 4)" _ "ucast c" dst m a, OF _ byte_at_splat]
    by (simp add: memset_def)
next
  case False
  have "unat n < 2 ^ 32" by (rule unat_less_4G)
  then show ?thesis by (simp only: memset_def False if_False stosb_apply)
qed

lemma copy_up_apply:
  assumes "n < 2 ^ 32"
    and "\<And>i j. j < i \<Longrightarrow> i < n \<Longrightarrow> d + of_nat j \<noteq> s + of_nat i"
  shows "copy_up n d s m a = (if unat (a - d) < n then m (s + (a - d)) else m a)"
  using assms
proof (induction n arbitrary: d s m)
  case 0
  then show ?case by simp
next
  case (Suc n)
  let ?m = "m(d := m s)"
  have IH: "copy_up n (d + 1) (s + 1) ?m a =
      (if unat (a - (d + 1)) < n then ?m (s + 1 + (a - (d + 1))) else ?m a)"
  proof (rule Suc.IH)
    show "n < 2 ^ 32" using Suc.prems(1) by simp
    fix i j assume "j < i" "i < n"
    with Suc.prems(2) [of "Suc j" "Suc i"] show "d + 1 + of_nat j \<noteq> s + 1 + of_nat i"
      by (simp add: algebra_simps)
  qed
  have e: "s + 1 + (a - (d + 1)) = s + (a - d)" by simp
  show ?case
  proof (cases "a = d")
    case True
    then have "unat (a - (d + 1)) = 2 ^ 32 - 1" by (simp add: unsigned_minus_1_eq_mask mask_eq_exp_minus_1)
    with Suc.prems(1) True IH show ?thesis by simp
  next
    case False
    have "s + (a - d) \<noteq> d" if "unat (a - d) < Suc n"
      using Suc.prems(2) [of 0 "unat (a - d)"] that False by (auto simp: unat_gt_0)
    with False IH offset_less_Suc [OF False, of n] show ?thesis by (simp add: e)
  qed
qed

lemma copy_down_apply:
  assumes "n < 2 ^ 32"
    and "\<And>i j. j < i \<Longrightarrow> i < n \<Longrightarrow> d - 1 - of_nat j \<noteq> s - 1 - of_nat i"
  shows "copy_down n d s m a = (if unat (d - 1 - a) < n then m (s - (d - a)) else m a)"
  using assms
proof (induction n arbitrary: d s m)
  case 0
  then show ?case by simp
next
  case (Suc n)
  let ?m = "m(d - 1 := m (s - 1))"
  have IH: "copy_down n (d - 1) (s - 1) ?m a =
      (if unat (d - 1 - 1 - a) < n then ?m (s - 1 - (d - 1 - a)) else ?m a)"
  proof (rule Suc.IH)
    show "n < 2 ^ 32" using Suc.prems(1) by simp
    fix i j assume "j < i" "i < n"
    with Suc.prems(2) [of "Suc j" "Suc i"] show "d - 1 - 1 - of_nat j \<noteq> s - 1 - 1 - of_nat i"
      by (simp add: algebra_simps)
  qed
  have e: "s - 1 - (d - 1 - a) = s - (d - a)" by simp
  show ?case
  proof (cases "a = d - 1")
    case True
    then have "unat (d - 1 - 1 - a) = 2 ^ 32 - 1" by (simp add: unsigned_minus_1_eq_mask mask_eq_exp_minus_1)
    with Suc.prems(1) True IH show ?thesis by simp
  next
    case False
    then have ne: "d - 1 - a \<noteq> 0" by auto
    then have u: "unat (d - 1 - 1 - a) = unat (d - 1 - a) - 1"
      using unat_minus_one [OF ne] by (simp add: algebra_simps)
    have pos: "0 < unat (d - 1 - a)" using ne by (simp add: unat_gt_0)
    have "s - (d - a) \<noteq> d - 1" if "unat (d - 1 - a) < Suc n"
    proof -
      have "d - 1 - of_nat 0 \<noteq> s - 1 - of_nat (unat (d - 1 - a))"
        by (rule Suc.prems(2)) (use that pos in simp_all)
      then show ?thesis by (simp add: algebra_simps)
    qed
    with False IH u pos show ?thesis by (auto simp: e)
  qed
qed

text \<open>\<^verbatim>\<open>memmove\<close> copies the bytes the source region held before the call, also when the regions
  overlap; the regions must not wrap around the address space.\<close>

lemma memmove_apply:
  assumes "unat src + unat n < 2 ^ 32" "unat dst + unat n < 2 ^ 32"
  shows "memmove dst src n m a = (if unat (a - dst) < unat n then m (src + (a - dst)) else m a)"
proof (cases "src < dst \<and> src + n > dst")
  case True
  have sn: "unat (src + n) = unat src + unat n" "unat (dst + n) = unat dst + unat n"
    using assms by (simp_all add: unat_plus_small)
  have "copy_down (unat n) (dst + n) (src + n) m a =
     (if unat (dst + n - 1 - a) < unat n then m (src + n - (dst + n - a)) else m a)"
  proof (rule copy_down_apply)
    show "unat n < 2 ^ 32" by (rule unat_less_4G)
    fix i j :: nat
    assume ij: "j < i" "i < unat n"
    show "dst + n - 1 - of_nat j \<noteq> src + n - 1 - of_nat i"
    proof
      assume "dst + n - 1 - of_nat j = src + n - 1 - of_nat i"
      then have "dst + of_nat i = src + of_nat j" by (simp add: algebra_simps)
      then have "unat (dst + of_nat i :: u32) = unat (src + of_nat j :: u32)" by simp
      moreover have "unat (of_nat i :: u32) = i" "unat (of_nat j :: u32) = j"
        using ij unat_less_4G [of n] by (simp_all add: unat_of_nat)
      ultimately have "unat dst + i = unat src + j"
        using ij assms by (simp add: unat_plus_small)
      moreover have "unat src < unat dst" using True by (simp add: word_less_nat_alt)
      ultimately show False using ij by simp
    qed
  qed
  moreover have "unat (dst + n - 1 - a) < unat n \<longleftrightarrow> unat (a - dst) < unat n"
  proof -
    have "dst + n - 1 - a = n - 1 - (a - dst)" by simp
    moreover have "unat (n - 1 - x) < unat n \<longleftrightarrow> unat x < unat n" for x :: u32
      by unat_arith
    ultimately show ?thesis by metis
  qed
  ultimately show ?thesis using True by (simp add: memmove_def algebra_simps)
next
  case False
  have "copy_up (unat n) dst src m a =
     (if unat (a - dst) < unat n then m (src + (a - dst)) else m a)"
  proof (rule copy_up_apply)
    show "unat n < 2 ^ 32" by (rule unat_less_4G)
    fix i j :: nat
    assume ij: "j < i" "i < unat n"
    have u: "unat (of_nat i :: u32) = i" "unat (of_nat j :: u32) = j"
      using ij unat_less_4G [of n] by (simp_all add: unat_of_nat)
    show "dst + of_nat j \<noteq> src + of_nat i"
    proof
      assume "dst + of_nat j = src + of_nat i"
      then have "unat (dst + of_nat j :: u32) = unat (src + of_nat i :: u32)" by simp
      then have "unat dst + j = unat src + i"
        using ij assms u by (simp add: unat_plus_small)
      moreover have "unat dst \<le> unat src \<or> unat src + unat n \<le> unat dst"
        using False assms by (auto simp: word_less_nat_alt unat_plus_small not_less)
      ultimately show False using ij by auto
    qed
  qed
  then show ?thesis by (simp only: memmove_def False if_False)
qed

lemma zero_fill_apply: "zero_fill n i d k = (if i \<le> k \<and> k < i + n then 0 else d k)"
  by (induction n arbitrary: i d) auto

lemma strncpy_from_apply:
  "strncpy_from n i t d k = (if i \<le> k \<and> k < i + n
     then (if \<exists>j. i \<le> j \<and> j < k \<and> t j = 0 then 0 else t k) else d k)"
proof (induction n arbitrary: i d)
  case 0
  then show ?case by auto
next
  case (Suc n)
  show ?case
  proof (cases "t i = 0")
    case True
    then have "(\<exists>j. i \<le> j \<and> j < k \<and> t j = 0) \<longleftrightarrow> i < k" by (auto intro: exI [of _ i])
    with True show ?thesis by (auto simp: zero_fill_apply)
  next
    case False
    have "(\<exists>j. i \<le> j \<and> j < k \<and> t j = 0) \<longleftrightarrow> (\<exists>j. Suc i \<le> j \<and> j < k \<and> t j = 0)"
      using False by (metis Suc_leI le_neq_implies_less less_imp_le Suc_le_lessD)
    with False Suc.IH show ?thesis by (auto simp: le_less_Suc_eq)
  qed
qed

lemma strncpy_apply:
  "strncpy d t n k = (if k < n then (if \<exists>j<k. t j = 0 then 0 else t k) else d k)"
  by (simp add: strncpy_def strncpy_from_apply)

lemma strncmp_eq_0: "strncmp n p q = 0 \<longleftrightarrow> (\<forall>i<n. (\<forall>j<i. p j \<noteq> 0) \<longrightarrow> p i = q i)"
proof (induction n arbitrary: p q)
  case 0
  then show ?case by simp
next
  case (Suc n)
  show ?case
  proof (cases "p 0 \<noteq> 0 \<and> p 0 = q 0")
    case True
    then show ?thesis using Suc.IH [of "\<lambda>i. p (Suc i)" "\<lambda>i. q (Suc i)"]
      by (auto simp: All_less_Suc2)
  next
    case False
    then show ?thesis by (auto simp: All_less_Suc2 word_uint_eq_iff)
  qed
qed

lemma safestrcpy_from_spec:
  "\<exists>k \<le> n. safestrcpy_from n i t d (i + k) = 0
     \<and> (\<forall>j<k. safestrcpy_from n i t d (i + j) = t (i + j) \<and> t (i + j) \<noteq> 0)
     \<and> (k < n \<longrightarrow> t (i + k) = 0)
     \<and> (\<forall>j. j < i \<or> i + n < j \<longrightarrow> safestrcpy_from n i t d j = d j)"
proof (induction n arbitrary: i d)
  case 0
  then show ?case by auto
next
  case (Suc n)
  show ?case
  proof (cases "t i = 0")
    case True
    then show ?thesis by (intro exI [of _ 0]) auto
  next
    case False
    obtain k where k: "k \<le> n" "safestrcpy_from n (Suc i) t (d(i := t i)) (Suc i + k) = 0"
      "\<forall>j<k. safestrcpy_from n (Suc i) t (d(i := t i)) (Suc i + j) = t (Suc i + j) \<and> t (Suc i + j) \<noteq> 0"
      "k < n \<longrightarrow> t (Suc i + k) = 0"
      "\<forall>j. j < Suc i \<or> Suc i + n < j \<longrightarrow> safestrcpy_from n (Suc i) t (d(i := t i)) j = (d(i := t i)) j"
      using Suc.IH [of "Suc i" "d(i := t i)"] by blast
    show ?thesis
    proof (intro exI [of _ "Suc k"] conjI allI impI)
      fix j assume "j < Suc k"
      then show "safestrcpy_from (Suc n) i t d (i + j) = t (i + j)" "t (i + j) \<noteq> 0"
        using k(3,5) False by (cases j; force)+
    next
      fix j assume "j < i \<or> i + Suc n < j"
      then show "safestrcpy_from (Suc n) i t d j = d j" using k(5) False by auto
    qed (use k False in auto)
  qed
qed

section \<open>Properties\<close>

text \<open>C21. \<^verbatim>\<open>memmove\<close> copies correctly between overlapping regions: when neither region wraps around
  the address space, every byte of the destination holds what the corresponding source byte held
  before the call, and no other byte of memory changes.\<close>

theorem memmove_correct:
  assumes "unat src + unat n < 2 ^ 32" "unat dst + unat n < 2 ^ 32"
  shows "memmove dst src n m = (\<lambda>a. if unat (a - dst) < unat n then m (src + (a - dst)) else m a)"
  using memmove_apply [OF assms] by (simp add: fun_eq_iff)

theorem memmove_correct_witness:
  "memmove 1002 1000 5 (\<lambda>a. ucast a) 1004 = (ucast (1002 :: u32) :: u8)"
  using memmove_correct [of 1000 5 1002 "\<lambda>a. ucast a"] by simp

text \<open>C22. Names survive the trip through a directory entry: comparing a name with the copy that
  \<^verbatim>\<open>strncpy\<close> stored yields equality, and any other name compares equal to the stored copy exactly
  when it compares equal to the name itself, for every field width and every old field content.\<close>

theorem strncpy_name_roundtrip:
  "strncmp n t (strncpy d t n) = 0
   \<and> (strncmp n u (strncpy d t n) = 0 \<longleftrightarrow> strncmp n u t = 0)"
proof
  show "strncmp n t (strncpy d t n) = 0"
    by (auto simp: strncmp_eq_0 strncpy_apply)
  have "(\<forall>i<n. (\<forall>j<i. u j \<noteq> 0) \<longrightarrow> u i = strncpy d t n i) \<longleftrightarrow> (\<forall>i<n. (\<forall>j<i. u j \<noteq> 0) \<longrightarrow> u i = t i)"
    (is "?L \<longleftrightarrow> ?R")
  proof
    assume L: ?L
    show ?R
    proof (intro allI impI)
      fix i
      assume i: "i < n" "\<forall>j<i. u j \<noteq> 0"
      show "u i = t i"
        using i
      proof (induction i rule: less_induct)
        case (less i)
        have "t j \<noteq> 0" if "j < i" for j
          using less.IH [OF that] less.prems that by auto
        then show ?case using L less.prems by (auto simp: strncpy_apply)
      qed
    qed
  next
    assume R: ?R
    show ?L
    proof (intro allI impI)
      fix i
      assume i: "i < n" "\<forall>j<i. u j \<noteq> 0"
      have "t j \<noteq> 0" if "j < i" for j
        using R i that by (metis less_trans)
      then show "u i = strncpy d t n i" using R i by (auto simp: strncpy_apply)
    qed
  qed
  then show "strncmp n u (strncpy d t n) = 0 \<longleftrightarrow> strncmp n u t = 0"
    by (simp add: strncmp_eq_0)
qed

text \<open>C23. \<^verbatim>\<open>safestrcpy\<close> always terminates its destination inside the field: for a field of \<open>n > 0\<close>
  bytes there is a position below \<open>n\<close> with a NUL, before it stands the source text, the text is cut
  only when it does not fit, and no byte beyond the field is touched.\<close>

theorem safestrcpy_terminates:
  assumes "0 < n"
  shows "\<exists>k. int k < n \<and> safestrcpy d t n k = 0
    \<and> (\<forall>j<k. safestrcpy d t n j = t j \<and> t j \<noteq> 0)
    \<and> (int k < n - 1 \<longrightarrow> t k = 0)
    \<and> (\<forall>j. n \<le> int j \<longrightarrow> safestrcpy d t n j = d j)"
proof -
  obtain k where k: "k \<le> nat (n - 1)" "safestrcpy_from (nat (n - 1)) 0 t d k = 0"
    "\<forall>j<k. safestrcpy_from (nat (n - 1)) 0 t d j = t j \<and> t j \<noteq> 0"
    "k < nat (n - 1) \<longrightarrow> t k = 0"
    "\<forall>j. nat (n - 1) < j \<longrightarrow> safestrcpy_from (nat (n - 1)) 0 t d j = d j"
    using safestrcpy_from_spec [of "nat (n - 1)" 0 t d] by auto
  have "\<forall>j. n \<le> int j \<longrightarrow> nat (n - 1) < j" using assms by auto
  then show ?thesis
    using k assms by (intro exI [of _ k]) (auto simp: safestrcpy_def)
qed

theorem safestrcpy_terminates_witness:
  "\<exists>k. int k < 3 \<and> safestrcpy (\<lambda>_. 9) (\<lambda>_. 7) 3 k = 0"
  using safestrcpy_terminates [of 3 "\<lambda>_. 9" "\<lambda>_. 7"] by auto

end
