(* ===== verification/Kalloc.thy ===== *)
theory Kalloc
  imports Spinlock Memory
begin

text \<open>
  The physical page allocator, \<^verbatim>\<open>kalloc.c\<close>. A free page holds in its first word the address of the
  next free page; \<open>kmem_freelist\<close> is the head and 0 the end of the list. \<open>k_end\<close> is the address
  the linker gives the symbol \<^verbatim>\<open>end\<close>, \<open>k_data\<close> that of \<^verbatim>\<open>data\<close>. The contract of the allocator is the locale
  \<open>page_allocator\<close>; the theory interprets it on \<open>kalloc\<close> and \<open>kfree\<close> and shows that no page is
  ever handed out twice.
\<close>

section \<open>State and operations\<close>

record kmem_state = kbase +
  mem :: memory
  kmem_use_lock :: bool
  kmem_freelist :: u32
  k_end :: u32
  k_data :: u32

definition kmem_lock :: "'x kmem_state_scheme \<Rightarrow> ('x kmem_state_scheme, unit) outcome" where
  "kmem_lock s = (if kmem_use_lock s then kacquire KmemLock s else Ret () s)"

definition kmem_unlock :: "'x kmem_state_scheme \<Rightarrow> ('x kmem_state_scheme, unit) outcome" where
  "kmem_unlock s = (if kmem_use_lock s then krelease KmemLock s else Ret () s)"

definition kfree :: "u32 \<Rightarrow> 'x kmem_state_scheme \<Rightarrow> ('x kmem_state_scheme, unit) outcome" where
  "kfree v s =
     (if v mod PGSIZE \<noteq> 0 \<or> v < k_end s \<or> V2P v \<ge> PHYSTOP then Panic ''kfree''
      else let s = s\<lparr>mem := memset v 1 PGSIZE (mem s)\<rparr> in
        andthen (kmem_lock s) (\<lambda>_ s.
          let s = s\<lparr>mem := store32 (mem s) v (kmem_freelist s)\<rparr>;
              s = s\<lparr>kmem_freelist := v\<rparr> in
          kmem_unlock s))"

definition kalloc :: "'x kmem_state_scheme \<Rightarrow> ('x kmem_state_scheme, u32) outcome" where
  "kalloc s =
     andthen (kmem_lock s) (\<lambda>_ s.
       let r = kmem_freelist s;
           s = (if r \<noteq> 0 then s\<lparr>kmem_freelist := load32 (mem s) r\<rparr> else s) in
       andthen (kmem_unlock s) (\<lambda>_ s. Ret r s))"

lemma kfree_Ret_range: "kfree p s = Ret u s' \<Longrightarrow> V2P p < PHYSTOP"
  by (auto simp: kfree_def split: if_splits)

lemma V2P_below: "V2P p < PHYSTOP \<Longrightarrow> unat p < 2 ^ 32 - 4096"
  unfolding V2P_def PHYSTOP_def KERNBASE_def by unat_arith

function freerange_from ::
  "u32 \<Rightarrow> u32 \<Rightarrow> 'x kmem_state_scheme \<Rightarrow> ('x kmem_state_scheme, unit) outcome" where
  "freerange_from p vend s =
     (if p + PGSIZE \<le> vend
      then andthen (kfree p s) (\<lambda>_ s. freerange_from (p + PGSIZE) vend s)
      else Ret () s)"
  by pat_completeness auto
termination
proof (relation "measure (\<lambda>(p, _, _). 2 ^ 32 - unat p)")
  fix p vend :: u32 and s s' :: "'x kmem_state_scheme" and u
  assume "kfree p s = Ret u s'"
  then have "unat p < 2 ^ 32 - 4096" by (intro V2P_below kfree_Ret_range)
  then have "unat (p + PGSIZE) = unat p + 4096"
    by (simp add: PGSIZE_def unat_plus_small)
  with \<open>unat p < 2 ^ 32 - 4096\<close>
  show "((p + PGSIZE, vend, s'), (p, vend, s)) \<in> measure (\<lambda>(p, _, _). 2 ^ 32 - unat p)"
    by simp
qed simp

declare freerange_from.simps [simp del]

definition freerange :: "u32 \<Rightarrow> u32 \<Rightarrow> 'x kmem_state_scheme \<Rightarrow> ('x kmem_state_scheme, unit) outcome" where
  "freerange vstart vend s = freerange_from (PGROUNDUP vstart) vend s"

definition kinit1 :: "u32 \<Rightarrow> u32 \<Rightarrow> 'x kmem_state_scheme \<Rightarrow> ('x kmem_state_scheme, unit) outcome" where
  "kinit1 vstart vend s =
     (let s = s\<lparr>mach := initlock KmemLock (mach s)\<rparr>; s = s\<lparr>kmem_use_lock := False\<rparr> in
      freerange vstart vend s)"

definition kinit2 :: "u32 \<Rightarrow> u32 \<Rightarrow> 'x kmem_state_scheme \<Rightarrow> ('x kmem_state_scheme, unit) outcome" where
  "kinit2 vstart vend s =
     andthen (freerange vstart vend s) (\<lambda>_ s. Ret () (s\<lparr>kmem_use_lock := True\<rparr>))"

section \<open>The free list\<close>

definition good_page :: "u32 \<Rightarrow> u32 \<Rightarrow> bool" where
  "good_page e v \<longleftrightarrow> v mod PGSIZE = 0 \<and> e \<le> v \<and> V2P v < PHYSTOP"

definition in_page :: "u32 \<Rightarrow> u32 \<Rightarrow> bool" where
  "in_page v a \<longleftrightarrow> unat (a - v) < 4096"

primrec page_list :: "memory \<Rightarrow> u32 \<Rightarrow> u32 list \<Rightarrow> bool" where
  "page_list m p [] = (p = 0)"
| "page_list m p (x # xs) = (p = x \<and> x \<noteq> 0 \<and> page_list m (load32 m x) xs)"

definition kmem_inv :: "'x kmem_state_scheme \<Rightarrow> u32 list \<Rightarrow> bool" where
  "kmem_inv s pages \<longleftrightarrow> page_list (mem s) (kmem_freelist s) pages \<and> distinct pages
     \<and> (\<forall>v \<in> set pages. good_page (k_end s) v)
     \<and> (kmem_use_lock s \<longrightarrow> lockable KmemLock (mach s))"

lemma good_page_nonzero: "good_page e v \<Longrightarrow> v \<noteq> 0"
  by (auto simp: good_page_def V2P_def KERNBASE_def PHYSTOP_def)

lemma in_page_base:
  assumes "v mod PGSIZE = 0" "in_page v a"
  shows "unat v = unat a div 4096 * 4096"
proof -
  have "unat v mod 4096 = 0"
    using arg_cong [OF assms(1), of unat] by (simp add: PGSIZE_def unat_mod)
  then obtain k where k: "unat v = 4096 * k" by auto
  then have "k < 2 ^ 20" using unat_less_4G [of v] by simp
  then have "unat v + unat (a - v) < 2 ^ 32"
    using assms(2) k by (simp add: in_page_def)
  then have "unat (v + (a - v)) = unat v + unat (a - v)" by (rule unat_plus_small)
  then have "unat a = 4096 * k + unat (a - v)" using k by simp
  then show ?thesis using assms(2) k by (simp add: in_page_def)
qed

lemma in_page_unique:
  "v mod PGSIZE = 0 \<Longrightarrow> w mod PGSIZE = 0 \<Longrightarrow> in_page v a \<Longrightarrow> in_page w a \<Longrightarrow> v = w"
  by (metis in_page_base word_unat_eq_iff)

lemma good_page_unique:
  "good_page e v \<Longrightarrow> good_page e w \<Longrightarrow> in_page v a \<Longrightarrow> in_page w a \<Longrightarrow> v = w"
  unfolding good_page_def by (elim conjE) (rule in_page_unique)

lemma page_list_frame:
  "(\<And>v a. v \<in> set xs \<Longrightarrow> in_page v a \<Longrightarrow> m' a = m a) \<Longrightarrow> page_list m' p xs = page_list m p xs"
proof (induction xs arbitrary: p)
  case Nil
  then show ?case by simp
next
  case (Cons x xs)
  have "m' (x + k) = m (x + k)" if "unat k < 4" for k
    by (rule Cons.prems [of x]) (use that in \<open>simp_all add: in_page_def\<close>)
  from this [of 0] this [of 1] this [of 2] this [of 3]
  have "load32 m' x = load32 m x" by (simp add: load32_def)
  moreover have "page_list m' q xs = page_list m q xs" for q
    by (rule Cons.IH) (rule Cons.prems, simp_all)
  ultimately show ?case by simp
qed

definition kmem_after :: "'x kmem_state_scheme \<Rightarrow> 'x kmem_state_scheme" where
  "kmem_after s = (if kmem_use_lock s then s\<lparr>mach := settle (mach s)\<rparr> else s)"

lemma kmem_after_simps [simp]:
  "mem (kmem_after s) = mem s" "kmem_freelist (kmem_after s) = kmem_freelist s"
  "k_end (kmem_after s) = k_end s" "kmem_use_lock (kmem_after s) = kmem_use_lock s"
  by (simp_all add: kmem_after_def)

lemma lockable_kmem_after: "lockable lk (mach s) \<Longrightarrow> lockable lk (mach (kmem_after s))"
  by (simp add: kmem_after_def)

lemma kalloc_eq:
  assumes "kmem_inv s pages"
  shows "kalloc s = (case pages of [] \<Rightarrow> Ret 0 (kmem_after s)
     | x # xs \<Rightarrow> Ret x ((kmem_after s)\<lparr>kmem_freelist := load32 (mem s) x\<rparr>))"
proof -
  let ?s = "s\<lparr>mach := taken KmemLock (mach s)\<rparr>"
  have r: "lockable KmemLock (mach s) \<Longrightarrow> krelease KmemLock (?s\<lparr>kmem_freelist := f\<rparr>)
      = Ret () (s\<lparr>kmem_freelist := f, mach := settle (mach s)\<rparr>)" for f
    by (subst krelease_taken [of _ _ "mach s"]) simp_all
  have r0: "lockable KmemLock (mach s) \<Longrightarrow> krelease KmemLock ?s = Ret () (s\<lparr>mach := settle (mach s)\<rparr>)"
    by (subst krelease_taken [of _ _ "mach s"]) simp_all
  show ?thesis
    using assms r r0
    by (cases pages) (auto simp: kalloc_def kmem_inv_def kmem_lock_def kmem_unlock_def kmem_after_def Let_def)
qed

lemma kfree_eq:
  assumes "kmem_inv s pages" "good_page (k_end s) v"
  shows "kfree v s = Ret () ((kmem_after s)\<lparr>mem := store32 (memset v 1 PGSIZE (mem s)) v (kmem_freelist s),
     kmem_freelist := v\<rparr>)"
proof -
  have r: "lockable KmemLock (mach s) \<Longrightarrow>
      krelease KmemLock (s\<lparr>mach := taken KmemLock (mach s), mem := m, kmem_freelist := f\<rparr>)
      = Ret () (s\<lparr>mem := m, kmem_freelist := f, mach := settle (mach s)\<rparr>)" for m f
    by (subst krelease_taken [of _ _ "mach s"]) simp_all
  show ?thesis
    using assms r by (auto simp: kfree_def good_page_def kmem_inv_def kmem_lock_def kmem_unlock_def
        kmem_after_def Let_def not_less not_le)
qed

lemma kalloc_inv:
  assumes "kmem_inv s (x # xs)"
  shows "kalloc s = Ret x ((kmem_after s)\<lparr>kmem_freelist := load32 (mem s) x\<rparr>)"
    "kmem_inv ((kmem_after s)\<lparr>kmem_freelist := load32 (mem s) x\<rparr>) xs"
  using assms kalloc_eq [OF assms] lockable_kmem_after [of _ s] by (auto simp: kmem_inv_def)

lemma kfree_mem:
  "\<not> in_page v a \<Longrightarrow> store32 (memset v 1 PGSIZE m) v w a = m a"
  by (simp add: in_page_def store32_apply memset_apply PGSIZE_def)

lemma kfree_inv:
  assumes "kmem_inv s xs" "good_page (k_end s) v" "v \<notin> set xs"
  shows "kmem_inv ((kmem_after s)\<lparr>mem := store32 (memset v 1 PGSIZE (mem s)) v (kmem_freelist s),
     kmem_freelist := v\<rparr>) (v # xs)"
proof -
  have "page_list (store32 (memset v 1 PGSIZE (mem s)) v (kmem_freelist s)) p xs = page_list (mem s) p xs" for p
  proof (rule page_list_frame)
    fix w a
    assume "w \<in> set xs" "in_page w a"
    with assms have "\<not> in_page v a"
      using good_page_unique [of "k_end s" v w a] by (auto simp: kmem_inv_def)
    then show "store32 (memset v 1 PGSIZE (mem s)) v (kmem_freelist s) a = mem s a" by (rule kfree_mem)
  qed
  with assms good_page_nonzero [OF assms(2)] lockable_kmem_after [of _ s] show ?thesis
    by (auto simp: kmem_inv_def)
qed

lemma kmem_inv_write:
  assumes "kmem_inv s xs" "\<And>v. v \<in> set xs \<Longrightarrow> \<not> in_page v a"
  shows "kmem_inv (s\<lparr>mem := (mem s)(a := b)\<rparr>) xs"
proof -
  have "page_list ((mem s)(a := b)) p xs = page_list (mem s) p xs" for p
    by (rule page_list_frame) (use assms(2) in auto)
  with assms(1) show ?thesis by (simp add: kmem_inv_def)
qed

section \<open>The contract\<close>

text \<open>
  What the clients of the allocator rely on: with the free pages in a known order, an allocation
  pops the first page, or returns 0 when there is none; a free pushes a page that was not free.
\<close>

locale page_allocator =
  fixes alloc :: "'s \<Rightarrow> ('s, u32) outcome"
    and free :: "u32 \<Rightarrow> 's \<Rightarrow> ('s, unit) outcome"
    and inv :: "'s \<Rightarrow> u32 list \<Rightarrow> bool"
    and valid :: "'s \<Rightarrow> u32 \<Rightarrow> bool"
  assumes alloc_page: "inv s (x # xs) \<Longrightarrow> \<exists>s'. alloc s = Ret x s' \<and> inv s' xs \<and> valid s' = valid s"
    and alloc_empty: "inv s [] \<Longrightarrow> \<exists>s'. alloc s = Ret 0 s' \<and> inv s' []"
    and free_page: "inv s xs \<Longrightarrow> valid s v \<Longrightarrow> v \<notin> set xs \<Longrightarrow> \<exists>s'. free v s = Ret () s' \<and> inv s' (v # xs)"
    and inv_distinct: "inv s xs \<Longrightarrow> distinct xs \<and> (\<forall>v \<in> set xs. valid s v \<and> v \<noteq> 0)"
begin

primrec allocs :: "nat \<Rightarrow> 's \<Rightarrow> ('s, u32 list) outcome" where
  "allocs 0 s = Ret [] s"
| "allocs (Suc n) s = andthen (alloc s) (\<lambda>v s. andthen (allocs n s) (\<lambda>vs s. Ret (v # vs) s))"

lemma allocs_take: "inv s xs \<Longrightarrow> n \<le> length xs \<Longrightarrow> \<exists>s'. allocs n s = Ret (take n xs) s' \<and> inv s' (drop n xs)"
proof (induction n arbitrary: s xs)
  case 0
  then show ?case by simp
next
  case (Suc n)
  then obtain y ys where xs: "xs = y # ys" by (cases xs) auto
  with Suc.prems obtain s1 where "alloc s = Ret y s1" "inv s1 ys"
    using alloc_page by blast
  moreover from this(2) obtain s2 where "allocs n s1 = Ret (take n ys) s2" "inv s2 (drop n ys)"
    using Suc.IH Suc.prems xs by fastforce
  ultimately show ?case using xs by simp
qed

lemma allocs_exhaust: "inv s xs \<Longrightarrow> length xs < n \<Longrightarrow> \<exists>vs s'. allocs n s = Ret (xs @ 0 # vs) s'"
proof (induction n arbitrary: s xs)
  case 0
  then show ?case by simp
next
  case (Suc n)
  show ?case
  proof (cases xs)
    case Nil
    with Suc.prems obtain s1 where s1: "alloc s = Ret 0 s1" "inv s1 []" using alloc_empty by blast
    have "\<exists>vs s'. allocs n s1 = Ret vs s'"
      using Suc.IH [OF s1(2)] allocs_take [OF s1(2), of 0] by (cases n) auto
    with s1 Nil show ?thesis by auto
  next
    case (Cons y ys)
    with Suc.prems obtain s1 where "alloc s = Ret y s1" "inv s1 ys" using alloc_page by blast
    then show ?thesis using Suc.IH [of s1 ys] Suc.prems Cons by auto
  qed
qed

lemma alloc_after_free:
  "inv s xs \<Longrightarrow> valid s v \<Longrightarrow> v \<notin> set xs \<Longrightarrow> \<exists>s'. andthen (free v s) (\<lambda>_ s. alloc s) = Ret v s' \<and> inv s' xs"
  using free_page alloc_page by fastforce

end

interpretation kp: page_allocator kalloc kfree kmem_inv "\<lambda>s. good_page (k_end s)"
proof unfold_locales
  fix s :: "'a kmem_state_scheme" and x xs
  assume "kmem_inv s (x # xs)"
  from kalloc_inv [OF this]
  show "\<exists>s'. kalloc s = Ret x s' \<and> kmem_inv s' xs \<and> good_page (k_end s') = good_page (k_end s)" by auto
next
  fix s :: "'a kmem_state_scheme"
  assume a: "kmem_inv s []"
  then show "\<exists>s'. kalloc s = Ret 0 s' \<and> kmem_inv s' []"
    using kalloc_eq [OF a] lockable_kmem_after [of _ s] by (auto simp: kmem_inv_def)
next
  fix s :: "'a kmem_state_scheme" and xs v
  assume a: "kmem_inv s xs" "good_page (k_end s) v" "v \<notin> set xs"
  show "\<exists>s'. kfree v s = Ret () s' \<and> kmem_inv s' (v # xs)"
    using kfree_eq [OF a(1,2)] kfree_inv [OF a] by auto
next
  fix s :: "'a kmem_state_scheme" and xs
  assume "kmem_inv s xs"
  then show "distinct xs \<and> (\<forall>v \<in> set xs. good_page (k_end s) v \<and> v \<noteq> 0)"
    by (auto simp: kmem_inv_def dest: good_page_nonzero)
qed

section \<open>Ownership of pages\<close>

text \<open>
  A run of the kernel as the allocator sees it: \<open>kalloc\<close> adds a page to the set of owned pages,
  \<open>kfree\<close> is called on an owned page only, and owners write into their pages as they like.
\<close>

inductive kalloc_step :: "kmem_state \<times> u32 set \<Rightarrow> kmem_state \<times> u32 set \<Rightarrow> bool" where
  allocate: "kalloc s = Ret v s' \<Longrightarrow> kalloc_step (s, own) (s', if v = 0 then own else insert v own)"
| give_back: "v \<in> own \<Longrightarrow> kfree v s = Ret () s' \<Longrightarrow> kalloc_step (s, own) (s', own - {v})"
| scribble: "v \<in> own \<Longrightarrow> in_page v a \<Longrightarrow> kalloc_step (s, own) (s\<lparr>mem := (mem s)(a := b)\<rparr>, own)"

inductive kalloc_reach :: "u32 list \<Rightarrow> kmem_state \<times> u32 set \<Rightarrow> bool" for pages where
  fresh: "kmem_inv s pages \<Longrightarrow> kalloc_reach pages (s, {})"
| more: "kalloc_reach pages c \<Longrightarrow> kalloc_step c c' \<Longrightarrow> kalloc_reach pages c'"

inductive_cases kalloc_stepE: "kalloc_step (s, own) c"

definition owned_inv :: "u32 list \<Rightarrow> kmem_state \<times> u32 set \<Rightarrow> bool" where
  "owned_inv pages c \<longleftrightarrow> (\<exists>xs. kmem_inv (fst c) xs \<and> set xs \<inter> snd c = {} \<and> set xs \<union> snd c = set pages
     \<and> (\<forall>v \<in> snd c. good_page (k_end (fst c)) v))"

lemma owned_inv_step:
  assumes "kalloc_step c c'" "owned_inv pages c"
  shows "owned_inv pages c'"
  using assms
proof (induction rule: kalloc_step.induct)
  case (allocate s v s' own)
  then obtain xs where xs: "kmem_inv s xs" "set xs \<inter> own = {}" "set xs \<union> own = set pages"
    "\<forall>v \<in> own. good_page (k_end s) v" by (auto simp: owned_inv_def)
  show ?case
  proof (cases xs)
    case Nil
    with xs(1) have "v = 0" "s' = kmem_after s"
      using allocate.hyps kalloc_eq [OF xs(1)] by auto
    with xs Nil lockable_kmem_after [of KmemLock s] show ?thesis
      by (auto simp: owned_inv_def kmem_inv_def intro!: exI [of _ "[]"])
  next
    case (Cons y ys)
    note y = kalloc_inv [OF xs(1) [unfolded Cons]]
    have v: "v = y" "s' = (kmem_after s)\<lparr>kmem_freelist := load32 (mem s) y\<rparr>"
      using allocate.hyps y(1) by auto
    have "v \<noteq> 0" "good_page (k_end s) v" "y \<notin> set ys"
      using xs(1) Cons v(1) by (auto simp: kmem_inv_def)
    with y(2) v xs(2-4) Cons show ?thesis
      by (auto simp: owned_inv_def intro!: exI [of _ ys])
  qed
next
  case (give_back v own s s')
  then obtain xs where xs: "kmem_inv s xs" "set xs \<inter> own = {}" "set xs \<union> own = set pages"
    "\<forall>v \<in> own. good_page (k_end s) v" by (auto simp: owned_inv_def)
  have g: "good_page (k_end s) v" "v \<notin> set xs" using give_back.hyps(1) xs by auto
  have "s' = (kmem_after s)\<lparr>mem := store32 (memset v 1 PGSIZE (mem s)) v (kmem_freelist s), kmem_freelist := v\<rparr>"
    using give_back.hyps(2) kfree_eq [OF xs(1) g(1)] by simp
  then have "kmem_inv s' (v # xs)" "k_end s' = k_end s" using kfree_inv [OF xs(1) g] by simp_all
  with xs give_back.hyps(1) show ?case
    by (auto simp: owned_inv_def intro!: exI [of _ "v # xs"])
next
  case (scribble v own a s b)
  then obtain xs where xs: "kmem_inv s xs" "set xs \<inter> own = {}" "set xs \<union> own = set pages"
    "\<forall>v \<in> own. good_page (k_end s) v" by (auto simp: owned_inv_def)
  have "\<not> in_page w a" if "w \<in> set xs" for w
    using good_page_unique [of "k_end s" v w a] scribble.hyps xs that by (auto simp: kmem_inv_def)
  then have "kmem_inv (s\<lparr>mem := (mem s)(a := b)\<rparr>) xs" by (rule kmem_inv_write [OF xs(1)])
  with xs show ?case by (auto simp: owned_inv_def)
qed

lemma kalloc_reach_owned: "kalloc_reach pages c \<Longrightarrow> owned_inv pages c"
proof (induction rule: kalloc_reach.induct)
  case (fresh s)
  then show ?case by (auto simp: owned_inv_def)
next
  case (more c c')
  then show ?case by (blast intro: owned_inv_step)
qed

section \<open>Filling the free list\<close>

text \<open>The pages \<open>freerange\<close> frees: \<open>n\<close> pages from \<open>p\<close> on, each pushed before the next.\<close>

primrec pages_from :: "nat \<Rightarrow> u32 \<Rightarrow> u32 list" where
  "pages_from 0 p = []"
| "pages_from (Suc n) p = p # pages_from n (p + PGSIZE)"

lemma set_pages_from: "set (pages_from n p) = (\<lambda>i. p + of_nat i * PGSIZE) ` {..<n}"
proof (induction n arbitrary: p)
  case 0
  then show ?case by simp
next
  case (Suc n)
  have "(\<lambda>i. p + of_nat i * PGSIZE) ` {..<Suc n} = insert p ((\<lambda>i. p + of_nat (Suc i) * PGSIZE) ` {..<n})"
    by (simp add: lessThan_Suc_eq_insert_0 image_image)
  with Suc show ?case by (simp add: algebra_simps)
qed

lemma freerange_from_spec:
  assumes "kmem_inv s xs" "unat p + n * 4096 \<le> unat vend" "unat vend < unat p + n * 4096 + 4096"
    and "\<And>v. v \<in> set (pages_from n p) \<Longrightarrow> good_page (k_end s) v \<and> v \<notin> set xs"
    and "unat vend < 2 ^ 32 - 4096"
  shows "\<exists>s'. freerange_from p vend s = Ret () s' \<and> kmem_inv s' (rev (pages_from n p) @ xs)
     \<and> kmem_use_lock s' = kmem_use_lock s \<and> k_end s' = k_end s"
  using assms
proof (induction n arbitrary: p s xs)
  case 0
  have "unat (p + PGSIZE) = unat p + 4096"
    using 0 by (simp add: PGSIZE_def unat_plus_small)
  with 0 have "\<not> p + PGSIZE \<le> vend" by (simp add: word_le_nat_alt)
  then show ?case using 0 by (subst freerange_from.simps) simp
next
  case (Suc n)
  have u: "unat (p + PGSIZE) = unat p + 4096"
    using Suc.prems by (simp add: PGSIZE_def unat_plus_small)
  have le: "p + PGSIZE \<le> vend" using u Suc.prems by (simp add: word_le_nat_alt)
  have g: "good_page (k_end s) p" "p \<notin> set xs" using Suc.prems(4) [of p] by auto
  let ?s = "(kmem_after s)\<lparr>mem := store32 (memset p 1 PGSIZE (mem s)) p (kmem_freelist s), kmem_freelist := p\<rparr>"
  have i: "kmem_inv ?s (p # xs)" by (rule kfree_inv [OF Suc.prems(1) g])
  have "p \<notin> set (pages_from n (p + PGSIZE))"
  proof
    assume "p \<in> set (pages_from n (p + PGSIZE))"
    then obtain i where i: "i < n" "p = p + PGSIZE + of_nat i * PGSIZE"
      by (auto simp: set_pages_from)
    then have z: "(of_nat (4096 * Suc i) :: u32) = 0" by (simp add: PGSIZE_def algebra_simps)
    have "4096 * Suc i < 2 ^ 32" using i(1) Suc.prems(2) unat_less_4G [of vend] by simp
    then have "unat (of_nat (4096 * Suc i) :: u32) = 4096 * Suc i" by (rule unat_of_nat_small)
    then show False using z by (metis unat_0 mult_eq_0_iff nat.distinct(1) zero_neq_numeral)
  qed
  then have "\<exists>s'. freerange_from (p + PGSIZE) vend ?s = Ret () s'
     \<and> kmem_inv s' (rev (pages_from n (p + PGSIZE)) @ (p # xs))
     \<and> kmem_use_lock s' = kmem_use_lock ?s \<and> k_end s' = k_end ?s"
    using Suc.prems u by (intro Suc.IH [OF i]) auto
  then show ?case
    using le kfree_eq [OF Suc.prems(1) g(1)] by (subst freerange_from.simps) auto
qed

section \<open>Properties\<close>

text \<open>C19. No page is handed out twice: whatever sequence of allocations, frees of owned pages and
  writes into owned pages the kernel has made since the free list was built from \<open>pages\<close>, a page
  that \<open>kalloc\<close> returns is not owned by anyone, is one of the original pages and is page aligned
  physical memory; and \<open>kalloc\<close> returns 0 exactly when every original page is owned.\<close>

theorem kalloc_no_double_allocation:
  assumes "kalloc_reach pages (s, own)"
  shows "\<exists>v s'. kalloc s = Ret v s' \<and> (v \<noteq> 0 \<longrightarrow> v \<notin> own \<and> v \<in> set pages \<and> good_page (k_end s) v)
     \<and> (v = 0 \<longleftrightarrow> own = set pages)"
proof -
  obtain xs where xs: "kmem_inv s xs" "set xs \<inter> own = {}" "set xs \<union> own = set pages"
    using kalloc_reach_owned [OF assms] by (auto simp: owned_inv_def)
  show ?thesis
  proof (cases xs)
    case Nil
    with xs kalloc_eq [OF xs(1)] show ?thesis by auto
  next
    case (Cons y ys)
    then have "good_page (k_end s) y" "y \<noteq> 0" using xs(1) by (auto simp: kmem_inv_def)
    with Cons xs kalloc_inv(1) [OF xs(1) [unfolded Cons]] show ?thesis by auto
  qed
qed

definition kmem_boot :: kmem_state where
  "kmem_boot = \<lparr>mach = two_cpus, mem = (\<lambda>_. 0), kmem_use_lock = False, kmem_freelist = 0x80400000,
     k_end = 0x80300000, k_data = 0x80108000\<rparr>"

lemma kmem_boot_inv: "kmem_inv kmem_boot [0x80400000]"
  by (simp add: kmem_inv_def kmem_boot_def load32_def join4_def good_page_def PGSIZE_def V2P_def
      KERNBASE_def PHYSTOP_def)

theorem kalloc_no_double_allocation_witness:
  "\<exists>v s'. kalloc kmem_boot = Ret v s' \<and> v \<noteq> 0 \<and> v \<in> {0x80400000}"
  using kalloc_no_double_allocation [OF kalloc_reach.fresh [OF kmem_boot_inv]] by auto

text \<open>C20. \<open>freerange\<close> puts exactly the whole pages between its bounds on the free list: for a range
  of kernel memory below \<^verbatim>\<open>PHYSTOP\<close>, starting from an empty list, it returns and the free list holds
  each of the \<open>n\<close> pages from the rounded up start, the last one first.\<close>

theorem freerange_pages:
  assumes "kmem_inv s []" "p = PGROUNDUP vstart" "n = (unat vend - unat p) div 4096"
    and "KERNBASE \<le> p" "k_end s \<le> p" "p \<le> vend" "vend \<le> P2V PHYSTOP"
  shows "\<exists>s'. freerange vstart vend s = Ret () s' \<and> kmem_inv s' (rev (pages_from n p))"
proof -
  have b: "unat vend \<le> 0x8E000000" "unat p \<le> unat vend" "0x80000000 \<le> unat p"
    using assms(4,6,7) by (simp_all add: word_le_nat_alt P2V_def PHYSTOP_def KERNBASE_def)
  have n: "n * 4096 \<le> unat vend - unat p" "unat vend - unat p < n * 4096 + 4096"
    using assms(3) by (simp_all add: div_times_less_eq_dividend dividend_less_div_times)
  have "good_page (k_end s) v" if v: "v \<in> set (pages_from n p)" for v
  proof -
    obtain i where i: "i < n" "v = p + of_nat i * PGSIZE" using v by (auto simp: set_pages_from)
    have "i * 4096 < 2 ^ 32" using i n b by simp
    then have "unat (of_nat (i * 4096) :: u32) = i * 4096" by (rule unat_of_nat_small)
    moreover have "v = p + of_nat (i * 4096)" using i(2) by (simp add: PGSIZE_def)
    ultimately have u: "unat v = unat p + i * 4096"
      using i n b unat_plus_small [of p "of_nat (i * 4096)"] by simp
    have "unat p mod 4096 = 0" using assms(2) aligned_iff [of p] by simp
    then have "unat v mod 4096 = 0" using u by simp
    moreover have "k_end s \<le> v" using u assms(5) by (simp add: word_le_nat_alt)
    moreover have "unat (V2P v) = unat v - 0x80000000"
      using u b by (simp add: V2P_def KERNBASE_def unat_sub word_le_nat_alt)
    then have "V2P v < PHYSTOP"
      using u i n b by (simp add: word_less_nat_alt PHYSTOP_def)
    ultimately show ?thesis by (simp add: good_page_def aligned_iff)
  qed
  then have "\<exists>s'. freerange_from p vend s = Ret () s' \<and> kmem_inv s' (rev (pages_from n p) @ [])
     \<and> kmem_use_lock s' = kmem_use_lock s \<and> k_end s' = k_end s"
    using assms(1) n b by (intro freerange_from_spec) auto
  then show ?thesis using assms(2) by (auto simp: freerange_def)
qed

theorem freerange_pages_witness:
  "\<exists>s'. freerange 0x80300001 0x80303000 (kmem_boot\<lparr>kmem_freelist := 0\<rparr>) = Ret () s'
     \<and> kmem_inv s' [0x80302000, 0x80301000]"
proof -
  have r: "PGROUNDUP 0x80300001 = 0x80301000" by (simp add: PGROUNDUP_def PGSIZE_def)
  have l: "pages_from 2 0x80301000 = [0x80301000, 0x80302000]"
    by (simp add: eval_nat_numeral PGSIZE_def)
  have "kmem_inv (kmem_boot\<lparr>kmem_freelist := 0\<rparr>) []" by (simp add: kmem_inv_def kmem_boot_def)
  from freerange_pages [where vstart = "0x80300001" and vend = "0x80303000", OF this refl refl]
  show ?thesis
    by (simp add: r l KERNBASE_def P2V_def PHYSTOP_def kmem_boot_def)
qed

end
