(* ===== verification/Proc.thy ===== *)
theory Proc
  imports Kalloc
begin

text \<open>
  The process and thread tables and the operations of \<^verbatim>\<open>proc.c\<close> that need nothing but them:
  \<^verbatim>\<open>setstate\<close>, \<^verbatim>\<open>allocproc\<close>, \<^verbatim>\<open>wakeup1\<close>, \<^verbatim>\<open>wakeup\<close> and \<^verbatim>\<open>kill\<close>. The structures are those of
  \<^verbatim>\<open>proc.h\<close>. A process is named by its index in \<^verbatim>\<open>ptable.proc\<close>, a thread by its index in
  \<^verbatim>\<open>ptable.thread\<close>, an open file and a cached inode by theirs; null pointers are \<open>None\<close>.
  The trap frame, which the code keeps at the top of the kernel stack of a thread, is a field of
  the thread; the saved context below it is in memory at the address \<open>t_context\<close>. The addresses
  of \<^verbatim>\<open>forkret\<close> and \<^verbatim>\<open>trapret\<close>, which the linker chooses, are fields of the state.
\<close>

section \<open>Constants and structures\<close>

definition NPROC :: nat where "NPROC = 64"
definition NTHREAD :: nat where "NTHREAD = 256"
definition KSTACKSIZE :: u32 where "KSTACKSIZE = 4096"
definition NOFILE :: nat where "NOFILE = 16"
definition MAXPASS :: u32 where "MAXPASS = 100000000"
definition TICKETS :: u32 where "TICKETS = 10000"

datatype procstate = UNUSED | ZOMBIE | EMBRYO | SLEEPING | RUNNING | RUNNABLE

primrec state_code :: "procstate \<Rightarrow> nat" where
  "state_code UNUSED = 0"
| "state_code ZOMBIE = 1"
| "state_code EMBRYO = 2"
| "state_code SLEEPING = 3"
| "state_code RUNNING = 4"
| "state_code RUNNABLE = 5"

lemma state_code_inject: "state_code a = state_code b \<longleftrightarrow> a = b"
  by (cases a; cases b) simp_all

instantiation procstate :: linorder
begin

definition less_eq_procstate :: "procstate \<Rightarrow> procstate \<Rightarrow> bool" where
  "less_eq_procstate a b \<longleftrightarrow> state_code a \<le> state_code b"

definition less_procstate :: "procstate \<Rightarrow> procstate \<Rightarrow> bool" where
  "less_procstate a b \<longleftrightarrow> state_code a < state_code b"

instance
  by standard (auto simp: less_eq_procstate_def less_procstate_def state_code_inject)

end

text \<open>The scheduler classes; \<open>NoSched\<close> is the 0 that \<^verbatim>\<open>wait\<close> stores in a freed slot.\<close>

datatype sched_class = NoSched | MLFQ | STRIDE

definition HQLEV :: nat where "HQLEV = 0"
definition MQLEV :: nat where "MQLEV = 1"
definition LQLEV :: nat where "LQLEV = 2"

record trapframe =
  tf_edi :: u32
  tf_esi :: u32
  tf_ebp :: u32
  tf_ebx :: u32
  tf_edx :: u32
  tf_ecx :: u32
  tf_eax :: u32
  tf_gs :: u16
  tf_fs :: u16
  tf_es :: u16
  tf_ds :: u16
  tf_trapno :: u32
  tf_err :: u32
  tf_eip :: u32
  tf_cs :: u16
  tf_eflags :: u32
  tf_esp :: u32
  tf_ss :: u16

record thread =
  t_usp :: u32
  t_kstack :: u32
  t_state :: procstate
  t_tid :: int
  t_mp :: "nat option"
  t_tf :: trapframe
  t_context :: u32
  t_chan :: "chan option"

record proc =
  p_sz :: u32
  p_pgdir :: u32
  p_state :: procstate
  p_pid :: int
  p_parent :: "nat option"
  p_killed :: bool
  p_exited :: bool
  p_ofile :: "nat option list"
  p_cwd :: "nat option"
  p_name :: "nat \<Rightarrow> u8"
  p_stype :: sched_class
  p_qlev :: nat
  p_ticks :: u32
  p_share :: u32
  p_pass :: u32
  p_fslist :: u32
  p_pin :: "nat option"

record mlfq_sched =
  m_quan :: "u32 list"
  m_allot :: "u32 list"
  m_share :: u32
  m_pass :: u32
  m_boosted :: u32
  m_pin :: nat

record proc_state = kmem_state +
  procs :: "proc list"
  threads :: "thread list"
  initproc :: "nat option"
  nextpid :: int
  nexttid :: int
  mlfq :: mlfq_sched
  ticks :: u32
  kpgdir :: u32
  k_forkret :: u32
  k_trapret :: u32

abbreviation upd_proc :: "nat \<Rightarrow> (proc \<Rightarrow> proc) \<Rightarrow> 'x proc_state_scheme \<Rightarrow> 'x proc_state_scheme" where
  "upd_proc p f s \<equiv> s\<lparr>procs := modify p f (procs s)\<rparr>"

abbreviation upd_thread :: "nat \<Rightarrow> (thread \<Rightarrow> thread) \<Rightarrow> 'x proc_state_scheme \<Rightarrow> 'x proc_state_scheme" where
  "upd_thread t f s \<equiv> s\<lparr>threads := modify t f (threads s)\<rparr>"

section \<open>Operations\<close>

definition pinit :: "'x proc_state_scheme \<Rightarrow> 'x proc_state_scheme" where
  "pinit s = s\<lparr>mach := initlock PtableLock (mach s)\<rparr>"

definition max_thread_state :: "nat \<Rightarrow> thread list \<Rightarrow> procstate" where
  "max_thread_state p ts =
     fold (\<lambda>t s. if t_mp t = Some p \<and> t_state t > s then t_state t else s) ts UNUSED"

definition setstate :: "nat \<Rightarrow> nat \<Rightarrow> procstate \<Rightarrow> 'x proc_state_scheme \<Rightarrow> 'x proc_state_scheme" where
  "setstate p t st s =
     (let s = upd_thread t (\<lambda>th. th\<lparr>t_state := st\<rparr>) s in
      if p_state (procs s ! p) \<le> st then upd_proc p (\<lambda>pr. pr\<lparr>p_state := st\<rparr>) s
      else upd_proc p (\<lambda>pr. pr\<lparr>p_state := max_thread_state p (threads s)\<rparr>) s)"

definition allocproc :: "'x proc_state_scheme \<Rightarrow> ('x proc_state_scheme, nat option) outcome" where
  "allocproc s =
     andthen (kacquire PtableLock s) (\<lambda>_ s.
       case first_such (\<lambda>p. p_state p = UNUSED) (procs s) of
         None \<Rightarrow> andthen (krelease PtableLock s) (\<lambda>_ s. Ret None s)
       | Some p \<Rightarrow>
           let s = upd_proc p (\<lambda>pr. pr\<lparr>p_state := EMBRYO\<rparr>) s;
               s = upd_proc p (\<lambda>pr. pr\<lparr>p_pid := nextpid s\<rparr>) s;
               s = s\<lparr>nextpid := nextpid s + 1\<rparr> in
           andthen (krelease PtableLock s) (\<lambda>_ s. Ret (Some p) s))"

definition wake_if ::
  "(thread \<Rightarrow> bool) \<Rightarrow> nat \<Rightarrow> 'x proc_state_scheme \<Rightarrow> ('x proc_state_scheme, unit) outcome" where
  "wake_if P t s =
     (if P (threads s ! t)
      then (case t_mp (threads s ! t) of
          None \<Rightarrow> Undef ''setstate: null process''
        | Some p \<Rightarrow> Ret () (setstate p t RUNNABLE s))
      else Ret () s)"

definition wakeup1 :: "chan \<Rightarrow> 'x proc_state_scheme \<Rightarrow> ('x proc_state_scheme, unit) outcome" where
  "wakeup1 ch s =
     each (wake_if (\<lambda>t. t_state t = SLEEPING \<and> t_chan t = Some ch)) [0..<length (threads s)] s"

definition wakeup :: "chan \<Rightarrow> 'x proc_state_scheme \<Rightarrow> ('x proc_state_scheme, unit) outcome" where
  "wakeup ch s =
     andthen (kacquire PtableLock s) (\<lambda>_ s.
     andthen (wakeup1 ch s) (\<lambda>_ s. krelease PtableLock s))"

definition kill :: "int \<Rightarrow> 'x proc_state_scheme \<Rightarrow> ('x proc_state_scheme, int) outcome" where
  "kill pid s =
     andthen (kacquire PtableLock s) (\<lambda>_ s.
       case first_such (\<lambda>p. p_pid p = pid) (procs s) of
         Some p \<Rightarrow>
           let s = upd_proc p (\<lambda>pr. pr\<lparr>p_killed := True\<rparr>) s in
           andthen (each (wake_if (\<lambda>t. t_mp t = Some p \<and> t_state t = SLEEPING))
                      [0..<length (threads s)] s) (\<lambda>_ s.
           andthen (krelease PtableLock s) (\<lambda>_ s. Ret 0 s))
       | None \<Rightarrow> andthen (krelease PtableLock s) (\<lambda>_ s. Ret (- 1) s))"

section \<open>The state of a process is the highest state of its threads\<close>

lemma UNUSED_least [simp]: "UNUSED \<le> st" and RUNNABLE_greatest [simp]: "st \<le> RUNNABLE"
  by (cases st; simp add: less_eq_procstate_def)+

lemma fold_max_upper:
  fixes s0 :: procstate
  shows "s0 \<le> fold (\<lambda>t s. if P t \<and> t_state t > s then t_state t else s) ts s0"
    "t \<in> set ts \<Longrightarrow> P t \<Longrightarrow> t_state t \<le> fold (\<lambda>t s. if P t \<and> t_state t > s then t_state t else s) ts s0"
proof (induction ts arbitrary: s0)
  case (Cons a ts)
  { case 1
    show ?case using Cons.IH(1) [of "if P a \<and> t_state a > s0 then t_state a else s0"]
      by (auto split: if_splits)
  next
    case 2
    then show ?case
      using Cons.IH(1) [of "if P a \<and> t_state a > s0 then t_state a else s0"]
        Cons.IH(2) [of "if P a \<and> t_state a > s0 then t_state a else s0"]
      by (auto split: if_splits) }
qed simp_all

lemma fold_max_attained:
  fixes s0 :: procstate
  shows "fold (\<lambda>t s. if P t \<and> t_state t > s then t_state t else s) ts s0 = s0
     \<or> (\<exists>t \<in> set ts. P t \<and> t_state t = fold (\<lambda>t s. if P t \<and> t_state t > s then t_state t else s) ts s0)"
proof (induction ts arbitrary: s0)
  case Nil
  then show ?case by simp
next
  case (Cons a ts)
  show ?case using Cons.IH [of "if P a \<and> t_state a > s0 then t_state a else s0"]
    by (auto split: if_splits)
qed

lemma max_thread_state_upper:
  "t \<in> set ts \<Longrightarrow> t_mp t = Some p \<Longrightarrow> t_state t \<le> max_thread_state p ts"
  unfolding max_thread_state_def by (rule fold_max_upper(2))

lemma max_thread_state_attained:
  "max_thread_state p ts = UNUSED \<or> (\<exists>t \<in> set ts. t_mp t = Some p \<and> t_state t = max_thread_state p ts)"
  unfolding max_thread_state_def by (rule fold_max_attained)

lemma max_thread_state_eqI:
  assumes "\<And>t. t \<in> set ts \<Longrightarrow> t_mp t = Some p \<Longrightarrow> t_state t \<le> m"
    and "m = UNUSED \<or> (\<exists>t \<in> set ts. t_mp t = Some p \<and> t_state t = m)"
  shows "max_thread_state p ts = m"
proof (rule antisym)
  show "max_thread_state p ts \<le> m"
    using max_thread_state_attained [of p ts] assms(1) by (metis UNUSED_least)
  show "m \<le> max_thread_state p ts"
    using assms(2) max_thread_state_upper by auto
qed

lemma max_thread_state_cong:
  assumes "length ts = length us"
    and "\<And>i. i < length ts \<Longrightarrow> t_mp (ts ! i) = Some p \<or> t_mp (us ! i) = Some p \<Longrightarrow>
       t_mp (ts ! i) = t_mp (us ! i) \<and> t_state (ts ! i) = t_state (us ! i)"
  shows "max_thread_state p ts = max_thread_state p us"
proof (rule max_thread_state_eqI)
  fix t
  assume "t \<in> set ts" "t_mp t = Some p"
  then obtain i where "i < length ts" "t = ts ! i" by (auto simp: in_set_conv_nth)
  then show "t_state t \<le> max_thread_state p us"
    using assms(1) assms(2) [of i] \<open>t_mp t = Some p\<close> max_thread_state_upper [of "us ! i" us p]
    by auto
next
  show "max_thread_state p us = UNUSED \<or> (\<exists>t \<in> set ts. t_mp t = Some p \<and> t_state t = max_thread_state p us)"
    using max_thread_state_attained [of p us] assms by (metis in_set_conv_nth)
qed

definition states_agree :: "'x proc_state_scheme \<Rightarrow> bool" where
  "states_agree s \<longleftrightarrow> (\<forall>p < length (procs s). p_state (procs s ! p) = max_thread_state p (threads s))"

lemma setstate_threads [simp]:
  "threads (setstate p t st s) = modify t (\<lambda>th. th\<lparr>t_state := st\<rparr>) (threads s)"
  by (simp add: setstate_def Let_def)

lemma setstate_procs:
  "procs (setstate p t st s) = modify p (\<lambda>pr. pr\<lparr>p_state := (if p_state pr \<le> st then st
     else max_thread_state p (threads (setstate p t st s)))\<rparr>) (procs s)"
  by (simp add: setstate_def Let_def modify_def)

lemma setstate_frame [simp]:
  "mach (setstate p t st s) = mach s" "mlfq (setstate p t st s) = mlfq s"
  "mem (setstate p t st s) = mem s" "length (procs (setstate p t st s)) = length (procs s)"
  by (simp_all add: setstate_def Let_def)

lemma setstate_top:
  "setstate p t RUNNABLE s = upd_proc p (\<lambda>pr. pr\<lparr>p_state := RUNNABLE\<rparr>)
     (upd_thread t (\<lambda>th. th\<lparr>t_state := RUNNABLE\<rparr>) s)"
  by (simp add: setstate_def Let_def)

lemma setstate_agree_self:
  assumes "t < length (threads s)" "p < length (procs s)" "t_mp (threads s ! t) = Some p"
    and "p_state (procs s ! p) = max_thread_state p (threads s)"
  shows "p_state (procs (setstate p t st s) ! p) = max_thread_state p (threads (setstate p t st s))"
proof (cases "p_state (procs s ! p) \<le> st")
  case True
  have "max_thread_state p (threads (setstate p t st s)) = st"
  proof (rule max_thread_state_eqI)
    fix u
    assume u: "u \<in> set (threads (setstate p t st s))" "t_mp u = Some p"
    then obtain i where i: "i < length (threads s)" "u = threads (setstate p t st s) ! i"
      by (auto simp: in_set_conv_nth)
    show "t_state u \<le> st"
    proof (cases "i = t")
      case True
      then show ?thesis using i by simp
    next
      case False
      then have "u = threads s ! i" using i by simp
      then have "t_state u \<le> max_thread_state p (threads s)"
        using u i by (intro max_thread_state_upper) auto
      also have "\<dots> \<le> st" using True assms(4) by simp
      finally show ?thesis .
    qed
  next
    have "threads (setstate p t st s) ! t \<in> set (threads (setstate p t st s))"
      using assms(1) by (intro nth_mem) simp
    moreover have "t_mp (threads (setstate p t st s) ! t) = Some p"
      "t_state (threads (setstate p t st s) ! t) = st" using assms by simp_all
    ultimately show "st = UNUSED \<or> (\<exists>u \<in> set (threads (setstate p t st s)). t_mp u = Some p \<and> t_state u = st)"
      by blast
  qed
  with True assms(2) show ?thesis by (simp add: setstate_procs)
next
  case False
  with assms(2) show ?thesis by (simp add: setstate_procs)
qed

lemma setstate_agree_other:
  assumes "t_mp (threads s ! t) = Some p" "q \<noteq> p"
  shows "max_thread_state q (threads (setstate p t st s)) = max_thread_state q (threads s)"
  by (rule max_thread_state_cong) (use assms in \<open>auto simp: nth_modify\<close>)

lemma states_agree_setstate:
  assumes "states_agree s" "t < length (threads s)" "p < length (procs s)" "t_mp (threads s ! t) = Some p"
  shows "states_agree (setstate p t st s)"
  unfolding states_agree_def
proof (intro allI impI)
  fix q
  assume q: "q < length (procs (setstate p t st s))"
  show "p_state (procs (setstate p t st s) ! q) = max_thread_state q (threads (setstate p t st s))"
  proof (cases "q = p")
    case True
    then show ?thesis using setstate_agree_self [of t s p st] assms by (simp add: states_agree_def)
  next
    case False
    then show ?thesis using setstate_agree_other [of s t p q st] assms q
      by (simp add: states_agree_def setstate_procs)
  qed
qed

section \<open>Waking threads\<close>

definition woken :: "(thread \<Rightarrow> bool) \<Rightarrow> thread list \<Rightarrow> thread list" where
  "woken P ts = map (\<lambda>t. if P t then t\<lparr>t_state := RUNNABLE\<rparr> else t) ts"

definition woken_procs :: "(thread \<Rightarrow> bool) \<Rightarrow> thread list \<Rightarrow> proc list \<Rightarrow> proc list" where
  "woken_procs P ts ps = map (\<lambda>p. if \<exists>t \<in> set ts. P t \<and> t_mp t = Some p
     then (ps ! p)\<lparr>p_state := RUNNABLE\<rparr> else ps ! p) [0..<length ps]"

lemma length_woken [simp]: "length (woken P ts) = length ts" "length (woken_procs P ts ps) = length ps"
  by (simp_all add: woken_def woken_procs_def)

lemma woken_procs_Nil: "woken_procs P [] ps = ps"
  by (simp add: woken_procs_def map_nth)

lemma wake_prefix:
  assumes "\<And>t. t \<in> set (threads s) \<Longrightarrow> P t \<Longrightarrow> t_mp t \<noteq> None" "k \<le> length (threads s)"
  shows "each (wake_if P) [0..<k] s = Ret () (s\<lparr>threads := woken P (take k (threads s)) @ drop k (threads s),
     procs := woken_procs P (take k (threads s)) (procs s)\<rparr>)"
  using assms(2)
proof (induction k)
  case 0
  then show ?case by (simp add: woken_def woken_procs_Nil)
next
  case (Suc k)
  let ?s = "s\<lparr>threads := woken P (take k (threads s)) @ drop k (threads s),
     procs := woken_procs P (take k (threads s)) (procs s)\<rparr>"
  let ?t = "threads s ! k"
  have k: "k < length (threads s)" using Suc.prems by simp
  have d: "drop k (threads s) = ?t # drop (Suc k) (threads s)" by (rule Cons_nth_drop_Suc [OF k, symmetric])
  have tk: "take (Suc k) (threads s) = take k (threads s) @ [?t]" by (rule take_Suc_conv_app_nth [OF k])
  have l: "length (woken P (take k (threads s))) = k" using k by simp
  have nk: "threads ?s ! k = ?t" using l d by (simp add: nth_append)
  have "wake_if P k ?s = Ret () (s\<lparr>threads := woken P (take (Suc k) (threads s)) @ drop (Suc k) (threads s),
     procs := woken_procs P (take (Suc k) (threads s)) (procs s)\<rparr>)"
  proof (cases "P ?t")
    case True
    then obtain p where p: "t_mp ?t = Some p" using assms(1) [of ?t] k by auto
    have "modify k (\<lambda>th. th\<lparr>t_state := RUNNABLE\<rparr>) (woken P (take k (threads s)) @ drop k (threads s))
        = woken P (take (Suc k) (threads s)) @ drop (Suc k) (threads s)"
      using True l by (simp add: modify_def d tk list_update_append nth_append) (simp add: woken_def)
    moreover have "modify p (\<lambda>pr. pr\<lparr>p_state := RUNNABLE\<rparr>) (woken_procs P (take k (threads s)) (procs s))
        = woken_procs P (take (Suc k) (threads s)) (procs s)"
      by (rule nth_equalityI) (auto simp: nth_modify woken_procs_def tk p True)
    ultimately show ?thesis using True nk p by (simp add: wake_if_def setstate_top)
  next
    case False
    have "woken_procs P (take (Suc k) (threads s)) (procs s) = woken_procs P (take k (threads s)) (procs s)"
      using False by (simp add: woken_procs_def tk)
    moreover have "woken P (take (Suc k) (threads s)) = woken P (take k (threads s)) @ [?t]"
      using False by (simp add: woken_def tk)
    ultimately show ?thesis using False nk d by (simp add: wake_if_def)
  qed
  then show ?case using Suc by (simp add: each_append)
qed

lemma wake_all:
  assumes "\<And>t. t \<in> set (threads s) \<Longrightarrow> P t \<Longrightarrow> t_mp t \<noteq> None"
  shows "each (wake_if P) [0..<length (threads s)] s = Ret () (s\<lparr>threads := woken P (threads s),
     procs := woken_procs P (threads s) (procs s)\<rparr>)"
  using wake_prefix [OF assms order_refl] by simp

lemma woken_agree:
  assumes "states_agree s"
  shows "states_agree (s\<lparr>threads := woken P (threads s), procs := woken_procs P (threads s) (procs s)\<rparr>)"
  unfolding states_agree_def
proof (intro allI impI)
  fix p
  assume p: "p < length (procs (s\<lparr>threads := woken P (threads s), procs := woken_procs P (threads s) (procs s)\<rparr>))"
  show "p_state (procs (s\<lparr>threads := woken P (threads s), procs := woken_procs P (threads s) (procs s)\<rparr>) ! p)
      = max_thread_state p (threads (s\<lparr>threads := woken P (threads s), procs := woken_procs P (threads s) (procs s)\<rparr>))"
  proof (cases "\<exists>t \<in> set (threads s). P t \<and> t_mp t = Some p")
    case True
    then obtain t where t: "t \<in> set (threads s)" "P t" "t_mp t = Some p" by blast
    have "t\<lparr>t_state := RUNNABLE\<rparr> \<in> set (woken P (threads s))"
      using t(1,2) unfolding woken_def by (auto simp: image_iff intro: bexI [of _ t])
    then have "max_thread_state p (woken P (threads s)) = RUNNABLE"
      using t(3) by (intro max_thread_state_eqI) (auto intro!: bexI [of _ "t\<lparr>t_state := RUNNABLE\<rparr>"])
    with True p show ?thesis by (simp add: woken_procs_def)
  next
    case False
    then have "max_thread_state p (woken P (threads s)) = max_thread_state p (threads s)"
      by (intro max_thread_state_cong) (auto simp: woken_def dest: nth_mem)
    with False p assms show ?thesis by (auto simp: woken_procs_def states_agree_def)
  qed
qed

lemma wake_all_locked:
  assumes "\<And>t. t \<in> set (threads s) \<Longrightarrow> P t \<Longrightarrow> t_mp t \<noteq> None" "n = length (threads s)"
  shows "each (wake_if P) [0..<n] s = Ret () (s\<lparr>threads := woken P (threads s),
     procs := woken_procs P (threads s) (procs s)\<rparr>)"
  using wake_all [OF assms(1)] assms(2) by simp

lemma nth_woken:
  "i < length ts \<Longrightarrow> woken P ts ! i = (if P (ts ! i) then (ts ! i)\<lparr>t_state := RUNNABLE\<rparr> else ts ! i)"
  by (simp add: woken_def)

lemma nth_woken_procs:
  assumes "p < length ps"
  shows "woken_procs P ts ps ! p
     = (if \<exists>t \<in> set ts. P t \<and> t_mp t = Some p then (ps ! p)\<lparr>p_state := RUNNABLE\<rparr> else ps ! p)"
  using assms by (auto simp: woken_procs_def)

definition sleeping_on :: "chan \<Rightarrow> thread \<Rightarrow> bool" where
  "sleeping_on ch t \<longleftrightarrow> t_state t = SLEEPING \<and> t_chan t = Some ch"

definition owned_sleepers :: "'x proc_state_scheme \<Rightarrow> bool" where
  "owned_sleepers s \<longleftrightarrow> (\<forall>t \<in> set (threads s). t_state t = SLEEPING \<longrightarrow> t_mp t \<noteq> None)"

lemma wakeup1_closed:
  assumes "owned_sleepers s"
  shows "wakeup1 ch s = Ret () (s\<lparr>threads := woken (sleeping_on ch) (threads s),
     procs := woken_procs (sleeping_on ch) (threads s) (procs s)\<rparr>)"
proof -
  have eq: "(\<lambda>t. t_state t = SLEEPING \<and> t_chan t = Some ch) = sleeping_on ch"
    by (simp add: fun_eq_iff sleeping_on_def)
  show ?thesis unfolding wakeup1_def eq
    by (rule wake_all) (use assms in \<open>auto simp: owned_sleepers_def sleeping_on_def\<close>)
qed

section \<open>Properties\<close>

text \<open>C14. \<^verbatim>\<open>setstate\<close> keeps every process's state equal to the highest state, in the order of the
  enumeration, of the threads that belong to it: the shortcut that only rescans the thread table
  when the new state is below the state of the process agrees with the full scan, for every
  target state and also for the processes it is not called for.\<close>

theorem setstate_agree:
  assumes "states_agree s" "t < length (threads s)" "p < length (procs s)" "t_mp (threads s ! t) = Some p"
  shows "states_agree (setstate p t st s)"
  using assms by (rule states_agree_setstate)

text \<open>C15. \<^verbatim>\<open>wakeup\<close>, called with the process table lock free, makes exactly the threads sleeping on
  the channel runnable, marks exactly their processes runnable, leaves every other thread and
  process as it was, gives the lock back, and keeps the states of processes and threads in
  agreement: no sleeper on the channel is lost and no other sleeper is disturbed.\<close>

theorem wakeup_exact:
  assumes "lockable PtableLock (mach s)" "owned_sleepers s" "states_agree s"
  shows "\<exists>s'. wakeup ch s = Ret () s' \<and> states_agree s'
     \<and> locks (mach s') PtableLock = locks (mach s) PtableLock
     \<and> length (threads s') = length (threads s) \<and> length (procs s') = length (procs s)
     \<and> (\<forall>t < length (threads s). threads s' ! t = (if sleeping_on ch (threads s ! t)
          then (threads s ! t)\<lparr>t_state := RUNNABLE\<rparr> else threads s ! t))
     \<and> (\<forall>p < length (procs s). procs s' ! p = (if \<exists>t \<in> set (threads s). sleeping_on ch t \<and> t_mp t = Some p
          then (procs s ! p)\<lparr>p_state := RUNNABLE\<rparr> else procs s ! p))"
proof -
  let ?s = "s\<lparr>mach := taken PtableLock (mach s)\<rparr>"
  let ?u = "s\<lparr>mach := settle (mach s), threads := woken (sleeping_on ch) (threads s),
     procs := woken_procs (sleeping_on ch) (threads s) (procs s)\<rparr>"
  have "owned_sleepers ?s" using assms(2) by (simp add: owned_sleepers_def)
  then have "wakeup ch s = Ret () ?u" using assms(1) by (simp add: wakeup_def wakeup1_closed)
  moreover have "states_agree ?u"
    using woken_agree [of "s\<lparr>mach := settle (mach s)\<rparr>" "sleeping_on ch"] assms(3) by (simp add: states_agree_def)
  ultimately show ?thesis by (intro exI [of _ ?u] conjI allI impI) (simp_all add: nth_woken nth_woken_procs)
qed

text \<open>C16. \<^verbatim>\<open>kill\<close> returns 0 exactly when some slot of the process table carries the pid; it then marks the
  first such process as killed, makes exactly its sleeping threads runnable, and touches no other
  process or thread; otherwise it returns -1 and changes nothing. The table lock is as it was in both cases.\<close>

theorem kill_exact:
  assumes "lockable PtableLock (mach s)" "states_agree s"
  shows "case first_such (\<lambda>p. p_pid p = pid) (procs s) of
       None \<Rightarrow> kill pid s = Ret (- 1) (s\<lparr>mach := settle (mach s)\<rparr>)
     | Some p \<Rightarrow> \<exists>s'. kill pid s = Ret 0 s' \<and> states_agree s' \<and> p_killed (procs s' ! p) \<and> mach s' = settle (mach s)
         \<and> length (threads s') = length (threads s) \<and> length (procs s') = length (procs s)
         \<and> (\<forall>q < length (procs s). q \<noteq> p \<longrightarrow> procs s' ! q = procs s ! q)
         \<and> (\<forall>t < length (threads s). threads s' ! t =
              (if t_mp (threads s ! t) = Some p \<and> t_state (threads s ! t) = SLEEPING
               then (threads s ! t)\<lparr>t_state := RUNNABLE\<rparr> else threads s ! t))"
proof (cases "first_such (\<lambda>p. p_pid p = pid) (procs s)")
  case None
  then show ?thesis using assms(1) by (simp add: kill_def)
next
  case (Some p)
  let ?P = "\<lambda>t. t_mp t = Some p \<and> t_state t = SLEEPING"
  let ?s = "s\<lparr>procs := modify p (\<lambda>pr. pr\<lparr>p_killed := True\<rparr>) (procs s)\<rparr>"
  let ?u = "?s\<lparr>mach := settle (mach s), threads := woken ?P (threads s),
     procs := woken_procs ?P (threads s) (procs ?s)\<rparr>"
  have p: "p < length (procs s)" using Some by (rule first_such_SomeD(1))
  have "each (wake_if ?P) [0..<length (threads s)] (s\<lparr>mach := taken PtableLock (mach s), procs := procs ?s\<rparr>)
      = Ret () (s\<lparr>mach := taken PtableLock (mach s), threads := threads ?u, procs := procs ?u\<rparr>)"
    using wake_all_locked [of "s\<lparr>mach := taken PtableLock (mach s), procs := procs ?s\<rparr>" ?P] by simp
  then have "kill pid s = Ret 0 ?u" using Some assms(1) by (simp add: kill_def)
  moreover have "states_agree ?s" using assms(2) by (simp add: states_agree_def nth_modify)
  then have "states_agree ?u"
    using woken_agree [of "?s\<lparr>mach := settle (mach s)\<rparr>" ?P] by (simp add: states_agree_def)
  moreover have "p_killed (procs ?u ! p)" using p by (simp add: nth_woken_procs)
  moreover have "procs ?u ! q = procs s ! q" if "q < length (procs s)" "q \<noteq> p" for q
    using that by (simp add: nth_woken_procs) auto
  ultimately show ?thesis using Some
    by (simp only: option.case) (intro exI [of _ ?u] conjI allI impI, simp_all add: nth_woken)
qed

section \<open>A small process table\<close>

definition idle_thread :: thread where
  "idle_thread = \<lparr>t_usp = 0, t_kstack = 0, t_state = UNUSED, t_tid = 0, t_mp = None,
     t_tf = \<lparr>tf_edi = 0, tf_esi = 0, tf_ebp = 0, tf_ebx = 0, tf_edx = 0, tf_ecx = 0, tf_eax = 0,
       tf_gs = 0, tf_fs = 0, tf_es = 0, tf_ds = 0, tf_trapno = 0, tf_err = 0, tf_eip = 0, tf_cs = 0,
       tf_eflags = 0, tf_esp = 0, tf_ss = 0\<rparr>,
     t_context = 0, t_chan = None\<rparr>"

definition idle_proc :: proc where
  "idle_proc = \<lparr>p_sz = 0, p_pgdir = 0, p_state = UNUSED, p_pid = 0, p_parent = None, p_killed = False,
     p_exited = False, p_ofile = replicate NOFILE None, p_cwd = None, p_name = (\<lambda>_. 0), p_stype = NoSched,
     p_qlev = 0, p_ticks = 0, p_share = 0, p_pass = 0, p_fslist = 0, p_pin = None\<rparr>"

definition boot_mlfq :: mlfq_sched where
  "boot_mlfq = \<lparr>m_quan = [5, 10, 20], m_allot = [20, 40], m_share = 100, m_pass = 0, m_boosted = 0, m_pin = 0\<rparr>"

definition demo :: proc_state where
  "demo = \<lparr>mach = two_cpus, mem = (\<lambda>_. 0), kmem_use_lock = True, kmem_freelist = 0x80400000, k_end = 0x80300000, k_data = 0x80108000,
     procs = [idle_proc\<lparr>p_pid := 1, p_state := SLEEPING, p_stype := MLFQ\<rparr>,
       idle_proc\<lparr>p_pid := 2, p_state := RUNNABLE, p_stype := MLFQ, p_parent := Some 0\<rparr>, idle_proc],
     threads = [idle_thread\<lparr>t_tid := 1, t_mp := Some 0, t_state := SLEEPING, t_chan := Some (ProcChan 0)\<rparr>,
       idle_thread\<lparr>t_tid := 2, t_mp := Some 1, t_state := RUNNABLE\<rparr>,
       idle_thread\<lparr>t_tid := 3, t_mp := Some 1, t_state := SLEEPING, t_chan := Some TicksChan\<rparr>, idle_thread],
     initproc = Some 0, nextpid = 3, nexttid = 4, mlfq = boot_mlfq, ticks = 0, kpgdir = 0x803FF000,
     k_forkret = 0x80103A10, k_trapret = 0x80105D2E\<rparr>"

lemma demo_agree: "states_agree demo"
  by (simp add: states_agree_def demo_def max_thread_state_def idle_proc_def idle_thread_def
      less_procstate_def All_less_Suc eval_nat_numeral)

lemma demo_lockable: "lockable lk (mach demo)"
  using two_cpus_ok by (simp add: lockable_def demo_def) (simp add: two_cpus_def)

lemma demo_owned: "owned_sleepers demo"
  by (simp add: owned_sleepers_def demo_def idle_thread_def)

theorem setstate_agree_witness:
  "states_agree (setstate 1 1 SLEEPING demo) \<and> p_state (procs (setstate 1 1 SLEEPING demo) ! 1) = SLEEPING"
proof -
  have "states_agree (setstate 1 1 SLEEPING demo)"
    by (rule setstate_agree [OF demo_agree]) (simp_all add: demo_def)
  moreover have "p_state (procs (setstate 1 1 SLEEPING demo) ! 1) = SLEEPING"
    by (simp add: setstate_procs demo_def max_thread_state_def idle_proc_def idle_thread_def
        less_procstate_def less_eq_procstate_def modify_def)
  ultimately show ?thesis by blast
qed

theorem wakeup_exact_witness:
  "\<exists>s'. wakeup TicksChan demo = Ret () s' \<and> t_state (threads s' ! 2) = RUNNABLE \<and> t_state (threads s' ! 0) = SLEEPING"
proof -
  have l: "length (threads demo) = 4" "sleeping_on TicksChan (threads demo ! 2)"
    "\<not> sleeping_on TicksChan (threads demo ! 0)" "t_state (threads demo ! 0) = SLEEPING"
    by (simp_all add: demo_def sleeping_on_def)
  from wakeup_exact [OF demo_lockable demo_owned demo_agree, of TicksChan] obtain s' where
    w: "wakeup TicksChan demo = Ret () s'"
    and t: "\<And>t. t < length (threads demo) \<Longrightarrow> threads s' ! t = (if sleeping_on TicksChan (threads demo ! t)
          then (threads demo ! t)\<lparr>t_state := RUNNABLE\<rparr> else threads demo ! t)" by blast
  show ?thesis using w t [of 2] t [of 0] l by simp
qed

theorem kill_exact_witness:
  "\<exists>s'. kill 2 demo = Ret 0 s' \<and> states_agree s' \<and> p_killed (procs s' ! 1)"
proof -
  have "first_such (\<lambda>p. p_pid p = 2) (procs demo) = Some 1"
    by (simp add: demo_def first_such_def)
  then show ?thesis using kill_exact [OF demo_lockable demo_agree, of 2] by auto
qed

end
