(* ===== verification/Scheduler.thy ===== *)
theory Scheduler
  imports Proc
begin

text \<open>
  The scheduler: all of \<^verbatim>\<open>scheduler.c\<close>, with \<^verbatim>\<open>nextthd\<close> of \<^verbatim>\<open>thread.c\<close>, \<^verbatim>\<open>switchuvm\<close> and
  \<^verbatim>\<open>switchkvm\<close> of \<^verbatim>\<open>vm.c\<close> and \<^verbatim>\<open>sleep\<close> of \<^verbatim>\<open>proc.c\<close>. A function that calls \<^verbatim>\<open>swtch\<close> is cut there:
  the first part returns the switch it is about to make, the part after the call is the
  definition with the suffix \<open>_resume\<close>. The two searches that walk a table in circles
  until they are back at their pin may run forever and are partial functions.
\<close>

section \<open>Priority boost and pass reduction\<close>

definition boost :: "'x proc_state_scheme \<Rightarrow> 'x proc_state_scheme" where
  "boost s =
     (if m_boosted (mlfq s) < 200 then s
      else s\<lparr>procs := map (\<lambda>p. if p_stype p = MLFQ \<and> p_qlev p > HQLEV
                             then p\<lparr>p_qlev := HQLEV, p_pass := 0\<rparr> else p) (procs s),
             mlfq := (mlfq s)\<lparr>m_boosted := 0\<rparr>\<rparr>)"

definition reduce :: "'x proc_state_scheme \<Rightarrow> 'x proc_state_scheme" where
  "reduce s =
     (if m_pass (mlfq s) < MAXPASS then s
      else if list_ex (\<lambda>p. p_stype p = STRIDE \<and> p_pass p < MAXPASS) (procs s) then s
      else s\<lparr>mlfq := (mlfq s)\<lparr>m_pass := m_pass (mlfq s) - MAXPASS\<rparr>,
             procs := map (\<lambda>p. if p_stype p = STRIDE then p\<lparr>p_pass := p_pass p - MAXPASS\<rparr> else p)
               (procs s)\<rparr>)"

section \<open>Choice of a process and of a thread\<close>

definition getstrideproc :: "'x proc_state_scheme \<Rightarrow> nat option" where
  "getstrideproc s =
     fold (\<lambda>p minproc.
       if p_stype (procs s ! p) = STRIDE \<and> p_state (procs s ! p) = RUNNABLE
       then (case minproc of
           None \<Rightarrow> Some p
         | Some q \<Rightarrow> if p_pass (procs s ! p) < p_pass (procs s ! q) then Some p else minproc)
       else minproc) [0..<length (procs s)] None"

partial_function (option) getmlfqproc_from :: "proc list \<Rightarrow> nat \<Rightarrow> nat \<Rightarrow> nat option option" where
  "getmlfqproc_from ps pin p =
     (if p < length ps
      then (if p_stype (ps ! p) = MLFQ \<and> p_state (ps ! p) = RUNNABLE then Some (Some p)
            else if p = pin then Some None
            else getmlfqproc_from ps pin (p + 1))
      else getmlfqproc_from ps pin 0)"

definition getmlfqproc :: "'x proc_state_scheme \<Rightarrow> nat option option" where
  "getmlfqproc s = getmlfqproc_from (procs s) (m_pin (mlfq s)) (m_pin (mlfq s) + 1)"

definition getschedproc :: "'x proc_state_scheme \<Rightarrow> ('x proc_state_scheme, nat option) outcome" where
  "getschedproc s =
     (let p1 = getstrideproc s in
      case getmlfqproc s of
        None \<Rightarrow> Hang
      | Some p2 \<Rightarrow>
          let p = (case (p1, p2) of
                (Some a, Some b) \<Rightarrow> if p_pass (procs s ! a) < m_pass (mlfq s) then Some a else Some b
              | (Some a, None) \<Rightarrow> Some a
              | (None, Some b) \<Rightarrow> Some b
              | (None, None) \<Rightarrow> None) in
          Ret p (case p2 of
              None \<Rightarrow> s
            | Some b \<Rightarrow> if p = Some b then s\<lparr>mlfq := (mlfq s)\<lparr>m_pin := b\<rparr>\<rparr> else s))"

partial_function (option) nextthd_from :: "thread list \<Rightarrow> nat \<Rightarrow> nat \<Rightarrow> nat \<Rightarrow> nat option option" where
  "nextthd_from ts p pin t =
     (if t < length ts
      then (if t_mp (ts ! t) = Some p \<and> t_state (ts ! t) = RUNNABLE then Some (Some t)
            else if t = pin then Some None
            else nextthd_from ts p pin (t + 1))
      else nextthd_from ts p pin 0)"

definition nextthd :: "nat \<Rightarrow> 'x proc_state_scheme \<Rightarrow> ('x proc_state_scheme, nat option) outcome" where
  "nextthd p s =
     (case p_pin (procs s ! p) of
        None \<Rightarrow> Undef ''nextthd: null pin''
      | Some pin \<Rightarrow>
          (case nextthd_from (threads s) p pin (pin + 1) of
             None \<Rightarrow> Hang
           | Some None \<Rightarrow> Ret None s
           | Some (Some t) \<Rightarrow> Ret (Some t) (upd_proc p (\<lambda>pr. pr\<lparr>p_pin := Some t\<rparr>) s)))"

section \<open>Switching\<close>

definition SEG_KDATA :: nat where "SEG_KDATA = 2"
definition SEG_TSS :: nat where "SEG_TSS = 5"
definition STS_T32A :: nat where "STS_T32A = 9"

definition on_cpu :: "nat \<Rightarrow> (cpu \<Rightarrow> cpu) \<Rightarrow> 'x kbase_scheme \<Rightarrow> 'x kbase_scheme" where
  "on_cpu c f s = s\<lparr>mach := (mach s)\<lparr>cpus := modify c f (cpus (mach s))\<rparr>\<rparr>"

definition lcr3 :: "u32 \<Rightarrow> 'x kbase_scheme \<Rightarrow> 'x kbase_scheme" where
  "lcr3 v s = s\<lparr>mach := (mach s)\<lparr>cr3 := (cr3 (mach s))(lapicid (mach s) := v)\<rparr>\<rparr>"

definition switchkvm :: "'x proc_state_scheme \<Rightarrow> 'x proc_state_scheme" where
  "switchkvm s = lcr3 (V2P (kpgdir s)) s"

definition switchuvm :: "nat option \<Rightarrow> 'x proc_state_scheme \<Rightarrow> ('x proc_state_scheme, unit) outcome" where
  "switchuvm po s =
     (case po of
        None \<Rightarrow> Panic ''switchuvm: no process''
      | Some p \<Rightarrow>
          if p_pgdir (procs s ! p) = 0 then Panic ''switchuvm: no pgdir''
          else (case p_pin (procs s ! p) of
              None \<Rightarrow> Undef ''switchuvm: null thread''
            | Some t \<Rightarrow>
                if t_kstack (threads s ! t) = 0 then Panic ''switchuvm: no kstack''
                else
                  andthen (on_mach pushcli s) (\<lambda>_ s.
                  andthen (on_mach mycpu s) (\<lambda>c s.
                    let s = on_cpu c (\<lambda>cp. cp\<lparr>gdt_tss := Some \<lparr>sd_type = STS_T32A, sd_base = c,
                                sd_limit = 103, sd_s = True, sd_dpl = 0\<rparr>\<rparr>) s;
                        s = on_cpu c (\<lambda>cp. cp\<lparr>gdt_tss := map_option (\<lambda>d. d\<lparr>sd_s := False\<rparr>) (gdt_tss cp)\<rparr>) s;
                        s = on_cpu c (\<lambda>cp. cp\<lparr>ts_ss0 := of_nat (SEG_KDATA * 8)\<rparr>) s;
                        s = on_cpu c (\<lambda>cp. cp\<lparr>ts_esp0 := t_kstack (threads s ! t) + KSTACKSIZE\<rparr>) s;
                        s = on_cpu c (\<lambda>cp. cp\<lparr>ts_iomb := 0xFFFF\<rparr>) s;
                        s = on_cpu c (\<lambda>cp. cp\<lparr>tr_sel := of_nat (SEG_TSS * 8)\<rparr>) s;
                        s = lcr3 (V2P (p_pgdir (procs s ! p))) s in
                    on_mach popcli s))))"

section \<open>The scheduler loop\<close>

definition scheduler_enter :: "'x proc_state_scheme \<Rightarrow> ('x proc_state_scheme, nat) outcome" where
  "scheduler_enter s =
     andthen (on_mach mycpu s) (\<lambda>c s. Ret c (on_cpu c (\<lambda>cp. cp\<lparr>c_proc := None\<rparr>) s))"

text \<open>One pass of the loop up to \<^verbatim>\<open>swtch\<close>: the value is the process and the thread switched to,
  or \<open>None\<close> for a pass that found nothing to run.\<close>

definition scheduler :: "nat \<Rightarrow> 'x proc_state_scheme \<Rightarrow> ('x proc_state_scheme, (nat \<times> nat) option) outcome" where
  "scheduler c s =
     (let s = s\<lparr>mach := sti (mach s)\<rparr> in
      andthen (kacquire PtableLock s) (\<lambda>_ s.
      andthen (getschedproc (boost (reduce s))) (\<lambda>po s.
        case po of
          None \<Rightarrow> andthen (krelease PtableLock s) (\<lambda>_ s. Ret None s)
        | Some p \<Rightarrow>
            andthen (nextthd p s) (\<lambda>ot s.
              case ot of
                None \<Rightarrow> Panic ''no thread in process (scheduler)''
              | Some t \<Rightarrow>
                  let s = on_cpu c (\<lambda>cp. cp\<lparr>c_proc := Some p, c_thd := Some t\<rparr>) s in
                  andthen (switchuvm (Some p) s) (\<lambda>_ s.
                    let s = upd_proc p (\<lambda>pr. pr\<lparr>p_ticks := 0\<rparr>) s;
                        s = setstate p t RUNNING s in
                    Ret (Some (p, t)) s)))))"

definition div32 :: "u32 \<Rightarrow> u32 \<Rightarrow> 's \<Rightarrow> ('s, u32) outcome" where
  "div32 a b s = (if b = 0 then Undef ''division by zero'' else Ret (a div b) s)"

definition charge :: "nat \<Rightarrow> 'x proc_state_scheme \<Rightarrow> ('x proc_state_scheme, unit) outcome" where
  "charge p s =
     (let pr = procs s ! p in
      if p_stype pr = STRIDE
      then andthen (div32 (TICKETS * p_ticks pr) (p_share pr) s) (\<lambda>d s.
             Ret () (upd_proc p (\<lambda>pr. pr\<lparr>p_pass := p_pass pr + d\<rparr>) s))
      else andthen (div32 (TICKETS * p_ticks pr) (m_share (mlfq s)) s) (\<lambda>d s.
             Ret () (s\<lparr>mlfq := (mlfq s)\<lparr>m_pass := m_pass (mlfq s) + d,
                                      m_boosted := m_boosted (mlfq s) + p_ticks pr\<rparr>\<rparr>)))"

definition demote :: "nat \<Rightarrow> 'x proc_state_scheme \<Rightarrow> 'x proc_state_scheme" where
  "demote p s =
     (let pr = procs s ! p in
      if p_stype pr = MLFQ \<and> p_qlev pr < LQLEV \<and> p_pass pr \<ge> m_allot (mlfq s) ! p_qlev pr
      then upd_proc p (\<lambda>pr. pr\<lparr>p_qlev := p_qlev pr + 1, p_pass := 0\<rparr>) s
      else s)"

definition scheduler_resume :: "nat \<Rightarrow> nat \<Rightarrow> 'x proc_state_scheme \<Rightarrow> ('x proc_state_scheme, unit) outcome" where
  "scheduler_resume c p s =
     (let s = switchkvm s;
          s = on_cpu c (\<lambda>cp. cp\<lparr>c_proc := None, c_thd := None\<rparr>) s in
      andthen (charge p s) (\<lambda>_ s. krelease PtableLock (demote p s)))"

section \<open>Entering the scheduler\<close>

definition stride_quan :: u32 where "stride_quan = 5"

text \<open>What \<^verbatim>\<open>sched\<close> does at its end: it keeps running the thread, or switches to a thread of the
  same process or to the scheduler, remembering \<^verbatim>\<open>intena\<close> for the return.\<close>

datatype switch = Stay | ToThread nat bool | ToScheduler bool

definition quantum :: "nat \<Rightarrow> 'x proc_state_scheme \<Rightarrow> ('x proc_state_scheme, u32) outcome" where
  "quantum p s =
     (if p_stype (procs s ! p) = STRIDE then Ret stride_quan s
      else if p_qlev (procs s ! p) < length (m_quan (mlfq s)) then Ret (m_quan (mlfq s) ! p_qlev (procs s ! p)) s
      else Undef ''mlfq.quan: index out of bounds'')"

definition sched_thread ::
  "nat \<Rightarrow> nat \<Rightarrow> 'x proc_state_scheme \<Rightarrow> ('x proc_state_scheme, switch) outcome" where
  "sched_thread cp ct s =
     andthen (nextthd cp s) (\<lambda>ot s.
       case ot of
         None \<Rightarrow> Panic ''no thread in process (sched)''
       | Some t \<Rightarrow>
           let s = setstate cp t RUNNING s in
           if ct = t then Ret Stay s
           else
             andthen (on_mach mycpu s) (\<lambda>c s.
               let ie = intena (cpus (mach s) ! c);
                   s = on_cpu c (\<lambda>cpu. cpu\<lparr>c_thd := Some t\<rparr>) s in
               andthen (on_mach pushcli s) (\<lambda>_ s.
               andthen (on_mach mycpu s) (\<lambda>c s.
                 let s = on_cpu c (\<lambda>cpu. cpu\<lparr>ts_esp0 := t_kstack (threads s ! t) + KSTACKSIZE\<rparr>) s in
                 andthen (on_mach popcli s) (\<lambda>_ s. Ret (ToThread t ie) s)))))"

definition sched :: "'x proc_state_scheme \<Rightarrow> ('x proc_state_scheme, switch) outcome" where
  "sched s =
     andthen (on_mach myproc s) (\<lambda>po s.
     andthen (on_mach mythd s) (\<lambda>to s.
     andthen (on_mach (holding PtableLock) s) (\<lambda>h s.
       if \<not> h then Panic ''sched ptable.lock'' else
     andthen (on_mach mycpu s) (\<lambda>c s.
       if ncli (cpus (mach s) ! c) \<noteq> 1 then Panic ''sched locks'' else
       case (po, to) of
         (Some cp, Some ct) \<Rightarrow>
           if t_state (threads s ! ct) = RUNNING then Panic ''sched running''
           else if readeflags_IF (mach s) then Panic ''sched interruptible''
           else
             let s = upd_proc cp (\<lambda>pr. pr\<lparr>p_ticks := p_ticks pr + 1\<rparr>) s;
                 s = (if p_stype (procs s ! cp) = MLFQ
                      then upd_proc cp (\<lambda>pr. pr\<lparr>p_pass := p_pass pr + 1\<rparr>) s else s) in
             andthen (quantum cp s) (\<lambda>quan s.
               if p_state (procs s ! cp) = RUNNABLE \<and> p_ticks (procs s ! cp) < quan
               then sched_thread cp ct s
               else andthen (on_mach mycpu s) (\<lambda>c s. Ret (ToScheduler (intena (cpus (mach s) ! c))) s))
       | _ \<Rightarrow> Undef ''sched: no current thread''))))"

definition sched_resume :: "switch \<Rightarrow> 'x proc_state_scheme \<Rightarrow> ('x proc_state_scheme, unit) outcome" where
  "sched_resume sw s =
     (case sw of
        Stay \<Rightarrow> Ret () s
      | ToThread t ie \<Rightarrow> andthen (on_mach mycpu s) (\<lambda>c s. Ret () (on_cpu c (\<lambda>cp. cp\<lparr>intena := ie\<rparr>) s))
      | ToScheduler ie \<Rightarrow> andthen (on_mach mycpu s) (\<lambda>c s. Ret () (on_cpu c (\<lambda>cp. cp\<lparr>intena := ie\<rparr>) s)))"

definition yield :: "'x proc_state_scheme \<Rightarrow> ('x proc_state_scheme, switch) outcome" where
  "yield s =
     andthen (on_mach myproc s) (\<lambda>po s.
     andthen (on_mach mythd s) (\<lambda>to s.
     andthen (kacquire PtableLock s) (\<lambda>_ s.
       case (po, to) of
         (Some p, Some t) \<Rightarrow> sched (setstate p t RUNNABLE s)
       | _ \<Rightarrow> Undef ''yield: no current thread'')))"

definition yield_resume :: "switch \<Rightarrow> 'x proc_state_scheme \<Rightarrow> ('x proc_state_scheme, unit) outcome" where
  "yield_resume sw s = andthen (sched_resume sw s) (\<lambda>_ s. krelease PtableLock s)"

definition sleep :: "chan \<Rightarrow> lockid \<Rightarrow> 'x proc_state_scheme \<Rightarrow> ('x proc_state_scheme, switch) outcome" where
  "sleep ch lk s =
     andthen (on_mach myproc s) (\<lambda>po s.
     andthen (on_mach mythd s) (\<lambda>to s.
       case (po, to) of
         (Some p, Some t) \<Rightarrow>
           andthen (if lk \<noteq> PtableLock
                    then andthen (kacquire PtableLock s) (\<lambda>_ s. krelease lk s)
                    else Ret () s) (\<lambda>_ s.
             let s = upd_thread t (\<lambda>th. th\<lparr>t_chan := Some ch\<rparr>) s;
                 s = setstate p t SLEEPING s in
             sched s)
       | _ \<Rightarrow> Panic ''sleep''))"

definition sleep_resume ::
  "nat \<Rightarrow> lockid \<Rightarrow> switch \<Rightarrow> 'x proc_state_scheme \<Rightarrow> ('x proc_state_scheme, unit) outcome" where
  "sleep_resume t lk sw s =
     andthen (sched_resume sw s) (\<lambda>_ s.
       let s = upd_thread t (\<lambda>th. th\<lparr>t_chan := None\<rparr>) s in
       if lk \<noteq> PtableLock then andthen (krelease PtableLock s) (\<lambda>_ s. kacquire lk s)
       else Ret () s)"

section \<open>CPU shares\<close>

definition set_cpu_share :: "int \<Rightarrow> 'x proc_state_scheme \<Rightarrow> ('x proc_state_scheme, int) outcome" where
  "set_cpu_share share s =
     andthen (on_mach myproc s) (\<lambda>po s.
     andthen (kacquire PtableLock s) (\<lambda>_ s.
       case po of
         None \<Rightarrow> Undef ''set_cpu_share: no current process''
       | Some cp \<Rightarrow>
           let pr = procs s ! cp in
           if share \<le> 0 then
             let s = (if p_stype pr = STRIDE
                      then upd_proc cp (\<lambda>p. p\<lparr>p_stype := MLFQ, p_qlev := HQLEV, p_share := 0, p_pass := 0\<rparr>)
                             (s\<lparr>mlfq := (mlfq s)\<lparr>m_share := m_share (mlfq s) + p_share pr\<rparr>\<rparr>)
                      else s) in
             andthen (krelease PtableLock s) (\<lambda>_ s. Ret 0 s)
           else
             let new = (if p_stype pr = STRIDE then m_share (mlfq s) + p_share pr - of_int share
                        else m_share (mlfq s) - of_int share) in
             if new < 20 then andthen (krelease PtableLock s) (\<lambda>_ s. Ret (- 1) s)
             else
               let s = s\<lparr>mlfq := (mlfq s)\<lparr>m_share := new\<rparr>\<rparr>;
                   s = upd_proc cp (\<lambda>p. p\<lparr>p_stype := STRIDE, p_qlev := 0, p_share := of_int share,
                                        p_pass := m_pass (mlfq s)\<rparr>) s in
               andthen (krelease PtableLock s) (\<lambda>_ s. Ret 0 s)))"

section \<open>Searching a table in circles\<close>

text \<open>The order in which a circular search visits a table of \<open>n\<close> slots: after the pin first, the
  pin itself last; and the number of slots it visits before it reaches \<open>q\<close>.\<close>

definition ring :: "nat \<Rightarrow> nat \<Rightarrow> nat list" where
  "ring n pin = [Suc pin..<n] @ [0..<Suc pin]"

definition ring_dist :: "nat \<Rightarrow> nat \<Rightarrow> nat \<Rightarrow> nat" where
  "ring_dist n pin q = (if pin < q then q - pin - 1 else q + n - pin - 1)"

lemma set_ring: "pin < n \<Longrightarrow> set (ring n pin) = {..<n}"
  by (auto simp: ring_def)

lemma length_ring: "pin < n \<Longrightarrow> length (ring n pin) = n"
  by (simp add: ring_def)

lemma ring_nth_dist: "pin < n \<Longrightarrow> i < n \<Longrightarrow> ring_dist n pin (ring n pin ! i) = i"
  by (auto simp: ring_def ring_dist_def nth_append simp del: upt_Suc)

lemma ring_dist_nth: "pin < n \<Longrightarrow> q < n \<Longrightarrow> ring n pin ! ring_dist n pin q = q \<and> ring_dist n pin q < n"
  by (auto simp: ring_def ring_dist_def nth_append simp del: upt_Suc)

lemma ring_closer:
  assumes "pin < n" "q < n" "P q" "find P (ring n pin) = Some r" "r \<noteq> q"
  shows "ring_dist n r q < ring_dist n pin q"
proof -
  from assms(4) obtain i where i: "i < n" "r = ring n pin ! i" "\<forall>j < i. \<not> P (ring n pin ! j)"
    by (auto simp: find_Some_iff length_ring [OF assms(1)])
  have d: "ring_dist n pin r = i" using ring_nth_dist [OF assms(1) i(1)] i(2) by simp
  have "\<not> ring_dist n pin q < i" using i(3) ring_dist_nth [OF assms(1,2)] assms(3) by metis
  moreover have "ring_dist n pin q \<noteq> i" using ring_dist_nth [OF assms(1,2)] i(2) assms(5) by auto
  moreover have "r < n" using i(1,2) set_ring [OF assms(1)] length_ring [OF assms(1)] by (metis lessThan_iff nth_mem)
  ultimately show ?thesis using d assms(1,2,5) by (auto simp: ring_dist_def split: if_splits)
qed

lemma find_mem: "find P xs = Some x \<Longrightarrow> x \<in> set xs \<and> P x"
  by (auto simp: find_Some_iff)

text \<open>A pin that moves to the slot found: a slot that qualifies at every search is found after at
  most as many searches as it is away from the pin.\<close>

lemma ring_fair:
  assumes "\<And>k. find (P k) (ring n (pin k)) = Some (pin (Suc k))" "pin 0 < n" "q < n" "\<And>k. P k q"
  shows "\<exists>k \<le> ring_dist n (pin 0) q. pin (Suc k) = q"
  using assms
proof (induction "ring_dist n (pin 0) q" arbitrary: P pin rule: less_induct)
  case less
  show ?case
  proof (cases "pin (Suc 0) = q")
    case True
    then show ?thesis by auto
  next
    case False
    have c: "ring_dist n (pin (Suc 0)) q < ring_dist n (pin 0) q"
      using ring_closer [OF less.prems(2,3,4) less.prems(1)] False by simp
    have "pin (Suc 0) < n"
      using find_mem [OF less.prems(1) [of 0]] set_ring [OF less.prems(2)] by auto
    then have "\<exists>k \<le> ring_dist n (pin (Suc 0)) q. pin (Suc (Suc k)) = q"
      using less.hyps [of "\<lambda>k. pin (Suc k)" "\<lambda>k. P (Suc k)"] c less.prems by simp
    then obtain k where k: "k \<le> ring_dist n (pin (Suc 0)) q" "pin (Suc (Suc k)) = q" by blast
    then show ?thesis using c by (intro exI [of _ "Suc k"]) simp
  qed
qed

text \<open>The contract of a circular search: it looks at slots upwards, wraps at the end of the
  table and gives up at the pin.\<close>

locale ring_search =
  fixes n :: nat and P :: "nat \<Rightarrow> bool" and pin :: nat and search :: "nat \<Rightarrow> nat option option"
  assumes step: "search p = (if p < n then (if P p then Some (Some p) else if p = pin then Some None
       else search (p + 1)) else search 0)"
begin

lemma search_low: "pin < n \<Longrightarrow> p \<le> pin \<Longrightarrow> search p = Some (find P [p..<Suc pin])"
proof (induction "pin - p" arbitrary: p)
  case 0
  then show ?case by (subst step) simp
next
  case (Suc d)
  then have "p < pin" by simp
  moreover have "[p..<Suc pin] = p # [Suc p..<Suc pin]" using Suc.prems by (simp add: upt_conv_Cons)
  ultimately show ?case using Suc.hyps(1) [of "Suc p"] Suc.hyps(2) Suc.prems
    by (subst step) (simp del: upt_Suc)
qed

lemma search_high: "pin < p \<Longrightarrow> p \<le> n \<Longrightarrow> search p = Some (find P ([p..<n] @ [0..<Suc pin]))"
proof (induction "n - p" arbitrary: p)
  case 0
  then show ?case using search_low [of 0] by (subst step) (simp del: upt_Suc)
next
  case (Suc d)
  then have "p < n" by simp
  moreover have "[p..<n] = p # [Suc p..<n]" using \<open>p < n\<close> by (rule upt_conv_Cons)
  ultimately show ?case using Suc.hyps(1) [of "Suc p"] Suc.hyps(2) Suc.prems
    by (subst step) (simp del: upt_Suc)
qed

lemma search_ring: "pin < n \<Longrightarrow> search (Suc pin) = Some (find P (ring n pin))"
  using search_high [of "Suc pin"] by (simp add: ring_def del: upt_Suc)

lemma search_found:
  assumes "pin < n"
  shows "(\<exists>r. search (Suc pin) = Some (Some r)) \<longleftrightarrow> (\<exists>q < n. P q)"
proof -
  have "find P (ring n pin) = None \<longleftrightarrow> \<not> (\<exists>q < n. P q)"
    using set_ring [OF assms] by (auto simp: find_None_iff)
  then show ?thesis using search_ring [OF assms] by (cases "find P (ring n pin)") auto
qed

end

definition mlfq_ready :: "proc list \<Rightarrow> nat \<Rightarrow> bool" where
  "mlfq_ready ps p \<longleftrightarrow> p_stype (ps ! p) = MLFQ \<and> p_state (ps ! p) = RUNNABLE"

definition stride_ready :: "proc list \<Rightarrow> nat \<Rightarrow> bool" where
  "stride_ready ps p \<longleftrightarrow> p_stype (ps ! p) = STRIDE \<and> p_state (ps ! p) = RUNNABLE"

definition thread_ready :: "thread list \<Rightarrow> nat \<Rightarrow> nat \<Rightarrow> bool" where
  "thread_ready ts p t \<longleftrightarrow> t_mp (ts ! t) = Some p \<and> t_state (ts ! t) = RUNNABLE"

interpretation mlfq_walk: ring_search "length ps" "mlfq_ready ps" pin "getmlfqproc_from ps pin" for ps pin
proof
  fix p
  show "getmlfqproc_from ps pin p = (if p < length ps then (if mlfq_ready ps p then Some (Some p)
       else if p = pin then Some None else getmlfqproc_from ps pin (p + 1)) else getmlfqproc_from ps pin 0)"
    by (subst getmlfqproc_from.simps) (simp add: mlfq_ready_def)
qed

interpretation thread_walk: ring_search "length ts" "thread_ready ts p" pin "nextthd_from ts p pin" for ts p pin
proof
  fix t
  show "nextthd_from ts p pin t = (if t < length ts then (if thread_ready ts p t then Some (Some t)
       else if t = pin then Some None else nextthd_from ts p pin (t + 1)) else nextthd_from ts p pin 0)"
    by (subst nextthd_from.simps) (simp add: thread_ready_def)
qed

lemma getmlfqproc_find:
  "m_pin (mlfq s) < length (procs s) \<Longrightarrow>
     getmlfqproc s = Some (find (mlfq_ready (procs s)) (ring (length (procs s)) (m_pin (mlfq s))))"
  by (simp add: getmlfqproc_def mlfq_walk.search_ring)

lemma nextthd_find:
  assumes "p_pin (procs s ! p) = Some pin" "pin < length (threads s)"
  shows "nextthd p s = (case find (thread_ready (threads s) p) (ring (length (threads s)) pin) of
       None \<Rightarrow> Ret None s
     | Some t \<Rightarrow> Ret (Some t) (upd_proc p (\<lambda>pr. pr\<lparr>p_pin := Some t\<rparr>) s))"
  using thread_walk.search_ring [OF assms(2), of p] assms(1)
  by (simp add: nextthd_def split: option.splits)

section \<open>The minimal pass\<close>

lemma getstrideproc_prefix:
  "k \<le> length ps \<Longrightarrow>
   (case fold (\<lambda>p minproc. if stride_ready ps p
       then (case minproc of None \<Rightarrow> Some p
         | Some q \<Rightarrow> if p_pass (ps ! p) < p_pass (ps ! q) then Some p else minproc)
       else minproc) [0..<k] None of
     None \<Rightarrow> \<forall>q < k. \<not> stride_ready ps q
   | Some p \<Rightarrow> p < k \<and> stride_ready ps p \<and>
       (\<forall>q < k. stride_ready ps q \<longrightarrow> p_pass (ps ! p) \<le> p_pass (ps ! q)
          \<and> (p_pass (ps ! q) = p_pass (ps ! p) \<longrightarrow> p \<le> q)))"
proof (induction k)
  case 0
  then show ?case by simp
next
  case (Suc k)
  then show ?case by (fastforce simp: less_Suc_eq split: option.splits if_splits)
qed

lemma getstrideproc_fold:
  "getstrideproc s = fold (\<lambda>p minproc. if stride_ready (procs s) p
       then (case minproc of None \<Rightarrow> Some p
         | Some q \<Rightarrow> if p_pass (procs s ! p) < p_pass (procs s ! q) then Some p else minproc)
       else minproc) [0..<length (procs s)] None"
  by (simp add: getstrideproc_def stride_ready_def)

lemma getstrideproc_None: "getstrideproc s = None \<longleftrightarrow> (\<forall>q < length (procs s). \<not> stride_ready (procs s) q)"
  using getstrideproc_prefix [of "length (procs s)" "procs s"]
  by (auto simp: getstrideproc_fold [symmetric] split: option.splits)

lemma getstrideproc_Some:
  "getstrideproc s = Some p \<Longrightarrow> p < length (procs s) \<and> stride_ready (procs s) p \<and>
     (\<forall>q < length (procs s). stride_ready (procs s) q \<longrightarrow> p_pass (procs s ! p) \<le> p_pass (procs s ! q)
          \<and> (p_pass (procs s ! q) = p_pass (procs s ! p) \<longrightarrow> p \<le> q))"
  using getstrideproc_prefix [of "length (procs s)" "procs s"] by (simp add: getstrideproc_fold [symmetric])

section \<open>Properties of the choice\<close>

lemma getschedproc_cases:
  assumes "m_pin (mlfq s) < length (procs s)"
  defines "p2 \<equiv> find (mlfq_ready (procs s)) (ring (length (procs s)) (m_pin (mlfq s)))"
  shows "getschedproc s = (case (getstrideproc s, p2) of
      (Some a, Some b) \<Rightarrow> if p_pass (procs s ! a) < m_pass (mlfq s) then Ret (Some a) s
         else Ret (Some b) (s\<lparr>mlfq := (mlfq s)\<lparr>m_pin := b\<rparr>\<rparr>)
    | (Some a, None) \<Rightarrow> Ret (Some a) s
    | (None, Some b) \<Rightarrow> Ret (Some b) (s\<lparr>mlfq := (mlfq s)\<lparr>m_pin := b\<rparr>\<rparr>)
    | (None, None) \<Rightarrow> Ret None s)"
proof -
  note f = getmlfqproc_find [OF assms(1), folded p2_def]
  have ne: "getstrideproc s = Some a \<Longrightarrow> p2 = Some b \<Longrightarrow> a \<noteq> b" for a b
    using getstrideproc_Some [of s a] find_mem [of "mlfq_ready (procs s)" _ b]
    unfolding p2_def stride_ready_def mlfq_ready_def by fastforce
  show ?thesis
  proof (cases "getstrideproc s")
    case None
    then show ?thesis by (cases p2) (simp_all add: getschedproc_def f)
  next
    case (Some a)
    then show ?thesis using ne [of a] by (cases p2) (simp_all add: getschedproc_def f)
  qed
qed

lemma find_ring_None:
  "pin < n \<Longrightarrow> find P (ring n pin) = None \<longleftrightarrow> (\<forall>q < n. \<not> P q)"
  by (auto simp: find_None_iff set_ring)

text \<open>C4. The choice of the next process is work conserving; the MLFQ class is served by round robin, whatever
  the queue levels of its processes (see \<open>mlfq_level_ignored\<close>), and competes with the stride processes by pass. The choice
  returns, it finds nothing only when no process is runnable under either policy, a chosen stride
  process has the least pass of the runnable stride processes and beats the pass of the MLFQ class
  if that class has a runnable process, and a chosen MLFQ process is the next runnable one after the
  pin in circular order while no runnable stride process is behind the pass of the class.\<close>

theorem getschedproc_choice:
  assumes "m_pin (mlfq s) < length (procs s)"
  shows "\<exists>po s'. getschedproc s = Ret po s' \<and>
     (case po of
        None \<Rightarrow> \<forall>q < length (procs s). \<not> stride_ready (procs s) q \<and> \<not> mlfq_ready (procs s) q
      | Some p \<Rightarrow> p < length (procs s) \<and>
          (if stride_ready (procs s) p
           then (\<forall>q < length (procs s). stride_ready (procs s) q \<longrightarrow> p_pass (procs s ! p) \<le> p_pass (procs s ! q))
             \<and> ((\<exists>q < length (procs s). mlfq_ready (procs s) q) \<longrightarrow> p_pass (procs s ! p) < m_pass (mlfq s))
           else find (mlfq_ready (procs s)) (ring (length (procs s)) (m_pin (mlfq s))) = Some p
             \<and> m_pin (mlfq s') = p
             \<and> (\<forall>q < length (procs s). stride_ready (procs s) q \<longrightarrow> m_pass (mlfq s) \<le> p_pass (procs s ! q))))"
proof -
  let ?p2 = "find (mlfq_ready (procs s)) (ring (length (procs s)) (m_pin (mlfq s)))"
  have m: "mlfq_ready (procs s) b \<and> b < length (procs s) \<and> \<not> stride_ready (procs s) b" if "?p2 = Some b" for b
    using find_mem [OF that] set_ring [OF assms] by (auto simp: mlfq_ready_def stride_ready_def)
  show ?thesis
  proof (cases "getstrideproc s")
    case None
    note n = None
    show ?thesis
    proof (cases ?p2)
      case None
      then show ?thesis using n getstrideproc_None [of s] find_ring_None [OF assms, of "mlfq_ready (procs s)"]
        by (simp add: getschedproc_cases [OF assms])
    next
      case (Some b)
      then show ?thesis using n getstrideproc_None [of s] m [OF Some]
        by (simp add: getschedproc_cases [OF assms])
    qed
  next
    case (Some a)
    note a = getstrideproc_Some [OF Some]
    show ?thesis
    proof (cases ?p2)
      case None
      then show ?thesis using Some a find_ring_None [OF assms, of "mlfq_ready (procs s)"]
        by (auto simp: getschedproc_cases [OF assms])
    next
      case (Some b)
      then show ?thesis using \<open>getstrideproc s = Some a\<close> a m [OF Some]
        by (auto simp: getschedproc_cases [OF assms])
    qed
  qed
qed

theorem getschedproc_choice_witness:
  "\<exists>p s'. getschedproc demo = Ret (Some p) s' \<and> p < 3"
proof -
  have pin: "m_pin (mlfq demo) < length (procs demo)" by (simp add: demo_def boot_mlfq_def)
  have l: "length (procs demo) = 3" by (simp add: demo_def)
  have r: "mlfq_ready (procs demo) 1" by (simp add: demo_def mlfq_ready_def)
  from getschedproc_choice [OF pin] obtain po s' where g: "getschedproc demo = Ret po s'"
    and c: "case po of None \<Rightarrow> \<forall>q < length (procs demo). \<not> stride_ready (procs demo) q \<and> \<not> mlfq_ready (procs demo) q
      | Some p \<Rightarrow> p < length (procs demo)"
    by (auto split: option.splits)
  from g c l r show ?thesis by (cases po) auto
qed

text \<open>C5. No starvation among MLFQ processes, with or without the boost, because the choice is a round robin that ignores
  the queue levels: at successive MLFQ choices, whatever happens to the other processes in between, a process that is runnable at each of them is chosen after at most as
  many choices as it is slots away from the pin, hence within one round of the process table.\<close>

theorem mlfq_no_starvation:
  assumes choice: "\<And>k. \<exists>s'. getschedproc (st k) = Ret (Some (pick k)) s' \<and> mlfq_ready (procs (st k)) (pick k)
       \<and> m_pin (mlfq (st (Suc k))) = m_pin (mlfq s')"
    and len: "\<And>k. length (procs (st k)) = n"
    and pin: "m_pin (mlfq (st 0)) < n"
    and q: "q < n" "\<And>k. mlfq_ready (procs (st k)) q"
  shows "\<exists>k \<le> ring_dist n (m_pin (mlfq (st 0))) q. pick k = q"
proof -
  have step: "find (mlfq_ready (procs (st k))) (ring n (m_pin (mlfq (st k)))) = Some (m_pin (mlfq (st (Suc k))))
      \<and> m_pin (mlfq (st (Suc k))) = pick k" if "m_pin (mlfq (st k)) < n" for k
  proof -
    obtain s' where s': "getschedproc (st k) = Ret (Some (pick k)) s'" "mlfq_ready (procs (st k)) (pick k)"
      "m_pin (mlfq (st (Suc k))) = m_pin (mlfq s')" using choice by blast
    have p: "m_pin (mlfq (st k)) < length (procs (st k))" using that len by simp
    show ?thesis using s' getschedproc_cases [OF p] len [of k]
      by (auto split: option.splits if_splits dest!: getstrideproc_Some simp: stride_ready_def mlfq_ready_def)
  qed
  have bound: "m_pin (mlfq (st k)) < n" for k
  proof (induction k)
    case 0
    then show ?case using pin .
  next
    case (Suc k)
    then show ?case using find_mem [OF conjunct1 [OF step [OF Suc]]] set_ring [OF Suc] by auto
  qed
  have "\<exists>k \<le> ring_dist n (m_pin (mlfq (st 0))) q. m_pin (mlfq (st (Suc k))) = q"
    using ring_fair [of "\<lambda>k. mlfq_ready (procs (st k))" n "\<lambda>k. m_pin (mlfq (st k))" q] step bound q by blast
  then show ?thesis using step bound by auto
qed

theorem mlfq_no_starvation_witness:
  "\<exists>st :: nat \<Rightarrow> proc_state. \<exists>pick :: nat \<Rightarrow> nat. (\<forall>k. \<exists>s'. getschedproc (st k) = Ret (Some (pick k)) s')
     \<and> (\<exists>k \<le> ring_dist 3 1 1. pick k = 1)"
proof -
  let ?s = "demo\<lparr>mlfq := boot_mlfq\<lparr>m_pin := 1\<rparr>\<rparr>"
  have pin: "m_pin (mlfq ?s) < length (procs ?s)" by (simp add: demo_def)
  have n: "getstrideproc ?s = None"
    by (simp add: getstrideproc_None) (simp add: demo_def stride_ready_def idle_proc_def All_less_Suc eval_nat_numeral)
  have f: "find (mlfq_ready (procs ?s)) (ring (length (procs ?s)) (m_pin (mlfq ?s))) = Some 1"
    by (simp add: ring_def demo_def mlfq_ready_def idle_proc_def eval_nat_numeral)
  have g: "getschedproc ?s = Ret (Some 1) ?s"
    using getschedproc_cases [OF pin] unfolding f n by simp
  have r: "mlfq_ready (procs ?s) 1" by (simp add: demo_def mlfq_ready_def)
  have l: "length (procs ?s) = 3" by (simp add: demo_def)
  have "\<exists>k \<le> ring_dist 3 (m_pin (mlfq ?s)) 1. (\<lambda>_. 1 :: nat) k = 1"
    by (rule mlfq_no_starvation [of "\<lambda>_. ?s" "\<lambda>_. 1"]) (use g r l in auto)
  then show ?thesis using g by (intro exI [of _ "\<lambda>_. ?s"] exI [of _ "\<lambda>_. 1"]) simp
qed

lemma getmlfqproc_from_mono:
  assumes "getmlfqproc_from ps pin p = Some r" "length ps' = length ps" "\<And>i. i < length ps \<Longrightarrow> mlfq_ready ps' i = mlfq_ready ps i"
  shows "getmlfqproc_from ps' pin p = Some r"
  using assms
proof (induction rule: getmlfqproc_from.raw_induct [rotated, consumes 1])
  case (1 f ps pin p r)
  then show ?case
    by (subst getmlfqproc_from.simps) (auto simp: mlfq_ready_def split: if_splits)
qed

lemma getmlfqproc_from_cong:
  assumes "length ps' = length ps" "\<And>i. i < length ps \<Longrightarrow> mlfq_ready ps' i = mlfq_ready ps i"
  shows "getmlfqproc_from ps' pin p = getmlfqproc_from ps pin p"
proof (cases "getmlfqproc_from ps pin p")
  case (Some r)
  then show ?thesis using getmlfqproc_from_mono [OF Some assms] by simp
next
  case None
  show ?thesis
  proof (cases "getmlfqproc_from ps' pin p")
    case (Some r)
    then show ?thesis using getmlfqproc_from_mono [of ps' pin p r ps] assms None by simp
  qed (use None in simp)
qed

lemma word_less_shift:
  fixes x :: u32
  shows "m \<le> x \<Longrightarrow> m \<le> y \<Longrightarrow> x - m < y - m \<longleftrightarrow> x < y"
  by (simp add: word_less_nat_alt unat_sub_le word_le_nat_alt less_diff_iff)

lemma reduce_cases:
  obtains "reduce s = s" "\<And>b. reduce (s\<lparr>mlfq := (mlfq s)\<lparr>m_pin := b\<rparr>\<rparr>) = s\<lparr>mlfq := (mlfq s)\<lparr>m_pin := b\<rparr>\<rparr>"
  | "MAXPASS \<le> m_pass (mlfq s)"
    "\<And>i. i < length (procs s) \<Longrightarrow> p_stype (procs s ! i) = STRIDE \<Longrightarrow> MAXPASS \<le> p_pass (procs s ! i)"
    "\<And>b. reduce (s\<lparr>mlfq := (mlfq s)\<lparr>m_pin := b\<rparr>\<rparr>) = (reduce s)\<lparr>mlfq := (mlfq (reduce s))\<lparr>m_pin := b\<rparr>\<rparr>"
    "mlfq (reduce s) = (mlfq s)\<lparr>m_pass := m_pass (mlfq s) - MAXPASS\<rparr>"
    "procs (reduce s) = map (\<lambda>p. if p_stype p = STRIDE then p\<lparr>p_pass := p_pass p - MAXPASS\<rparr> else p) (procs s)"
proof (cases "m_pass (mlfq s) < MAXPASS \<or> list_ex (\<lambda>p. p_stype p = STRIDE \<and> p_pass p < MAXPASS) (procs s)")
  case True
  then show ?thesis by (intro that(1)) (auto simp: reduce_def)
next
  case False
  then have n: "\<not> m_pass (mlfq s) < MAXPASS" "\<not> list_ex (\<lambda>p. p_stype p = STRIDE \<and> p_pass p < MAXPASS) (procs s)"
    by simp_all
  then have "\<forall>p \<in> set (procs s). p_stype p = STRIDE \<longrightarrow> MAXPASS \<le> p_pass p"
    by (auto simp: list_ex_iff not_less)
  then show ?thesis using n by (intro that(2)) (simp_all add: reduce_def)
qed

text \<open>Only the order of the passes of the runnable stride processes matters.\<close>

lemma getstrideproc_cong:
  assumes len: "length (procs s') = length (procs s)"
    and r: "\<And>i. i < length (procs s) \<Longrightarrow> stride_ready (procs s') i = stride_ready (procs s) i"
    and l: "\<And>i j. i < length (procs s) \<Longrightarrow> j < length (procs s) \<Longrightarrow> stride_ready (procs s) i \<Longrightarrow> stride_ready (procs s) j \<Longrightarrow>
      p_pass (procs s' ! i) < p_pass (procs s' ! j) \<longleftrightarrow> p_pass (procs s ! i) < p_pass (procs s ! j)"
  shows "getstrideproc s' = getstrideproc s"
proof (cases "getstrideproc s")
  case None
  then show ?thesis using getstrideproc_None [of s] getstrideproc_None [of s'] r len by simp
next
  case (Some p)
  note p = getstrideproc_Some [OF Some]
  then obtain p' where p': "getstrideproc s' = Some p'"
    using getstrideproc_None [of s'] r len by (cases "getstrideproc s'") auto
  note q = getstrideproc_Some [OF p']
  have i: "p < length (procs s)" "p' < length (procs s)" "stride_ready (procs s) p" "stride_ready (procs s) p'"
    using p q r len by auto
  have "p_pass (procs s ! p) \<le> p_pass (procs s ! p')" "p_pass (procs s' ! p') \<le> p_pass (procs s' ! p)" using p q r len i by auto
  then have "p_pass (procs s ! p') = p_pass (procs s ! p)" "p_pass (procs s' ! p) = p_pass (procs s' ! p')"
    using l [OF i(1,2,3,4)] l [OF i(2,1,4,3)] by (metis order_le_less not_less)+
  then have "p \<le> p'" "p' \<le> p" using p q r len i by auto
  then show ?thesis using Some p' by simp
qed

lemma getstrideproc_shift:
  assumes "\<And>i. i < length (procs s) \<Longrightarrow> p_stype (procs s ! i) = STRIDE \<Longrightarrow> MAXPASS \<le> p_pass (procs s ! i)"
    and "procs s' = map (\<lambda>p. if p_stype p = STRIDE then p\<lparr>p_pass := p_pass p - MAXPASS\<rparr> else p) (procs s)"
  shows "getstrideproc s' = getstrideproc s"
proof (rule getstrideproc_cong)
  show "length (procs s') = length (procs s)" using assms(2) by simp
  show "stride_ready (procs s') i = stride_ready (procs s) i" if "i < length (procs s)" for i
    using that by (simp add: assms(2) stride_ready_def)
  show "p_pass (procs s' ! i) < p_pass (procs s' ! j) \<longleftrightarrow> p_pass (procs s ! i) < p_pass (procs s ! j)"
    if "i < length (procs s)" "j < length (procs s)" "stride_ready (procs s) i" "stride_ready (procs s) j" for i j
    using that assms(1) [of i] assms(1) [of j] word_less_shift [of MAXPASS "p_pass (procs s ! i)" "p_pass (procs s ! j)"]
    by (simp add: assms(2) stride_ready_def)
qed

text \<open>C13. Subtracting \<^verbatim>\<open>MAXPASS\<close> from all passes never changes a scheduling decision: choosing after
  \<^verbatim>\<open>reduce\<close> gives the same process and the same pin as choosing before it.\<close>

theorem reduce_same_choice:
  "getschedproc (reduce s) = andthen (getschedproc s) (\<lambda>p s'. Ret p (reduce s'))"
proof (cases rule: reduce_cases [of s])
  case 1
  then show ?thesis by (auto simp: getschedproc_def Let_def split: option.splits)
next
  case 2
  have m: "mlfq_ready (procs (reduce s)) i = mlfq_ready (procs s) i" if "i < length (procs s)" for i
    using that by (simp add: 2(5) mlfq_ready_def)
  have "length (procs (reduce s)) = length (procs s)" "m_pin (mlfq (reduce s)) = m_pin (mlfq s)"
    by (simp_all add: 2(4,5))
  then have f: "getmlfqproc (reduce s) = getmlfqproc s"
    using getmlfqproc_from_cong [OF _ m] by (simp add: getmlfqproc_def)
  have g: "getstrideproc (reduce s) = getstrideproc s" using 2(2,5) by (rule getstrideproc_shift)
  have "p_pass (procs (reduce s) ! a) < m_pass (mlfq (reduce s)) \<longleftrightarrow> p_pass (procs s ! a) < m_pass (mlfq s)"
    if "getstrideproc s = Some a" for a
    using getstrideproc_Some [OF that] 2(1) 2(2) [of a] word_less_shift [of MAXPASS "p_pass (procs s ! a)" "m_pass (mlfq s)"]
    by (simp add: 2(4,5) stride_ready_def)
  then show ?thesis
    by (auto simp: getschedproc_def Let_def f g 2(3) split: option.splits)
qed

text \<open>C35. The queue levels of the processes play no part in the choice: with any other levels
  \<open>f\<close> the same process is chosen. So a process of a lower queue is selected also when an upper queue is not empty;
  the level decides only how long a chosen process runs.\<close>

theorem mlfq_level_ignored:
  "getschedproc (s\<lparr>procs := map (\<lambda>pr. pr\<lparr>p_qlev := f pr\<rparr>) (procs s)\<rparr>) =
     andthen (getschedproc s) (\<lambda>p s'. Ret p (s'\<lparr>procs := map (\<lambda>pr. pr\<lparr>p_qlev := f pr\<rparr>) (procs s')\<rparr>))"
proof -
  let ?t = "s\<lparr>procs := map (\<lambda>pr. pr\<lparr>p_qlev := f pr\<rparr>) (procs s)\<rparr>"
  have "mlfq_ready (procs ?t) i = mlfq_ready (procs s) i" if "i < length (procs s)" for i
    using that by (simp add: mlfq_ready_def)
  then have f: "getmlfqproc ?t = getmlfqproc s" using getmlfqproc_from_cong [of "procs ?t" "procs s"] by (simp add: getmlfqproc_def)
  have g: "getstrideproc ?t = getstrideproc s"
    by (rule getstrideproc_cong) (simp_all add: stride_ready_def)
  have "p_pass (procs ?t ! a) = p_pass (procs s ! a)" if "getstrideproc s = Some a" for a
    using getstrideproc_Some [OF that] by simp
  then show ?thesis by (auto simp: getschedproc_def Let_def f g split: option.splits)
qed

end
