(* ===== verification/Dispatch.thy ===== *)
theory Dispatch
  imports Scheduler
begin

text \<open>
  What the scheduler of the theory \<open>Scheduler\<close> guarantees: the accounting of CPU shares by
  \<^verbatim>\<open>set_cpu_share\<close>, the decision \<^verbatim>\<open>sched\<close> takes at the end of a time slice, and one whole pass of the
  loop of \<^verbatim>\<open>scheduler\<close>.
\<close>

section \<open>CPU shares\<close>

definition reserved :: "proc \<Rightarrow> nat" where
  "reserved p = (if p_stype p = STRIDE then unat (p_share p) else 0)"

definition shares_total :: "'x proc_state_scheme \<Rightarrow> nat" where
  "shares_total s = unat (m_share (mlfq s)) + sum_list (map reserved (procs s))"

lemma sum_list_modify:
  fixes f :: "'a \<Rightarrow> nat"
  assumes "i < length xs"
  shows "sum_list (map f (modify i g xs)) + f (xs ! i) = sum_list (map f xs) + f (g (xs ! i))"
  using assms
proof (induction xs arbitrary: i)
  case Nil
  then show ?case by simp
next
  case (Cons x xs)
  then show ?case by (cases i) (fastforce simp: modify_def)+
qed

lemma reserved_le_total: "p < length (procs s) \<Longrightarrow> unat (m_share (mlfq s)) + reserved (procs s ! p) \<le> shares_total s"
  by (simp add: shares_total_def) (metis elem_le_sum_list length_map nth_map)

definition share_set :: "nat \<Rightarrow> u32 \<Rightarrow> u32 \<Rightarrow> 'x proc_state_scheme \<Rightarrow> 'x proc_state_scheme" where
  "share_set p share new s = s\<lparr>mlfq := (mlfq s)\<lparr>m_share := new\<rparr>,
     procs := modify p (\<lambda>pr. pr\<lparr>p_stype := STRIDE, p_qlev := 0, p_share := share, p_pass := m_pass (mlfq s)\<rparr>) (procs s)\<rparr>"

definition share_dropped :: "nat \<Rightarrow> 'x proc_state_scheme \<Rightarrow> 'x proc_state_scheme" where
  "share_dropped p s = (if p_stype (procs s ! p) = STRIDE
     then s\<lparr>mlfq := (mlfq s)\<lparr>m_share := m_share (mlfq s) + p_share (procs s ! p)\<rparr>,
       procs := modify p (\<lambda>pr. pr\<lparr>p_stype := MLFQ, p_qlev := HQLEV, p_share := 0, p_pass := 0\<rparr>) (procs s)\<rparr>
     else s)"

definition share_left :: "int \<Rightarrow> nat \<Rightarrow> 'x proc_state_scheme \<Rightarrow> u32" where
  "share_left share p s = m_share (mlfq s)
     + (if p_stype (procs s ! p) = STRIDE then p_share (procs s ! p) else 0) - of_int share"

lemma set_cpu_share_closed:
  assumes "lockable PtableLock (mach s)" "curproc (mach s) = Some p"
  shows "\<exists>m'. lockable PtableLock m' \<and> set_cpu_share share s =
     (if share \<le> 0 then Ret 0 (share_dropped p (s\<lparr>mach := m'\<rparr>))
      else if share_left share p s < 20 then Ret (- 1) (s\<lparr>mach := m'\<rparr>)
      else Ret 0 (share_set p (of_int share) (share_left share p s) (s\<lparr>mach := m'\<rparr>)))"
proof (intro exI conjI)
  show "lockable PtableLock (settle (settle (mach s)))" using assms(1) by simp
  show "set_cpu_share share s =
     (if share \<le> 0 then Ret 0 (share_dropped p (s\<lparr>mach := settle (settle (mach s))\<rparr>))
      else if share_left share p s < 20 then Ret (- 1) (s\<lparr>mach := settle (settle (mach s))\<rparr>)
      else Ret 0 (share_set p (of_int share) (share_left share p s) (s\<lparr>mach := settle (settle (mach s))\<rparr>)))"
    using assms by (simp add: set_cpu_share_def on_mach_def [of myproc] myproc_eq lockable_cpu_ok
        share_dropped_def share_set_def share_left_def Let_def)
qed

lemma reserved_set [simp]:
  "reserved (pr\<lparr>p_stype := STRIDE, p_qlev := q, p_share := w, p_pass := x\<rparr>) = unat w"
  by (simp add: reserved_def)

lemma share_left_exact:
  assumes "avail = unat (m_share (mlfq s)) + reserved (procs s ! p)" "avail < 2 ^ 32" "share \<le> int avail" "0 < share"
  shows "int (unat (share_left share p s)) = int avail - share"
proof -
  have a: "m_share (mlfq s) + (if p_stype (procs s ! p) = STRIDE then p_share (procs s ! p) else 0) = of_nat avail"
    using assms(1) by (simp add: reserved_def)
  then have "share_left share p s = word_of_int (int avail - share)"
    by (simp add: share_left_def)
  moreover have "int (unat (word_of_int (int avail - share) :: u32)) = int avail - share"
    using assms(2-4) by (intro int_unat_word_of_int) simp_all
  ultimately show ?thesis by (simp only:)
qed

text \<open>C8. \<^verbatim>\<open>set_cpu_share\<close> keeps the total of all reservations at 100 as long as no process asks for more
  than what is left plus its own share. A request is admitted exactly when at least 20 remain for
  the MLFQ class; then the process is a stride process with that share that starts at the pass of
  the class. A refused request changes nothing, and a request of 0 or less gives the share back and
  returns the process to the top queue. No other process is touched.\<close>

theorem set_cpu_share_admission:
  assumes "lockable PtableLock (mach s)" "curproc (mach s) = Some p" "p < length (procs s)"
    and total: "shares_total s = 100"
    and avail: "avail = unat (m_share (mlfq s)) + reserved (procs s ! p)" "share \<le> int avail"
  shows "\<exists>r s'. set_cpu_share share s = Ret r s' \<and> shares_total s' = 100
     \<and> (\<forall>q. q \<noteq> p \<longrightarrow> procs s' ! q = procs s ! q)
     \<and> (if share \<le> 0 then r = 0 \<and> p_stype (procs s' ! p) \<noteq> STRIDE \<and> reserved (procs s' ! p) = 0
         else if int avail - share < 20 then r = - 1 \<and> procs s' = procs s \<and> mlfq s' = mlfq s
         else r = 0 \<and> p_stype (procs s' ! p) = STRIDE \<and> int (reserved (procs s' ! p)) = share
           \<and> p_pass (procs s' ! p) = m_pass (mlfq s) \<and> int (unat (m_share (mlfq s'))) = int avail - share)"
proof -
  obtain m' where m': "set_cpu_share share s =
     (if share \<le> 0 then Ret 0 (share_dropped p (s\<lparr>mach := m'\<rparr>))
      else if share_left share p s < 20 then Ret (- 1) (s\<lparr>mach := m'\<rparr>)
      else Ret 0 (share_set p (of_int share) (share_left share p s) (s\<lparr>mach := m'\<rparr>)))"
    using set_cpu_share_closed [OF assms(1,2)] by blast
  have le: "avail \<le> 100" using reserved_le_total [OF assms(3)] total avail(1) by simp
  show ?thesis
  proof (cases "share \<le> 0")
    case True
    have "shares_total (share_dropped p (s\<lparr>mach := m'\<rparr>)) = 100"
    proof (cases "p_stype (procs s ! p) = STRIDE")
      case True
      have "unat (m_share (mlfq s) + p_share (procs s ! p)) = unat (m_share (mlfq s)) + unat (p_share (procs s ! p))"
        using le avail(1) True by (intro unat_plus_small) (simp add: reserved_def)
      then show ?thesis using True total sum_list_modify [OF assms(3), of reserved
            "\<lambda>pr. pr\<lparr>p_stype := MLFQ, p_qlev := HQLEV, p_share := 0, p_pass := 0\<rparr>"]
        by (simp add: share_dropped_def shares_total_def reserved_def)
    qed (use total in \<open>simp add: share_dropped_def shares_total_def\<close>)
    then show ?thesis using True m' assms(3) by (simp add: share_dropped_def reserved_def)
  next
    case False
    then have u: "int (unat (share_left share p s)) = int avail - share"
      using share_left_exact [OF avail(1) _ avail(2)] le by simp
    then have c: "share_left share p s < 20 \<longleftrightarrow> int avail - share < 20" by (simp add: word_less_alt)
    have w: "int (unat (word_of_int share :: u32)) = share"
      using False le avail(2) by (simp add: unsigned_of_int take_bit_int_eq_self)
    have "int (sum_list (map reserved (modify p (\<lambda>pr. pr\<lparr>p_stype := STRIDE, p_qlev := 0, p_share := of_int share,
        p_pass := m_pass (mlfq s)\<rparr>) (procs s)))) = int (sum_list (map reserved (procs s))) + share - int (reserved (procs s ! p))"
      using w sum_list_modify [OF assms(3), of reserved
          "\<lambda>pr. pr\<lparr>p_stype := STRIDE, p_qlev := 0, p_share := of_int share, p_pass := m_pass (mlfq s)\<rparr>"]
      unfolding reserved_set by linarith
    moreover have t: "int (unat (m_share (mlfq s))) + int (sum_list (map reserved (procs s))) = 100"
      using total unfolding shares_total_def by linarith
    ultimately have "int (shares_total (share_set p (of_int share) (share_left share p s) (s\<lparr>mach := m'\<rparr>))) = 100"
      using t u avail(1) unfolding shares_total_def share_set_def by simp
    then have "shares_total (share_set p (of_int share) (share_left share p s) (s\<lparr>mach := m'\<rparr>)) = 100"
      by linarith
    moreover have "shares_total (s\<lparr>mach := m'\<rparr>) = 100" using total by (simp add: shares_total_def)
    ultimately show ?thesis using False m' c u w assms(3) by (simp add: share_set_def)
  qed
qed

text \<open>C11. The admission test is an unsigned comparison after an unsigned subtraction, so a request
  for more than what is left passes it: every share above the available one, up to the largest
  \<^verbatim>\<open>int\<close>, is granted, and the MLFQ class is credited with almost \<open>2\<^sup>3\<^sup>2\<close>.\<close>

theorem set_cpu_share_overcommit:
  assumes "lockable PtableLock (mach s)" "curproc (mach s) = Some p" "p < length (procs s)"
    and avail: "avail = unat (m_share (mlfq s)) + reserved (procs s ! p)" "avail \<le> 100"
    and share: "int avail < share" "share < 2 ^ 31"
  shows "\<exists>s'. set_cpu_share share s = Ret 0 s' \<and> p_stype (procs s' ! p) = STRIDE
     \<and> int (reserved (procs s' ! p)) = share \<and> int (unat (m_share (mlfq s'))) = 2 ^ 32 + int avail - share"
proof -
  obtain m' where m': "set_cpu_share share s =
     (if share \<le> 0 then Ret 0 (share_dropped p (s\<lparr>mach := m'\<rparr>))
      else if share_left share p s < 20 then Ret (- 1) (s\<lparr>mach := m'\<rparr>)
      else Ret 0 (share_set p (of_int share) (share_left share p s) (s\<lparr>mach := m'\<rparr>)))"
    using set_cpu_share_closed [OF assms(1,2)] by blast
  have w: "int (unat (word_of_int share :: u32)) = share"
    using share by (intro int_unat_word_of_int) auto
  have "m_share (mlfq s) + (if p_stype (procs s ! p) = STRIDE then p_share (procs s ! p) else 0) = of_nat avail"
    using avail(1) by (simp add: reserved_def)
  then have "share_left share p s = word_of_int (2 ^ 32 + int avail - share)"
    by (simp add: share_left_def)
  moreover have "int (unat (word_of_int (2 ^ 32 + int avail - share) :: u32)) = 2 ^ 32 + int avail - share"
    using share avail(2) by (intro int_unat_word_of_int) auto
  ultimately have u: "int (unat (share_left share p s)) = 2 ^ 32 + int avail - share" by (simp only:)
  then have "\<not> share_left share p s < 20" using share avail(2) by (simp add: word_less_alt)
  then show ?thesis using m' share avail(2) u w assms(3) by (simp add: share_set_def)
qed

definition running :: "nat \<Rightarrow> 'x proc_state_scheme \<Rightarrow> 'x proc_state_scheme" where
  "running p s = on_cpu (cpu_index (mach s)) (\<lambda>c. c\<lparr>c_proc := Some p\<rparr>) s"

lemma running_cpu:
  assumes "lockable lk (mach s)"
  shows "lockable lk (mach (running p s))" "curproc (mach (running p s)) = Some p"
    "procs (running p s) = procs s" "mlfq (running p s) = mlfq s"
proof -
  note i = cpu_ok_index [OF lockable_cpu_ok [OF assms]]
  have x: "cpu_index (mach (running p s)) = cpu_index (mach s)"
    by (simp add: running_def on_cpu_def cpu_index_def first_such_modify)
  show "curproc (mach (running p s)) = Some p" unfolding curproc_def x
    using i by (simp add: running_def on_cpu_def)
  show "lockable lk (mach (running p s))"
    using assms i unfolding lockable_def cpu_ok_def x
    by (simp add: running_def on_cpu_def first_such_modify readeflags_IF_def)
qed (simp_all add: running_def on_cpu_def)





lemma demo_shares:
  "reserved (procs (running 1 demo) ! 1) = 0" "length (procs (running 1 demo)) = 3"
  "unat (m_share (mlfq (running 1 demo))) = 100" "shares_total (running 1 demo) = 100"
proof -
  note r = running_cpu(3,4) [OF demo_lockable, of 1]
  show "reserved (procs (running 1 demo) ! 1) = 0" "length (procs (running 1 demo)) = 3"
    "unat (m_share (mlfq (running 1 demo))) = 100"
    unfolding r by (simp_all add: demo_def reserved_def boot_mlfq_def)
  show "shares_total (running 1 demo) = 100"
    unfolding r shares_total_def by (simp add: demo_def reserved_def boot_mlfq_def idle_proc_def)
qed

theorem set_cpu_share_overcommit_witness:
  "\<exists>s'. set_cpu_share 200 (running 1 demo) = Ret 0 s' \<and> int (reserved (procs s' ! 1)) = 200"
  using set_cpu_share_overcommit [OF running_cpu(1,2) [OF demo_lockable], of 1 100 200]
  unfolding demo_shares by (simp, blast)

theorem set_cpu_share_admission_witness:
  "\<exists>r s'. set_cpu_share 80 (running 1 demo) = Ret r s' \<and> shares_total s' = 100"
  using set_cpu_share_admission [OF running_cpu(1,2) [OF demo_lockable] _ demo_shares(4), of 100 80]
  unfolding demo_shares by (simp, blast)

section \<open>The switching CPU\<close>

text \<open>Updates of the CPU that leave its identity, its interrupt nesting and its current process and
  thread alone, and machines that agree in these.\<close>

definition tame :: "(cpu \<Rightarrow> cpu) \<Rightarrow> bool" where
  "tame f \<longleftrightarrow> (\<forall>cp. apicid (f cp) = apicid cp \<and> ncli (f cp) = ncli cp \<and> intena (f cp) = intena cp)"

definition cpu_frame :: "machine \<Rightarrow> machine \<Rightarrow> bool" where
  "cpu_frame m m' \<longleftrightarrow> locks m' = locks m \<and> lapicid m' = lapicid m \<and> cpu_index m' = cpu_index m
     \<and> ncli (this_cpu m') = ncli (this_cpu m) \<and> intena (this_cpu m') = intena (this_cpu m)
     \<and> readeflags_IF m' = readeflags_IF m \<and> cpu_ok m'"

lemma tame_index: "tame f \<Longrightarrow> cpu_index (m\<lparr>cpus := modify i f (cpus m)\<rparr>) = cpu_index m"
  by (simp add: cpu_index_def first_such_modify tame_def)

lemma tame_cpu:
  assumes "tame f" "cpu_ok m"
  shows "this_cpu (m\<lparr>cpus := modify (cpu_index m) f (cpus m)\<rparr>) = f (this_cpu m)"
  using cpu_ok_index [OF assms(2)] by (simp add: tame_index [OF assms(1)])

lemma cpu_frame_tame:
  assumes "tame f" "cpu_ok m"
  shows "cpu_frame m (m\<lparr>cpus := modify (cpu_index m) f (cpus m)\<rparr>)"
proof -
  note t = tame_cpu [OF assms] tame_index [OF assms(1), of "cpu_index m" m]
  have "first_such (\<lambda>c. apicid c = lapicid m) (modify (cpu_index m) f (cpus m)) \<noteq> None"
    using assms by (simp add: first_such_modify tame_def cpu_ok_def)
  then show ?thesis using assms t unfolding cpu_frame_def cpu_ok_def by (simp add: tame_def readeflags_IF_def)
qed

lemma cpu_frame_cr3:
  assumes "cpu_ok m"
  shows "cpu_frame m (m\<lparr>cr3 := x\<rparr>)" "this_cpu (m\<lparr>cr3 := x\<rparr>) = this_cpu m"
proof -
  have i: "cpu_index (m\<lparr>cr3 := x\<rparr>) = cpu_index m" by (simp add: cpu_index_def)
  then show "this_cpu (m\<lparr>cr3 := x\<rparr>) = this_cpu m" by simp
  show "cpu_frame m (m\<lparr>cr3 := x\<rparr>)" using assms i unfolding cpu_frame_def cpu_ok_def by (simp add: readeflags_IF_def)
qed

lemma cpu_frameD:
  "cpu_frame m m' \<Longrightarrow> locks m' = locks m" "cpu_frame m m' \<Longrightarrow> cpu_index m' = cpu_index m"
  "cpu_frame m m' \<Longrightarrow> ncli (this_cpu m') = ncli (this_cpu m)" "cpu_frame m m' \<Longrightarrow> cpu_ok m'"
  "cpu_frame m m' \<Longrightarrow> holds lk m' = holds lk m"
  unfolding cpu_frame_def holds_def by (elim conjE; simp)+

lemma cpu_frame_trans: "cpu_frame a b \<Longrightarrow> cpu_frame b c \<Longrightarrow> cpu_frame a c"
  unfolding cpu_frame_def by (elim conjE) simp

text \<open>A nested \<^verbatim>\<open>pushcli\<close> and \<^verbatim>\<open>popcli\<close> around an update.\<close>

lemma nested_pop:
  assumes "cpu_ok m" "0 < ncli (this_cpu m)" "cpu_frame (pushed m) m'"
  shows "popcli m' = Ret () (popped m')" "cpu_frame m (popped m')"
    "this_cpu (popped m') = (this_cpu m')\<lparr>ncli := ncli (this_cpu m)\<rparr>" "cr3 (popped m') = cr3 m'"
proof -
  have n: "ncli (this_cpu m') = ncli (this_cpu m) + 1" "cpu_ok m'" "cpu_index m' = cpu_index m"
    "lapicid m' = lapicid m" "locks m' = locks m" "\<not> readeflags_IF m'"
    "intena (this_cpu m') = intena (this_cpu m)"
    using assms(2,3) this_cpu_pushed [OF assms(1)] unfolding cpu_frame_def by (elim conjE, simp)+
  then have pos: "0 < ncli (this_cpu m')" using assms(2) by simp
  show "popcli m' = Ret () (popped m')" by (rule popcli_eq [OF n(2) pos])
  have t: "this_cpu (popped m') = (this_cpu m')\<lparr>ncli := ncli (this_cpu m')- 1\<rparr>" using n(2) by (rule this_cpu_popped)
  then show "this_cpu (popped m') = (this_cpu m')\<lparr>ncli := ncli (this_cpu m)\<rparr>" using n(1) by simp
  have f: "popped m' = m'\<lparr>cpus := modify (cpu_index m') (\<lambda>cp. cp\<lparr>ncli := ncli cp - 1\<rparr>) (cpus m')\<rparr>"
    using n(1) assms(2) by (simp add: popped_def Let_def)
  then show "cr3 (popped m') = cr3 m'" by simp
  have "locks (popped m') = locks m'" "lapicid (popped m') = lapicid m'" "readeflags_IF (popped m') = readeflags_IF m'"
    by (simp_all add: f readeflags_IF_def)
  moreover have "cpu_ok (popped m')" using cpu_ok_popped [OF n(2) pos] .
  moreover have "readeflags_IF m = False" using assms(1,2) by (simp add: cpu_ok_def)
  ultimately show "cpu_frame m (popped m')" using n t by (simp add: cpu_frame_def)
qed

lemma switchuvm_ok:
  assumes "cpu_ok (mach s)" "0 < ncli (this_cpu (mach s))" "p_pgdir (procs s ! p) \<noteq> 0"
    and "p_pin (procs s ! p) = Some t" "t_kstack (threads s ! t) \<noteq> 0"
  shows "\<exists>m'. switchuvm (Some p) s = Ret () (s\<lparr>mach := m'\<rparr>) \<and> cpu_frame (mach s) m'
     \<and> curproc m' = curproc (mach s) \<and> curthd m' = curthd (mach s)
     \<and> ts_esp0 (this_cpu m') = t_kstack (threads s ! t) + KSTACKSIZE
     \<and> cr3 m' (lapicid m') = V2P (p_pgdir (procs s ! p))"
proof -
  let ?m = "pushed (mach s)"
  let ?f = "\<lambda>cp. cp\<lparr>gdt_tss := Some \<lparr>sd_type = STS_T32A, sd_base = cpu_index (mach s), sd_limit = 103, sd_s = False, sd_dpl = 0\<rparr>,
     ts_ss0 := of_nat (SEG_KDATA * 8), ts_esp0 := t_kstack (threads s ! t) + KSTACKSIZE, ts_iomb := 0xFFFF,
     tr_sel := of_nat (SEG_TSS * 8)\<rparr>"
  let ?n = "?m\<lparr>cpus := modify (cpu_index ?m) ?f (cpus ?m)\<rparr>"
  let ?k = "?n\<lparr>cr3 := (cr3 ?n)(lapicid ?n := V2P (p_pgdir (procs s ! p)))\<rparr>"
  have ok: "cpu_ok ?m" using assms(1) by simp
  have t: "tame ?f" by (simp add: tame_def)
  have n: "cpu_frame ?m ?n" "this_cpu ?n = ?f (this_cpu ?m)" "cpu_ok ?n"
    using cpu_frame_tame [OF t ok] tame_cpu [OF t ok] by (simp_all add: cpu_frame_def)
  have k: "cpu_frame ?m ?k" "this_cpu ?k = ?f (this_cpu ?m)"
    using cpu_frame_trans [OF n(1) cpu_frame_cr3(1) [OF n(3)]] cpu_frame_cr3(2) [OF n(3)] n(2) by simp_all
  note e = nested_pop [OF assms(1,2) k(1)]
  have "switchuvm (Some p) s = Ret () (s\<lparr>mach := popped ?k\<rparr>)"
    using assms(3-5) e(1) pushcli_eq [OF assms(1)] mycpu_ok [OF ok]
    by (simp add: switchuvm_def on_mach_def Let_def on_cpu_def lcr3_def modify_modify)
  moreover have "curproc (popped ?k) = curproc (mach s)" "curthd (popped ?k) = curthd (mach s)"
    "ts_esp0 (this_cpu (popped ?k)) = t_kstack (threads s ! t) + KSTACKSIZE"
    unfolding curproc_def curthd_def e(3) k(2) using this_cpu_pushed [OF assms(1)] by simp_all
  moreover have "lapicid (popped ?k) = lapicid ?k" using e(2) by (simp add: cpu_frame_def)
  ultimately show ?thesis using e(2,4) by (intro exI [of _ "popped ?k"]) simp
qed

section \<open>One pass of the scheduler\<close>

text \<open>What the scheduler relies on: the pin of the MLFQ class is in the table, the states of
  processes and threads agree, a runnable process has a page directory and a pin in the
  thread table, and a runnable thread has a kernel stack.\<close>

definition sched_wf :: "'x proc_state_scheme \<Rightarrow> bool" where
  "sched_wf s \<longleftrightarrow> m_pin (mlfq s) < length (procs s) \<and> states_agree s
     \<and> (\<forall>p < length (procs s). p_state (procs s ! p) = RUNNABLE \<longrightarrow> p_pgdir (procs s ! p) \<noteq> 0
          \<and> (\<exists>pin < length (threads s). p_pin (procs s ! p) = Some pin))
     \<and> (\<forall>t < length (threads s). t_state (threads s ! t) = RUNNABLE \<longrightarrow> t_kstack (threads s ! t) \<noteq> 0)"

text \<open>\<open>same_tables\<close>: nothing but passes and queue levels differ.\<close>

definition same_tables :: "'x proc_state_scheme \<Rightarrow> 'x proc_state_scheme \<Rightarrow> bool" where
  "same_tables s s' \<longleftrightarrow> mach s' = mach s \<and> threads s' = threads s \<and> length (procs s') = length (procs s)
     \<and> m_pin (mlfq s') = m_pin (mlfq s)
     \<and> (\<forall>p < length (procs s). p_state (procs s' ! p) = p_state (procs s ! p) \<and> p_stype (procs s' ! p) = p_stype (procs s ! p)
          \<and> p_pin (procs s' ! p) = p_pin (procs s ! p) \<and> p_pgdir (procs s' ! p) = p_pgdir (procs s ! p))"

lemma same_tables_boost: "same_tables s (boost s)"
  by (simp add: same_tables_def boost_def)

lemma same_tables_reduce: "same_tables s (reduce s)"
  by (simp add: same_tables_def reduce_def)

lemma same_tables_trans: "same_tables a b \<Longrightarrow> same_tables b c \<Longrightarrow> same_tables a c"
  by (simp add: same_tables_def)

lemma sched_wf_same: "same_tables s s' \<Longrightarrow> sched_wf s \<Longrightarrow> sched_wf s'"
  by (simp add: same_tables_def sched_wf_def states_agree_def)

lemma ready_same:
  assumes "same_tables s s'" "p < length (procs s)"
  shows "mlfq_ready (procs s') p = mlfq_ready (procs s) p" "stride_ready (procs s') p = stride_ready (procs s) p"
  using assms by (simp_all add: same_tables_def mlfq_ready_def stride_ready_def)

lemma runnable_thread_ex:
  assumes "states_agree s" "p < length (procs s)" "p_state (procs s ! p) = RUNNABLE"
  shows "\<exists>t < length (threads s). thread_ready (threads s) p t"
proof -
  have "max_thread_state p (threads s) = RUNNABLE" using assms by (simp add: states_agree_def)
  then show ?thesis using max_thread_state_attained [of p "threads s"]
    by (auto simp: thread_ready_def in_set_conv_nth)
qed

lemma nextthd_runnable:
  assumes "sched_wf s" "p < length (procs s)" "p_state (procs s ! p) = RUNNABLE"
  obtains t where "nextthd p s = Ret (Some t) (upd_proc p (\<lambda>pr. pr\<lparr>p_pin := Some t\<rparr>) s)"
    "t < length (threads s)" "thread_ready (threads s) p t" "t_kstack (threads s ! t) \<noteq> 0"
proof -
  obtain pin where pin: "pin < length (threads s)" "p_pin (procs s ! p) = Some pin"
    using assms by (auto simp: sched_wf_def)
  obtain t' where "t' < length (threads s)" "thread_ready (threads s) p t'"
    using runnable_thread_ex [OF _ assms(2,3)] assms(1) by (auto simp: sched_wf_def)
  then obtain t where t: "find (thread_ready (threads s) p) (ring (length (threads s)) pin) = Some t"
    using find_ring_None [OF pin(1), of "thread_ready (threads s) p"] by fastforce
  then have "t < length (threads s)" "thread_ready (threads s) p t"
    using find_mem [OF t] set_ring [OF pin(1)] by auto
  moreover have "t_kstack (threads s ! t) \<noteq> 0"
    using calculation assms(1) by (simp add: sched_wf_def thread_ready_def)
  moreover have "nextthd p s = Ret (Some t) (upd_proc p (\<lambda>pr. pr\<lparr>p_pin := Some t\<rparr>) s)"
    using nextthd_find [OF pin(2,1)] t by simp
  ultimately show ?thesis by (intro that)
qed

lemma getschedproc_wf:
  assumes "sched_wf s"
  obtains "getschedproc s = Ret None s" "\<And>q. q < length (procs s) \<Longrightarrow> \<not> mlfq_ready (procs s) q \<and> \<not> stride_ready (procs s) q"
  | p s' where "getschedproc s = Ret (Some p) s'" "p < length (procs s)" "mlfq_ready (procs s) p \<or> stride_ready (procs s) p"
    "mach s' = mach s" "procs s' = procs s" "threads s' = threads s" "sched_wf s'"
proof -
  have pin: "m_pin (mlfq s) < length (procs s)" using assms by (simp add: sched_wf_def)
  let ?p2 = "find (mlfq_ready (procs s)) (ring (length (procs s)) (m_pin (mlfq s)))"
  note c = getschedproc_cases [OF pin]
  have w: "sched_wf (s\<lparr>mlfq := (mlfq s)\<lparr>m_pin := b\<rparr>\<rparr>)" if "b < length (procs s)" for b
    using that assms by (simp add: sched_wf_def states_agree_def)
  have m: "mlfq_ready (procs s) b \<and> b < length (procs s)" if "?p2 = Some b" for b
    using find_mem [OF that] set_ring [OF pin] by auto
  show ?thesis
  proof (cases "getstrideproc s")
    case None
    note n = None
    show ?thesis
    proof (cases ?p2)
      case None
      then show ?thesis using n c getstrideproc_None [of s] find_ring_None [OF pin, of "mlfq_ready (procs s)"]
        by (intro that(1)) simp_all
    next
      case (Some b)
      then show ?thesis using n c m [OF Some] w [of b]
        by (intro that(2) [of b "s\<lparr>mlfq := (mlfq s)\<lparr>m_pin := b\<rparr>\<rparr>"]) simp_all
    qed
  next
    case (Some a)
    then have a: "a < length (procs s)" "stride_ready (procs s) a" using getstrideproc_Some by blast+
    show ?thesis
    proof (cases "?p2 = None \<or> p_pass (procs s ! a) < m_pass (mlfq s)")
      case True
      then have "getschedproc s = Ret (Some a) s" using Some c by (cases ?p2) simp_all
      then show ?thesis using a assms by (intro that(2) [of a s]) simp_all
    next
      case False
      then obtain b where b: "?p2 = Some b" by auto
      then show ?thesis using Some c m [OF b] w [of b] False
        by (intro that(2) [of b "s\<lparr>mlfq := (mlfq s)\<lparr>m_pin := b\<rparr>\<rparr>"]) simp_all
    qed
  qed
qed

lemma lockable_sti:
  assumes "lockable lk m" "ncli (this_cpu m) = 0"
  shows "lockable lk (sti m)" "cpu_index (sti m) = cpu_index m" "locks (sti m) = locks m"
    "cpus (sti m) = cpus m"
proof -
  show i: "cpu_index (sti m) = cpu_index m" "locks (sti m) = locks m" "cpus (sti m) = cpus m"
    by (simp_all add: cpu_index_def sti_def)
  have "lapicid (sti m) = lapicid m" by (simp add: sti_def)
  then show "lockable lk (sti m)" using assms i unfolding lockable_def cpu_ok_def by simp
qed

text \<open>The part of a pass after the choice of \<open>p\<close>, on a machine that holds the table lock.\<close>

lemma dispatch_ok:
  assumes wf: "sched_wf s" and p: "p < length (procs s)" "p_state (procs s ! p) = RUNNABLE"
    and m: "cpu_ok (mach s)" "ncli (this_cpu (mach s)) = 1" "c = cpu_index (mach s)"
  shows "\<exists>t s1 s2. nextthd p s = Ret (Some t) s1
     \<and> switchuvm (Some p) (on_cpu c (\<lambda>cp. cp\<lparr>c_proc := Some p, c_thd := Some t\<rparr>) s1) = Ret () s2
     \<and> t < length (threads s) \<and> thread_ready (threads s) p t \<and> threads s2 = threads s
     \<and> procs s2 = modify p (\<lambda>pr. pr\<lparr>p_pin := Some t\<rparr>) (procs s) \<and> cpu_frame (mach s) (mach s2)
     \<and> curproc (mach s2) = Some p \<and> curthd (mach s2) = Some t
     \<and> ts_esp0 (this_cpu (mach s2)) = t_kstack (threads s ! t) + KSTACKSIZE
     \<and> cr3 (mach s2) (lapicid (mach s2)) = V2P (p_pgdir (procs s ! p))"
proof -
  obtain t where t: "nextthd p s = Ret (Some t) (upd_proc p (\<lambda>pr. pr\<lparr>p_pin := Some t\<rparr>) s)"
    "t < length (threads s)" "thread_ready (threads s) p t" "t_kstack (threads s ! t) \<noteq> 0"
    using nextthd_runnable [OF wf p] by blast
  let ?f = "\<lambda>cp. cp\<lparr>c_proc := Some p, c_thd := Some t\<rparr>"
  let ?s1 = "upd_proc p (\<lambda>pr. pr\<lparr>p_pin := Some t\<rparr>) s"
  let ?s = "on_cpu c ?f ?s1"
  have f: "tame ?f" by (simp add: tame_def)
  have ms: "mach ?s = (mach s)\<lparr>cpus := modify (cpu_index (mach s)) ?f (cpus (mach s))\<rparr>"
    by (simp add: on_cpu_def m(3))
  have fr: "cpu_frame (mach s) (mach ?s)" unfolding ms by (rule cpu_frame_tame [OF f m(1)])
  have cu: "curproc (mach ?s) = Some p" "curthd (mach ?s) = Some t"
    unfolding curproc_def curthd_def ms tame_cpu [OF f m(1)] by simp_all
  have pg: "p_pgdir (procs s ! p) \<noteq> 0" using wf p by (simp add: sched_wf_def)
  have e: "procs ?s = procs ?s1" "threads ?s = threads s" by (simp_all add: on_cpu_def)
  have "cpu_ok (mach ?s)" "0 < ncli (this_cpu (mach ?s))" using cpu_frameD(3,4) [OF fr] m(2) by simp_all
  moreover have "p_pgdir (procs ?s ! p) \<noteq> 0" "p_pin (procs ?s ! p) = Some t" "t_kstack (threads ?s ! t) \<noteq> 0"
    unfolding e using pg p(1) t(4) by simp_all
  ultimately obtain m' where m': "switchuvm (Some p) ?s = Ret () (?s\<lparr>mach := m'\<rparr>)" "cpu_frame (mach ?s) m'"
     "curproc m' = curproc (mach ?s)" "curthd m' = curthd (mach ?s)"
     "ts_esp0 (this_cpu m') = t_kstack (threads ?s ! t) + KSTACKSIZE"
     "cr3 m' (lapicid m') = V2P (p_pgdir (procs ?s ! p))"
    using switchuvm_ok [of ?s p t] by blast
  have "cpu_frame (mach s) m'" using cpu_frame_trans [OF fr m'(2)] .
  moreover have "p_pgdir (procs ?s ! p) = p_pgdir (procs s ! p)" unfolding e using p(1) by simp
  ultimately show ?thesis using t(1-3) m' cu
    by (intro exI [of _ t] exI [of _ ?s1] exI [of _ "?s\<lparr>mach := m'\<rparr>"]) (simp add: e)
qed

text \<open>C2. A pass of the scheduler never panics, never hangs and never switches to the wrong thing:
  started on a CPU without locks it either finds no process ready under any policy and frees the
  table lock again, or it switches, with the table lock held, to a runnable thread of a ready
  process, with that thread and process as the current ones of the CPU, the thread marked running,
  the tick count of the process cleared, the kernel stack of the thread in the task state and the page
  directory of the process loaded. The tables are assumed well formed (\<open>sched_wf\<close>): process states agree with those of the threads, the pins are
  inside the tables, a runnable process has a page directory and a runnable thread a kernel stack. In particular \<^verbatim>\<open>no thread in process\<close> cannot happen.\<close>

theorem scheduler_pass:
  assumes wf: "sched_wf s" and lk: "lockable PtableLock (mach s)" "ncli (this_cpu (mach s)) = 0"
    and c: "c = cpu_index (mach s)"
  shows "\<exists>po s'. scheduler c s = Ret po s' \<and>
     (case po of
        None \<Rightarrow> (\<forall>q < length (procs s). \<not> mlfq_ready (procs s) q \<and> \<not> stride_ready (procs s) q)
          \<and> locks (mach s') PtableLock = free_lock
      | Some (p, t) \<Rightarrow> p < length (procs s) \<and> (mlfq_ready (procs s) p \<or> stride_ready (procs s) p)
          \<and> thread_ready (threads s) p t \<and> t_state (threads s' ! t) = RUNNING \<and> p_ticks (procs s' ! p) = 0
          \<and> states_agree s' \<and> holds PtableLock (mach s') \<and> curproc (mach s') = Some p \<and> curthd (mach s') = Some t
          \<and> ts_esp0 (this_cpu (mach s')) = t_kstack (threads s ! t) + KSTACKSIZE
          \<and> cr3 (mach s') (lapicid (mach s')) = V2P (p_pgdir (procs s ! p)))"
proof -
  let ?m = "sti (mach s)"
  let ?s1 = "s\<lparr>mach := taken PtableLock ?m\<rparr>"
  let ?s2 = "boost (reduce ?s1)"
  note l = lockable_sti [OF lk]
  have same: "same_tables ?s1 ?s2" by (rule same_tables_trans [OF same_tables_reduce same_tables_boost])
  have wf1: "sched_wf ?s1" using wf by (simp add: sched_wf_def states_agree_def)
  have wf2: "sched_wf ?s2" by (rule sched_wf_same [OF same wf1])
  have m2: "mach ?s2 = taken PtableLock ?m" "length (procs ?s2) = length (procs s)" "threads ?s2 = threads s"
    using same by (simp_all add: same_tables_def)
  have r: "mlfq_ready (procs ?s2) q = mlfq_ready (procs s) q" "stride_ready (procs ?s2) q = stride_ready (procs s) q"
    if "q < length (procs s)" for q using ready_same [OF same] that by simp_all
  have start: "scheduler c s = andthen (getschedproc ?s2) (\<lambda>po s.
        case po of
          None \<Rightarrow> andthen (krelease PtableLock s) (\<lambda>_ s. Ret None s)
        | Some p \<Rightarrow> andthen (nextthd p s) (\<lambda>ot s. case ot of
                None \<Rightarrow> Panic ''no thread in process (scheduler)''
              | Some t \<Rightarrow> andthen (switchuvm (Some p) (on_cpu c (\<lambda>cp. cp\<lparr>c_proc := Some p, c_thd := Some t\<rparr>) s)) (\<lambda>_ s.
                    Ret (Some (p, t)) (setstate p t RUNNING (upd_proc p (\<lambda>pr. pr\<lparr>p_ticks := 0\<rparr>) s)))))"
    unfolding scheduler_def Let_def using l(1) by simp
  from wf2 show ?thesis
  proof (cases rule: getschedproc_wf)
    case 1
    have "krelease PtableLock ?s2 = Ret () (?s2\<lparr>mach := settle ?m\<rparr>)" using m2(1) l(1) by simp
    then show ?thesis using 1 r m2(2) lk(1) l(3) by (simp add: start lockable_def)
  next
    case (2 p s')
    have ms: "cpu_ok (mach s')" "ncli (this_cpu (mach s')) = 1" "c = cpu_index (mach s')" "holds PtableLock (mach s')"
      using 2(4) m2(1) l lk(2) c ncli_taken [OF lockable_cpu_ok [OF l(1)]] by simp_all
    have st: "p_state (procs s' ! p) = RUNNABLE" "p < length (procs s')"
      using 2(2,3,5) by (auto simp: mlfq_ready_def stride_ready_def)
    obtain t s1 s2 where d: "nextthd p s' = Ret (Some t) s1"
      "switchuvm (Some p) (on_cpu c (\<lambda>cp. cp\<lparr>c_proc := Some p, c_thd := Some t\<rparr>) s1) = Ret () s2"
      "t < length (threads s')" "thread_ready (threads s') p t" "threads s2 = threads s'"
      "procs s2 = modify p (\<lambda>pr. pr\<lparr>p_pin := Some t\<rparr>) (procs s')" "cpu_frame (mach s') (mach s2)"
      "curproc (mach s2) = Some p" "curthd (mach s2) = Some t"
      "ts_esp0 (this_cpu (mach s2)) = t_kstack (threads s' ! t) + KSTACKSIZE"
      "cr3 (mach s2) (lapicid (mach s2)) = V2P (p_pgdir (procs s' ! p))"
      using dispatch_ok [OF 2(7) st(2,1) ms(1,2,3)] by blast
    let ?u = "upd_proc p (\<lambda>pr. pr\<lparr>p_ticks := 0\<rparr>) s2"
    let ?s' = "setstate p t RUNNING ?u"
    have "states_agree ?u" using 2(7) d(5,6) by (simp add: sched_wf_def states_agree_def nth_modify)
    then have ag: "states_agree ?s'"
      using d(3,4,5,6) st(2) by (intro states_agree_setstate) (simp_all add: thread_ready_def)
    have sched: "scheduler c s = Ret (Some (p, t)) ?s'" using start 2(1) d(1,2) by simp
    have ps: "p < length (procs s)" using 2(2) m2(2) by simp
    have th: "thread_ready (threads s) p t" using d(4) 2(6) m2(3) by simp
    have run: "t_state (threads ?s' ! t) = RUNNING" using d(3,5) by simp
    have tk: "p_ticks (procs ?s' ! p) = 0" using d(6) st(2) by (simp add: setstate_procs)
    have pg: "p_pgdir (procs s' ! p) = p_pgdir (procs s ! p)" using same ps 2(5) by (simp add: same_tables_def)
    have rd: "mlfq_ready (procs s) p \<or> stride_ready (procs s) p" using 2(3) r [OF ps] by simp
    have hd: "holds PtableLock (mach s2)" using cpu_frameD(5) [OF d(7)] ms(4) by simp
    show ?thesis
      using sched ag ps th run tk pg rd hd d(8-11) 2(6) m2(3)
      by (intro exI [of _ "Some (p, t)"] exI [of _ ?s']) simp
  qed
qed

definition ready_demo :: proc_state where
  "ready_demo = demo\<lparr>procs := modify 1 (\<lambda>pr. pr\<lparr>p_pgdir := 0x80401000, p_pin := Some 2\<rparr>) (procs demo),
     threads := modify 1 (\<lambda>th. th\<lparr>t_kstack := 0x80402000\<rparr>) (threads demo)\<rparr>"

lemma ready_demo_wf: "sched_wf ready_demo"
proof -
  have "max_thread_state p (threads ready_demo) = max_thread_state p (threads demo)" for p
    by (rule max_thread_state_cong) (simp_all add: ready_demo_def nth_modify)
  then have "states_agree ready_demo"
    using demo_agree by (simp add: states_agree_def) (simp add: ready_demo_def nth_modify)
  moreover have "\<forall>pr \<in> set (procs ready_demo). p_state pr = RUNNABLE \<longrightarrow> p_pgdir pr \<noteq> 0
      \<and> (\<exists>pin < length (threads ready_demo). p_pin pr = Some pin)"
    by (simp add: ready_demo_def demo_def idle_proc_def modify_def)
  moreover have "\<forall>th \<in> set (threads ready_demo). t_state th = RUNNABLE \<longrightarrow> t_kstack th \<noteq> 0"
    by (simp add: ready_demo_def demo_def idle_thread_def modify_def)
  moreover have "m_pin (mlfq ready_demo) < length (procs ready_demo)"
    by (simp add: ready_demo_def demo_def boot_mlfq_def)
  ultimately show ?thesis by (simp add: sched_wf_def all_set_conv_all_nth)
qed

theorem scheduler_pass_witness:
  "\<exists>p t s'. scheduler 1 ready_demo = Ret (Some (p, t)) s' \<and> t_state (threads s' ! t) = RUNNING"
proof -
  have m: "mach ready_demo = two_cpus" by (simp add: ready_demo_def demo_def)
  have l: "lockable PtableLock (mach ready_demo)" using demo_lockable by (simp add: m demo_def)
  have n: "ncli (this_cpu (mach ready_demo)) = 0" "1 = cpu_index (mach ready_demo)"
    unfolding m two_cpus_ok(2) by (simp_all add: two_cpus_def idle_cpu_def)
  have r: "mlfq_ready (procs ready_demo) 1" "1 < length (procs ready_demo)"
    by (simp_all add: ready_demo_def demo_def mlfq_ready_def)
  obtain po s' where g: "scheduler 1 ready_demo = Ret po s'"
    and c: "case po of None \<Rightarrow> \<forall>q < length (procs ready_demo). \<not> mlfq_ready (procs ready_demo) q
      | Some (p, t) \<Rightarrow> t_state (threads s' ! t) = RUNNING"
    using scheduler_pass [OF ready_demo_wf l n] by (auto split: option.splits prod.splits)
  from g c r show ?thesis by (cases po) auto
qed

section \<open>The end of a time slice\<close>

lemma sched_thread_ok:
  assumes wf: "sched_wf s" and p: "p < length (procs s)" "p_state (procs s ! p) = RUNNABLE"
    and m: "cpu_ok (mach s)" "ncli (this_cpu (mach s)) = 1" "curproc (mach s) = Some p" "curthd (mach s) = Some ct"
  shows "\<exists>u sw s'. sched_thread p ct s = Ret sw s' \<and> u < length (threads s) \<and> thread_ready (threads s) p u
     \<and> (if u = ct then sw = Stay else (\<exists>ie. sw = ToThread u ie) \<and> ts_esp0 (this_cpu (mach s')) = t_kstack (threads s ! u) + KSTACKSIZE)
     \<and> threads s' = modify u (\<lambda>th. th\<lparr>t_state := RUNNING\<rparr>) (threads s) \<and> states_agree s'
     \<and> p_ticks (procs s' ! p) = p_ticks (procs s ! p) \<and> cpu_frame (mach s) (mach s')
     \<and> curproc (mach s') = Some p \<and> curthd (mach s') = Some u"
proof -
  obtain u where u: "nextthd p s = Ret (Some u) (upd_proc p (\<lambda>pr. pr\<lparr>p_pin := Some u\<rparr>) s)"
    "u < length (threads s)" "thread_ready (threads s) p u" "t_kstack (threads s ! u) \<noteq> 0"
    using nextthd_runnable [OF wf p] by blast
  let ?s1 = "upd_proc p (\<lambda>pr. pr\<lparr>p_pin := Some u\<rparr>) s"
  let ?s2 = "setstate p u RUNNING ?s1"
  have "states_agree ?s1" using wf by (simp add: sched_wf_def states_agree_def nth_modify)
  then have ag: "states_agree ?s2"
    using u(2,3) p(1) by (intro states_agree_setstate) (simp_all add: thread_ready_def)
  have s2: "mach ?s2 = mach s" "threads ?s2 = modify u (\<lambda>th. th\<lparr>t_state := RUNNING\<rparr>) (threads s)"
    "p_ticks (procs ?s2 ! p) = p_ticks (procs s ! p)" using p(1) by (simp_all add: setstate_procs)
  show ?thesis
  proof (cases "u = ct")
    case True
    have "sched_thread p ct s = Ret Stay ?s2" using u(1) True by (simp add: sched_thread_def Let_def)
    then show ?thesis using u ag s2 m True
      by (intro exI [of _ u] exI [of _ Stay] exI [of _ ?s2]) (simp add: cpu_frame_def)
  next
    case False
    let ?f = "\<lambda>cp. cp\<lparr>c_thd := Some u\<rparr>"
    let ?m1 = "(mach s)\<lparr>cpus := modify (cpu_index (mach s)) ?f (cpus (mach s))\<rparr>"
    let ?g = "\<lambda>cp. cp\<lparr>ts_esp0 := t_kstack (threads s ! u) + KSTACKSIZE\<rparr>"
    let ?m2 = "(pushed ?m1)\<lparr>cpus := modify (cpu_index (pushed ?m1)) ?g (cpus (pushed ?m1))\<rparr>"
    have t: "tame ?f" "tame ?g" by (simp_all add: tame_def)
    have f1: "cpu_frame (mach s) ?m1" by (rule cpu_frame_tame [OF t(1) m(1)])
    note n1 = cpu_frameD(4) [OF f1] cpu_frameD(3) [OF f1, unfolded m(2)] cpu_frameD(2) [OF f1]
    have ok: "cpu_ok (pushed ?m1)" using n1(1) by (rule cpu_ok_pushed)
    have f2: "cpu_frame (pushed ?m1) ?m2" by (rule cpu_frame_tame [OF t(2) ok])
    have pos: "0 < ncli (this_cpu ?m1)" using n1(2) by simp
    note e = nested_pop [OF n1(1) pos f2]
    have my: "mycpu (mach s) = Ret (cpu_index (mach s)) (mach s)"
      using m(1,2) by (intro mycpu_ok) (auto simp: cpu_ok_def)
    have my2: "mycpu (pushed ?m1) = Ret (cpu_index (pushed ?m1)) (pushed ?m1)"
      using ok by (rule mycpu_ok) simp
    have tk: "t_kstack (modify u (\<lambda>th. th\<lparr>t_state := RUNNING\<rparr>) (threads s) ! u) = t_kstack (threads s ! u)"
      using u(2) by simp
    let ?ie = "intena (this_cpu (mach s))"
    have "sched_thread p ct s = Ret (ToThread u ?ie) (?s2\<lparr>mach := popped ?m2\<rparr>)"
      using u(1) False my my2 pushcli_eq [OF n1(1)] e(1) tk
      by (simp add: sched_thread_def Let_def on_mach_def on_cpu_def)
    moreover have "curproc (popped ?m2) = Some p" "curthd (popped ?m2) = Some u"
      "ts_esp0 (this_cpu (popped ?m2)) = t_kstack (threads s ! u) + KSTACKSIZE"
      unfolding curproc_def curthd_def e(3) tame_cpu [OF t(2) ok] this_cpu_pushed [OF n1(1)] tame_cpu [OF t(1) m(1)]
      using m(3) by (simp_all add: curproc_def)
    moreover have "cpu_frame (mach s) (popped ?m2)" using cpu_frame_trans [OF f1 e(2)] .
    moreover have "states_agree (?s2\<lparr>mach := popped ?m2\<rparr>)" using ag by (simp add: states_agree_def)
    ultimately show ?thesis using u s2 False
      by (intro exI [of _ u] exI [of _ "ToThread u ?ie"] exI [of _ "?s2\<lparr>mach := popped ?m2\<rparr>"]) simp
  qed
qed

definition time_slice :: "'x proc_state_scheme \<Rightarrow> nat \<Rightarrow> u32" where
  "time_slice s p = (if p_stype (procs s ! p) = STRIDE then stride_quan else m_quan (mlfq s) ! p_qlev (procs s ! p))"

definition ticked :: "nat \<Rightarrow> 'x proc_state_scheme \<Rightarrow> 'x proc_state_scheme" where
  "ticked p s = s\<lparr>procs := modify p (\<lambda>pr. pr\<lparr>p_ticks := p_ticks pr + 1,
     p_pass := (if p_stype pr = MLFQ then p_pass pr + 1 else p_pass pr)\<rparr>) (procs s)\<rparr>"

lemma ticked_simps:
  assumes "p < length (procs s)"
  shows "p_stype (procs (ticked p s) ! p) = p_stype (procs s ! p)" "p_qlev (procs (ticked p s) ! p) = p_qlev (procs s ! p)"
    "p_state (procs (ticked p s) ! p) = p_state (procs s ! p)" "p_ticks (procs (ticked p s) ! p) = p_ticks (procs s ! p) + 1"
    "mach (ticked p s) = mach s" "threads (ticked p s) = threads s" "mlfq (ticked p s) = mlfq s"
    "length (procs (ticked p s)) = length (procs s)"
  using assms by (simp_all add: ticked_def)

lemma sched_wf_ticked: "sched_wf s \<Longrightarrow> sched_wf (ticked p s)"
  by (simp add: sched_wf_def states_agree_def ticked_def nth_modify)

lemma ticked_eq:
  assumes "p < length (procs s)"
  shows "(let s = upd_proc p (\<lambda>pr. pr\<lparr>p_ticks := p_ticks pr + 1\<rparr>) s in
     if p_stype (procs s ! p) = MLFQ then upd_proc p (\<lambda>pr. pr\<lparr>p_pass := p_pass pr + 1\<rparr>) s else s) = ticked p s"
  using assms by (simp add: ticked_def modify_def)

lemma sched_start:
  assumes "cpu_ok (mach s)" "ncli (this_cpu (mach s)) = 1" "holds PtableLock (mach s)"
    and "curproc (mach s) = Some p" "curthd (mach s) = Some ct" "t_state (threads s ! ct) \<noteq> RUNNING"
    and "p < length (procs s)" "p_stype (procs s ! p) = STRIDE \<or> p_qlev (procs s ! p) < length (m_quan (mlfq s))"
  shows "sched s = (if p_state (procs s ! p) = RUNNABLE \<and> p_ticks (procs s ! p) + 1 < time_slice s p
     then sched_thread p ct (ticked p s) else Ret (ToScheduler (intena (this_cpu (mach s)))) (ticked p s))"
proof -
  have se: "settle (mach s) = mach s" using assms(2) by (intro settle_nested) simp
  have fl: "\<not> readeflags_IF (mach s)" using assms(1,2) by (simp add: cpu_ok_def)
  have cp: "on_mach myproc s = Ret (Some p) s" "on_mach mythd s = Ret (Some ct) s"
    "on_mach (holding PtableLock) s = Ret True s" "on_mach mycpu s = Ret (cpu_index (mach s)) s"
    using myproc_eq [OF assms(1)] mythd_eq [OF assms(1)] holding_eq [OF assms(1), of PtableLock]
      mycpu_ok [OF assms(1) fl] assms(3-5) by (simp_all add: on_mach_def se)
  have my: "on_mach mycpu (ticked p s) = Ret (cpu_index (mach s)) (ticked p s)"
    using mycpu_ok [OF assms(1) fl] by (simp add: on_mach_def ticked_simps [OF assms(7)] ticked_def)
  have q: "quantum p (ticked p s) = Ret (time_slice s p) (ticked p s)"
    using assms(8) by (auto simp: quantum_def time_slice_def ticked_simps [OF assms(7)])
  note t = ticked_eq [OF assms(7), unfolded Let_def]
  show ?thesis unfolding sched_def cp andthen.simps Let_def prod.case option.case t q using assms(2,6) fl
    by (simp add: my ticked_simps [OF assms(7)])
qed

text \<open>C7. At the end of a slice \<^verbatim>\<open>sched\<close> counts the tick and keeps the CPU inside the process exactly
  when the process still has a runnable thread and its quantum - 5 for a stride process, that of its
  queue level otherwise - is not used up: then the next runnable thread of the process becomes the
  running and current one, with its kernel stack in the task state if it is another thread. Otherwise
  control goes to the scheduler with all thread states as they were. The table lock stays held. The tables are assumed well formed
  (\<open>sched_wf\<close>).\<close>

theorem sched_decision:
  assumes wf: "sched_wf s" and m: "cpu_ok (mach s)" "ncli (this_cpu (mach s)) = 1" "holds PtableLock (mach s)"
    and cur: "curproc (mach s) = Some p" "curthd (mach s) = Some ct" "t_state (threads s ! ct) \<noteq> RUNNING"
    and p: "p < length (procs s)" "p_stype (procs s ! p) = STRIDE \<or> p_qlev (procs s ! p) < length (m_quan (mlfq s))"
  shows "\<exists>sw s'. sched s = Ret sw s' \<and> p_ticks (procs s' ! p) = p_ticks (procs s ! p) + 1
     \<and> holds PtableLock (mach s') \<and> states_agree s'
     \<and> (if p_state (procs s ! p) = RUNNABLE \<and> p_ticks (procs s ! p) + 1 < time_slice s p
         then \<exists>u < length (threads s). thread_ready (threads s) p u \<and> curproc (mach s') = Some p \<and> curthd (mach s') = Some u
           \<and> threads s' = modify u (\<lambda>th. th\<lparr>t_state := RUNNING\<rparr>) (threads s)
           \<and> (if u = ct then sw = Stay
               else (\<exists>ie. sw = ToThread u ie) \<and> ts_esp0 (this_cpu (mach s')) = t_kstack (threads s ! u) + KSTACKSIZE)
         else (\<exists>ie. sw = ToScheduler ie) \<and> threads s' = threads s)"
proof -
  note st = sched_start [OF m cur p]
  note t = ticked_simps [OF p(1)]
  have wt: "sched_wf (ticked p s)" using wf by (rule sched_wf_ticked)
  show ?thesis
  proof (cases "p_state (procs s ! p) = RUNNABLE \<and> p_ticks (procs s ! p) + 1 < time_slice s p")
    case True
    obtain u sw s' where "sched_thread p ct (ticked p s) = Ret sw s'" "u < length (threads s)" "thread_ready (threads s) p u"
     "if u = ct then sw = Stay else (\<exists>ie. sw = ToThread u ie) \<and> ts_esp0 (this_cpu (mach s')) = t_kstack (threads s ! u) + KSTACKSIZE"
     "threads s' = modify u (\<lambda>th. th\<lparr>t_state := RUNNING\<rparr>) (threads s)" "states_agree s'"
     "p_ticks (procs s' ! p) = p_ticks (procs s ! p) + 1" "cpu_frame (mach s) (mach s')"
     "curproc (mach s') = Some p" "curthd (mach s') = Some u"
      using sched_thread_ok [OF wt, of p ct, unfolded t, OF p(1) conjunct1 [OF True] m(1,2) cur(1,2)] by blast
    then show ?thesis using st True m(3) cpu_frameD(5) [of "mach s" "mach s'" PtableLock]
      by (intro exI [of _ sw] exI [of _ s']) (simp only: if_True simp_thms, blast)
  next
    case False
    have "states_agree (ticked p s)" using wt by (simp add: sched_wf_def)
    then show ?thesis using st False m(3) t by simp
  qed
qed

definition slice_demo :: proc_state where
  "slice_demo = ready_demo\<lparr>mach := taken PtableLock (two_cpus\<lparr>cpus := [idle_cpu 7, (idle_cpu 3)\<lparr>c_proc := Some 1, c_thd := Some 1\<rparr>]\<rparr>)\<rparr>"

theorem sched_decision_witness:
  "\<exists>s'. sched slice_demo = Ret Stay s' \<and> t_state (threads s' ! 1) = RUNNING"
proof -
  let ?m = "two_cpus\<lparr>cpus := [idle_cpu 7, (idle_cpu 3)\<lparr>c_proc := Some 1, c_thd := Some 1\<rparr>]\<rparr>"
  have i: "cpu_index ?m = 1" "cpu_ok ?m"
    by (simp_all add: cpu_index_def cpu_ok_def two_cpus_def idle_cpu_def first_such_def)
  have ma: "mach slice_demo = taken PtableLock ?m" "threads slice_demo = threads ready_demo"
    "procs slice_demo = procs ready_demo" "mlfq slice_demo = mlfq ready_demo" by (simp_all add: slice_demo_def)
  have n: "ncli (this_cpu ?m) = 0" "curproc ?m = Some 1" "curthd ?m = Some 1"
    unfolding curproc_def curthd_def i(1) by (simp_all add: idle_cpu_def)
  have c: "cpu_ok (mach slice_demo)" "ncli (this_cpu (mach slice_demo)) = 1" "holds PtableLock (mach slice_demo)"
    "curproc (mach slice_demo) = Some 1" "curthd (mach slice_demo) = Some 1"
    unfolding ma using i n ncli_taken [OF i(2)] by simp_all
  have wf: "sched_wf slice_demo" using ready_demo_wf by (simp add: sched_wf_def states_agree_def slice_demo_def)
  have l: "threads ready_demo = [idle_thread\<lparr>t_tid := 1, t_mp := Some 0, t_state := SLEEPING, t_chan := Some (ProcChan 0)\<rparr>,
       idle_thread\<lparr>t_tid := 2, t_mp := Some 1, t_state := RUNNABLE, t_kstack := 0x80402000\<rparr>,
       idle_thread\<lparr>t_tid := 3, t_mp := Some 1, t_state := SLEEPING, t_chan := Some TicksChan\<rparr>, idle_thread]"
    by (simp add: ready_demo_def demo_def modify_def)
  have only: "u = 1" if "u < length (threads ready_demo)" "thread_ready (threads ready_demo) 1 u" for u
    using that by (simp add: l thread_ready_def nth_Cons idle_thread_def less_Suc_eq split: nat.splits)
  have pr: "1 < length (procs slice_demo)" "p_stype (procs slice_demo ! 1) = STRIDE \<or> p_qlev (procs slice_demo ! 1) < length (m_quan (mlfq slice_demo))"
    "p_state (procs slice_demo ! 1) = RUNNABLE \<and> p_ticks (procs slice_demo ! 1) + 1 < time_slice slice_demo 1"
    unfolding ma time_slice_def by (simp_all add: ready_demo_def demo_def idle_proc_def boot_mlfq_def)
  have nr: "t_state (threads slice_demo ! 1) \<noteq> RUNNING" by (simp add: ma l)
  obtain sw s' u where "sched slice_demo = Ret sw s'" "u < length (threads ready_demo)" "thread_ready (threads ready_demo) 1 u"
    "threads s' = modify u (\<lambda>th. th\<lparr>t_state := RUNNING\<rparr>) (threads ready_demo)" "u = 1 \<longrightarrow> sw = Stay"
    using sched_decision [OF wf c nr pr(1,2)] pr(3) unfolding ma by (auto split: if_splits)
  then show ?thesis using only [of u] by (simp add: l)
qed

end
