(* ===== verification/Ring.thy ===== *)
theory Ring
  imports Prelude
begin

text \<open>
  Ring buffers with free running 32 bit counters, as in \<^verbatim>\<open>pipe.c\<close> and \<^verbatim>\<open>console.c\<close>: the element with the
  number \<open>n\<close> is in the slot \<open>n mod size\<close>, the reader is at the number \<open>r\<close>, the writer at \<open>w\<close>. The
  counters wrap around at \<open>2 ^ 32\<close>, which does no harm because the size of the buffer divides it.
\<close>

definition ring_contents :: "nat \<Rightarrow> 'a list \<Rightarrow> u32 \<Rightarrow> u32 \<Rightarrow> 'a list" where
  "ring_contents cap b r w = map (\<lambda>k. b ! ((unat r + k) mod cap)) [0..<unat (w - r)]"

lemma length_ring_contents [simp]: "length (ring_contents cap b r w) = unat (w - r)"
  by (simp add: ring_contents_def)

lemma ring_contents_empty [simp]: "ring_contents cap b r r = []"
  by (simp add: ring_contents_def)

lemma ring_contents_Nil: "ring_contents cap b r w = [] \<longleftrightarrow> r = w"
  using length_ring_contents [of cap b r w] by (auto simp: unat_eq_zero simp del: length_ring_contents)

lemma unat_inc: "unat (x :: u32) < 2 ^ 32 - 1 \<Longrightarrow> unat (x + 1) = unat x + 1"
  using unat_plus_small [of x 1] by simp

lemma unat_dec: "x \<noteq> (0 :: u32) \<Longrightarrow> unat (x - 1) = unat x - 1"
  using unat_sub_le [of 1 x] word_le_nat_alt [of 1 x] unat_eq_zero [of x] by simp

locale ring =
  fixes cap :: nat
  assumes divides: "cap dvd 2 ^ 32" and small: "cap < 2 ^ 32"
begin

lemma positive: "0 < cap"
  using divides by (cases cap) simp_all

lemma slot_mod: "unat (x + y :: u32) mod cap = (unat x + unat y) mod cap"
  using mod_mod_cancel [OF divides] by (simp add: unat_word_ariths)

lemma writer_slot: "unat (w :: u32) mod cap = (unat r + unat (w - r)) mod cap"
  using slot_mod [of r "w - r"] by simp

lemma next_slot: "(unat (r + 1 :: u32) + k) mod cap = (unat r + Suc k) mod cap"
  using slot_mod [of r 1] mod_add_left_eq [of "unat (r + 1)" cap k] mod_add_left_eq [of "unat r + 1" cap k] by simp

lemma slots_differ:
  assumes "k < unat (w - r)" "unat (w - r) < cap"
  shows "(unat r + k) mod cap \<noteq> unat (w :: u32) mod cap"
proof
  assume "(unat r + k) mod cap = unat w mod cap"
  then have "(unat r + unat (w - r)) mod cap = (unat r + k) mod cap" using writer_slot [of w r] by simp
  then have "cap dvd unat (w - r) - k" using mod_eq_dvd_iff_nat [of "unat r + k" "unat r + unat (w - r)" cap] assms(1) by simp
  then show False using assms dvd_imp_le [of cap "unat (w - r) - k"] by simp
qed

text \<open>Putting an element at the end, and taking one from the front.\<close>

lemma put_length: "unat (w - r :: u32) < cap \<Longrightarrow> unat (w + 1 - r) = unat (w - r) + 1"
  using unat_inc [of "w - r"] small by (simp add: algebra_simps)

lemma put_contents:
  assumes "length b = cap" "unat (w - r) < cap"
  shows "ring_contents cap (b[unat w mod cap := c]) r (w + 1) = ring_contents cap b r w @ [c]"
proof -
  have "b[unat w mod cap := c] ! ((unat r + k) mod cap) = b ! ((unat r + k) mod cap)" if "k < unat (w - r)" for k
    using slots_differ [OF that assms(2)] by simp
  moreover have "b[unat w mod cap := c] ! ((unat r + unat (w - r)) mod cap) = c"
    using positive assms(1) by (simp add: writer_slot [of w r, symmetric])
  ultimately show ?thesis using put_length [OF assms(2)] by (simp add: ring_contents_def)
qed

lemma take_length: "r \<noteq> (w :: u32) \<Longrightarrow> unat (w - (r + 1)) = unat (w - r) - 1"
  using unat_dec [of "w - r"] by (simp add: algebra_simps)

lemma take_contents:
  assumes "r \<noteq> w"
  shows "ring_contents cap b r w = b ! (unat r mod cap) # ring_contents cap b (r + 1) w"
proof -
  have "unat (w - r) \<noteq> 0" using assms by (simp add: unat_eq_zero)
  then have "[0..<unat (w - r)] = 0 # map Suc [0..<unat (w - (r + 1))]"
    using take_length [OF assms] by (simp add: upt_conv_Cons map_Suc_upt)
  then show ?thesis by (simp add: ring_contents_def next_slot)
qed

lemma full_iff: "w = r + of_nat cap \<longleftrightarrow> unat (w - r :: u32) = cap"
proof -
  have "unat (of_nat cap :: u32) = cap" using unat_of_nat_small [OF small] .
  then have "unat (w - r) = cap \<longleftrightarrow> w - r = of_nat cap" by (simp add: word_unat_eq_iff)
  then show ?thesis by (auto simp: algebra_simps)
qed

text \<open>A third counter between the two splits the content.\<close>

lemma split_contents:
  assumes "unat (m - r :: u32) + unat (w - m) \<le> cap"
  shows "ring_contents cap b r w = ring_contents cap b r m @ ring_contents cap b m w"
proof -
  have l: "unat (w - r) = unat (m - r) + unat (w - m)" using unat_plus_small [of "m - r" "w - m"] assms small by simp
  have e: "[0..<unat (w - r)] = [0..<unat (m - r)] @ map (\<lambda>k. k + unat (m - r)) [0..<unat (w - m)]"
    unfolding l map_add_upt by (simp add: upt_add_eq_append [of 0 "unat (m - r)" "unat (w - m)"] add.commute)
  have "(unat m + k) mod cap = (unat r + (k + unat (m - r))) mod cap" for k
  proof -
    have "(unat m + k) mod cap = (unat m mod cap + k) mod cap" by (simp only: mod_add_left_eq)
    also have "\<dots> = (unat r + unat (m - r) + k) mod cap" unfolding writer_slot [of m r] by (simp only: mod_add_left_eq)
    finally show ?thesis by (simp only: ac_simps)
  qed
  then show ?thesis unfolding ring_contents_def e by simp
qed

lemma back_contents: "r \<noteq> w \<Longrightarrow> ring_contents cap b r (w - 1) = butlast (ring_contents cap b r w)"
proof -
  assume "r \<noteq> w"
  then have n: "unat (w - r) \<noteq> 0" "unat (w - 1 - r) = unat (w - r) - 1"
    using unat_dec [of "w - r"] by (simp_all add: unat_eq_zero algebra_simps)
  then obtain k where "unat (w - r) = Suc k" by (cases "unat (w - r)") auto
  then show ?thesis using n(2) by (simp add: ring_contents_def)
qed

end

end
