(* ===== verification/Sleeplock.thy ===== *)
theory Sleeplock
  imports Scheduler
begin

text \<open>
  Sleep locks, \<^verbatim>\<open>sleeplock.c\<close>. The kernel has one in every buffer of the block cache and one in
  every cached inode; \<open>sleepid\<close> names them, and the state holds the locks by name. The field
  \<^verbatim>\<open>name\<close>, for debugging, is left out. Code that has to sleep ends with \<open>Pause\<close>, in the state
  in which it left the processor; \<open>acquiresleep_resume\<close> is what \<^verbatim>\<open>acquiresleep\<close> does when its
  thread runs again.
\<close>

section \<open>The lock and its operations\<close>

datatype sleepid = BufSleep nat | InodeSleep nat

primrec spin_of :: "sleepid \<Rightarrow> lockid" where
  "spin_of (BufSleep i) = BufLock i"
| "spin_of (InodeSleep i) = InodeLock i"

primrec chan_of :: "sleepid \<Rightarrow> chan" where
  "chan_of (BufSleep i) = BufLockChan i"
| "chan_of (InodeSleep i) = InodeLockChan i"

record sleeplock =
  sl_locked :: bool
  sl_pid :: int

record sleep_state = proc_state +
  sleeplocks :: "sleepid \<Rightarrow> sleeplock"

text \<open>\<open>curpid\<close> is the expression \<^verbatim>\<open>myproc()->pid\<close>, and \<open>go_to_sleep\<close> a call of \<^verbatim>\<open>sleep\<close> in
  code that is not followed past it.\<close>

definition curpid :: "'x proc_state_scheme \<Rightarrow> ('x proc_state_scheme, int) outcome" where
  "curpid s =
     andthen (on_mach myproc s) (\<lambda>po s.
       case po of
         None \<Rightarrow> Undef ''no current process''
       | Some p \<Rightarrow> Ret (p_pid (procs s ! p)) s)"

definition go_to_sleep :: "chan \<Rightarrow> lockid \<Rightarrow> 'x proc_state_scheme \<Rightarrow> ('x proc_state_scheme, 'a) outcome" where
  "go_to_sleep ch lk s = andthen (sleep ch lk s) (\<lambda>_ s. Pause (Sleeping ch) s)"

definition initsleeplock :: "sleepid \<Rightarrow> 'x sleep_state_scheme \<Rightarrow> 'x sleep_state_scheme" where
  "initsleeplock lk s =
     (let s = s\<lparr>mach := initlock (spin_of lk) (mach s)\<rparr> in
      s\<lparr>sleeplocks := (sleeplocks s)(lk := \<lparr>sl_locked = False, sl_pid = 0\<rparr>)\<rparr>)"

definition acquiresleep_loop :: "sleepid \<Rightarrow> 'x sleep_state_scheme \<Rightarrow> ('x sleep_state_scheme, unit) outcome" where
  "acquiresleep_loop lk s =
     (if sl_locked (sleeplocks s lk) then go_to_sleep (chan_of lk) (spin_of lk) s
      else
        let s = s\<lparr>sleeplocks := (sleeplocks s)(lk := (sleeplocks s lk)\<lparr>sl_locked := True\<rparr>)\<rparr> in
        andthen (curpid s) (\<lambda>pid s.
          let s = s\<lparr>sleeplocks := (sleeplocks s)(lk := (sleeplocks s lk)\<lparr>sl_pid := pid\<rparr>)\<rparr> in
          krelease (spin_of lk) s))"

definition acquiresleep :: "sleepid \<Rightarrow> 'x sleep_state_scheme \<Rightarrow> ('x sleep_state_scheme, unit) outcome" where
  "acquiresleep lk s = andthen (kacquire (spin_of lk) s) (\<lambda>_ s. acquiresleep_loop lk s)"

definition acquiresleep_resume ::
  "sleepid \<Rightarrow> nat \<Rightarrow> switch \<Rightarrow> 'x sleep_state_scheme \<Rightarrow> ('x sleep_state_scheme, unit) outcome" where
  "acquiresleep_resume lk t sw s =
     andthen (sleep_resume t (spin_of lk) sw s) (\<lambda>_ s. acquiresleep_loop lk s)"

definition releasesleep :: "sleepid \<Rightarrow> 'x sleep_state_scheme \<Rightarrow> ('x sleep_state_scheme, unit) outcome" where
  "releasesleep lk s =
     andthen (kacquire (spin_of lk) s) (\<lambda>_ s.
       let s = s\<lparr>sleeplocks := (sleeplocks s)(lk := \<lparr>sl_locked = False, sl_pid = 0\<rparr>)\<rparr> in
       andthen (wakeup (chan_of lk) s) (\<lambda>_ s. krelease (spin_of lk) s))"

definition holdingsleep :: "sleepid \<Rightarrow> 'x sleep_state_scheme \<Rightarrow> ('x sleep_state_scheme, bool) outcome" where
  "holdingsleep lk s =
     andthen (kacquire (spin_of lk) s) (\<lambda>_ s.
     andthen (if sl_locked (sleeplocks s lk)
              then andthen (curpid s) (\<lambda>pid s. Ret (sl_pid (sleeplocks s lk) = pid) s)
              else Ret False s) (\<lambda>r s.
     andthen (krelease (spin_of lk) s) (\<lambda>_ s. Ret r s)))"

end
