(* ===== verification/Frame.thy ===== *)
theory Frame
  imports Sleeplock
begin

text \<open>
  What kernel operations leave alone. \<open>keeps g v r\<close> says that in the state that the run \<open>r\<close> ends in, returning
  or giving up the processor, the part \<open>g\<close> of the state has the value \<open>v\<close>. The operations on locks
  and those that put threads to sleep and wake them change only the fields of \<open>proc_state\<close>; all that extends it is its
  \<open>more\<close> part.
\<close>

named_theorems keeps_intro

definition keeps :: "('s \<Rightarrow> 'b) \<Rightarrow> 'b \<Rightarrow> ('s, 'a) outcome \<Rightarrow> bool" where
  "keeps g v r \<longleftrightarrow> (case r of Ret _ t \<Rightarrow> g t = v | Pause _ t \<Rightarrow> g t = v | _ \<Rightarrow> True)"

lemma keeps_simps [simp]:
  "keeps g v (Ret x t) \<longleftrightarrow> g t = v" "keeps g v (Pause w t) \<longleftrightarrow> g t = v"
  "keeps g v (Panic m)" "keeps g v (Undef m)" "keeps g v Hang"
  by (simp_all add: keeps_def)

lemma keeps_andthen [keeps_intro]:
  "keeps g v r \<Longrightarrow> (\<And>x t. g t = v \<Longrightarrow> keeps g v (f x t)) \<Longrightarrow> keeps g v (andthen r f)"
  by (cases r) simp_all

lemma keeps_if [keeps_intro]: "(b \<Longrightarrow> keeps g v r) \<Longrightarrow> (\<not> b \<Longrightarrow> keeps g v r') \<Longrightarrow> keeps g v (if b then r else r')"
  by simp

lemma keeps_Let [keeps_intro]: "keeps g v (f x) \<Longrightarrow> keeps g v (Let x f)"
  by simp

lemma keeps_option [keeps_intro]:
  "keeps g v r \<Longrightarrow> (\<And>y. keeps g v (f y)) \<Longrightarrow> keeps g v (case x of None \<Rightarrow> r | Some y \<Rightarrow> f y)"
  by (cases x) simp_all

lemma keeps_prod [keeps_intro]: "(\<And>y z. keeps g v (f y z)) \<Longrightarrow> keeps g v (case x of (y, z) \<Rightarrow> f y z)"
  by (cases x) simp

lemma keeps_each:
  assumes "\<And>i t. g t = v \<Longrightarrow> keeps g v (f i t)"
  shows "g s = v \<Longrightarrow> keeps g v (each f xs s)"
proof (induction xs arbitrary: s)
  case (Cons x xs)
  then show ?case using assms by (auto intro!: keeps_andthen)
qed simp

lemma keeps_RetD: "keeps g v r \<Longrightarrow> r = Ret x t \<Longrightarrow> g t = v"
  by simp

lemma keeps_PauseD: "keeps g v r \<Longrightarrow> r = Pause w t \<Longrightarrow> g t = v"
  by simp

section \<open>Locks and threads\<close>

lemma on_mach_rest [keeps_intro]: "proc_state.more s = v \<Longrightarrow> keeps proc_state.more v (on_mach f s)"
  by (simp add: on_mach_def split: outcome.splits)

lemma on_cpu_rest [simp]: "proc_state.more (on_cpu c f s) = proc_state.more s"
  by (simp add: on_cpu_def)

lemma setstate_rest [simp]: "proc_state.more (setstate p t st s) = proc_state.more s"
  by (simp add: setstate_def Let_def)

lemma wakeup1_rest [keeps_intro]: "proc_state.more s = v \<Longrightarrow> keeps proc_state.more v (wakeup1 ch s)"
  unfolding wakeup1_def by (rule keeps_each) (simp_all add: wake_if_def split: option.splits)

lemma wakeup_rest [keeps_intro]: "proc_state.more s = v \<Longrightarrow> keeps proc_state.more v (wakeup ch s)"
  unfolding wakeup_def by (intro keeps_intro)

lemma nextthd_rest [keeps_intro]: "proc_state.more s = v \<Longrightarrow> keeps proc_state.more v (nextthd p s)"
  by (simp add: nextthd_def Let_def split: option.splits)

lemma quantum_rest [keeps_intro]: "proc_state.more s = v \<Longrightarrow> keeps proc_state.more v (quantum p s)"
  by (simp add: quantum_def)

lemma sched_thread_rest [keeps_intro]: "proc_state.more s = v \<Longrightarrow> keeps proc_state.more v (sched_thread cp ct s)"
  unfolding sched_thread_def by (intro keeps_intro) simp_all

lemma sched_rest [keeps_intro]: "proc_state.more s = v \<Longrightarrow> keeps proc_state.more v (sched s)"
  unfolding sched_def by (intro keeps_intro) simp_all

lemma sched_resume_rest [keeps_intro]: "proc_state.more s = v \<Longrightarrow> keeps proc_state.more v (sched_resume sw s)"
  by (cases sw) (auto simp: sched_resume_def intro!: keeps_intro)

lemma sleep_rest [keeps_intro]: "proc_state.more s = v \<Longrightarrow> keeps proc_state.more v (sleep ch lk s)"
  unfolding sleep_def by (intro keeps_intro) simp_all

lemma sleep_resume_rest [keeps_intro]: "proc_state.more s = v \<Longrightarrow> keeps proc_state.more v (sleep_resume t lk sw s)"
  unfolding sleep_resume_def by (intro keeps_intro) simp_all

lemma go_to_sleep_rest [keeps_intro]: "proc_state.more s = v \<Longrightarrow> keeps proc_state.more v (go_to_sleep ch lk s)"
  unfolding go_to_sleep_def by (intro keeps_intro) simp_all

section \<open>Operations that do not sleep\<close>

text \<open>A run may wait for a spin lock, but it does not put its thread to sleep.\<close>

named_theorems awake_intro

definition awake :: "('s, 'a) outcome \<Rightarrow> bool" where
  "awake r \<longleftrightarrow> (\<forall>c t. r \<noteq> Pause (Sleeping c) t)"

lemma awake_simps [simp]:
  "awake (Ret x t)" "awake (Panic m)" "awake (Undef m)" "awake Hang" "awake (Pause (Spinning lk) t)" "\<not> awake (Pause (Sleeping c) t)"
  by (simp_all add: awake_def)

lemma awake_andthen [awake_intro]: "awake r \<Longrightarrow> (\<And>x t. awake (f x t)) \<Longrightarrow> awake (andthen r f)"
  by (cases r) (simp_all add: awake_def)

lemma awake_if [awake_intro]: "awake r \<Longrightarrow> awake r' \<Longrightarrow> awake (if b then r else r')"
  by simp

lemma awake_Let [awake_intro]: "(\<And>y. awake (f y)) \<Longrightarrow> awake (Let x f)"
  by simp

lemma awake_option [awake_intro]: "awake r \<Longrightarrow> (\<And>y. awake (f y)) \<Longrightarrow> awake (case x of None \<Rightarrow> r | Some y \<Rightarrow> f y)"
  by (cases x) simp_all

lemma awake_each [awake_intro]: "(\<And>i t. awake (f i t)) \<Longrightarrow> awake (each f xs s)"
  by (induction xs arbitrary: s) (auto intro: awake_andthen)

lemma awake_on_mach [awake_intro]: "(\<And>m. awake (f m)) \<Longrightarrow> awake (on_mach f s)"
  unfolding awake_def on_mach_def by (auto split: outcome.splits)

lemma awake_cpu [awake_intro]: "awake (mycpu m)" "awake (pushcli m)" "awake (popcli m)" "awake (holding lk m)"
proof -
  show c: "awake (mycpu m)" for m by (simp add: mycpu_def split: option.splits)
  show u: "awake (pushcli m)" for m unfolding pushcli_def by (intro awake_intro c) simp_all
  show o: "awake (popcli m)" for m unfolding popcli_def by (intro awake_intro c) simp_all
  show "awake (holding lk m)" unfolding holding_def by (intro awake_intro c u o) simp_all
qed

lemma awake_lock [awake_intro]: "awake (acquire lk m)" "awake (release lk m)" "awake (myproc m)"
  unfolding acquire_def acquire_spin_def release_def myproc_def by (intro awake_intro; simp)+

lemma awake_wakeup [awake_intro]: "awake (wakeup ch s)"
  unfolding wakeup_def wakeup1_def wake_if_def by (intro awake_intro) simp_all

text \<open>Waking the sleepers on a channel, when the lock of the tables is free.\<close>

lemma wakeup_closed:
  assumes "lockable PtableLock (mach s)" "owned_sleepers s"
  shows "wakeup ch s = Ret () (s\<lparr>mach := settle (mach s), threads := woken (sleeping_on ch) (threads s),
     procs := woken_procs (sleeping_on ch) (threads s) (procs s)\<rparr>)"
proof -
  have "owned_sleepers (s\<lparr>mach := taken PtableLock (mach s)\<rparr>)" using assms(2) by (simp add: owned_sleepers_def)
  then show ?thesis using assms(1) by (simp add: wakeup_def wakeup1_closed)
qed

end
