(* ===== verification/Bio.thy ===== *)
theory Bio
  imports Sleeplock
begin

text \<open>
  The block cache, \<^verbatim>\<open>bio.c\<close>, over the disk driver \<^verbatim>\<open>memide.c\<close>, which keeps the disk in memory and
  answers at once. A buffer is named by its index in \<^verbatim>\<open>bcache.buf\<close>. The doubly linked list of all
  buffers is the list \<open>lru\<close> of their names, from \<^verbatim>\<open>head.next\<close> on. The two bits of \<^verbatim>\<open>flags\<close> are two
  booleans, the data of a block a list of bytes.
  The field \<open>disk_hist\<close> is a history variable that nothing reads: the contents the disk had before each
  write, latest first. After a crash the disk has one of these contents.
\<close>

section \<open>Blocks\<close>

definition BSIZE :: nat where "BSIZE = 512"
definition MAXOPBLOCKS :: nat where "MAXOPBLOCKS = 10"
definition LOGSIZE :: nat where "LOGSIZE = MAXOPBLOCKS * 3"
definition NBUF :: nat where "NBUF = MAXOPBLOCKS * 3"
definition FSSIZE :: nat where "FSSIZE = 40000"
definition ROOTDEV :: u32 where "ROOTDEV = 1"

type_synonym block = "u8 list"

text \<open>Numbers inside a block are stored with the lowest byte first.\<close>

definition word_at :: "block \<Rightarrow> nat \<Rightarrow> u32" where
  "word_at d i = join4 (d ! i) (d ! (i + 1)) (d ! (i + 2)) (d ! (i + 3))"

definition put_word :: "nat \<Rightarrow> u32 \<Rightarrow> block \<Rightarrow> block" where
  "put_word i v d = d[i := byte_at 0 v, i + 1 := byte_at 1 v, i + 2 := byte_at 2 v, i + 3 := byte_at 3 v]"

definition half_at :: "block \<Rightarrow> nat \<Rightarrow> u16" where
  "half_at d i = ucast (join4 (d ! i) (d ! (i + 1)) 0 0)"

definition put_half :: "nat \<Rightarrow> u16 \<Rightarrow> block \<Rightarrow> block" where
  "put_half i v d = d[i := byte_at 0 (ucast v), i + 1 := byte_at 1 (ucast v)]"

text \<open>\<^verbatim>\<open>memmove\<close> into a block at offset \<open>i\<close>.\<close>

definition put_bytes :: "nat \<Rightarrow> u8 list \<Rightarrow> block \<Rightarrow> block" where
  "put_bytes i xs d = take i d @ xs @ drop (i + length xs) d"

section \<open>Buffers\<close>

record buf =
  b_valid :: bool
  b_dirty :: bool
  b_dev :: u32
  b_blockno :: u32
  b_refcnt :: u32
  b_data :: block

record bio_state = sleep_state +
  bufs :: "buf list"
  lru :: "nat list"
  memdisk :: "nat \<Rightarrow> block"
  disksize :: u32
  disk_hist :: "(nat \<Rightarrow> block) list"

abbreviation upd_buf :: "nat \<Rightarrow> (buf \<Rightarrow> buf) \<Rightarrow> 'x bio_state_scheme \<Rightarrow> 'x bio_state_scheme" where
  "upd_buf i f s \<equiv> s\<lparr>bufs := modify i f (bufs s)\<rparr>"

definition binit :: "'x bio_state_scheme \<Rightarrow> 'x bio_state_scheme" where
  "binit s =
     (let s = s\<lparr>mach := initlock BcacheLock (mach s)\<rparr>;
          s = s\<lparr>lru := []\<rparr> in
      fold (\<lambda>i s. let s = initsleeplock (BufSleep i) s in s\<lparr>lru := i # lru s\<rparr>) [0..<NBUF] s)"

section \<open>The driver\<close>

definition iderw :: "nat \<Rightarrow> 'x bio_state_scheme \<Rightarrow> ('x bio_state_scheme, unit) outcome" where
  "iderw i s =
     andthen (holdingsleep (BufSleep i) s) (\<lambda>h s.
       let b = bufs s ! i in
       if \<not> h then Panic ''iderw: buf not locked''
       else if b_valid b \<and> \<not> b_dirty b then Panic ''iderw: nothing to do''
       else if b_dev b \<noteq> 1 then Panic ''iderw: request not for disk 1''
       else if b_blockno b \<ge> disksize s then Panic ''iderw: block out of range''
       else
         let n = unat (b_blockno b);
             s = (if b_dirty b
                  then upd_buf i (\<lambda>b. b\<lparr>b_dirty := False\<rparr>)
                         (s\<lparr>memdisk := (memdisk s)(n := b_data b), disk_hist := memdisk s # disk_hist s\<rparr>)
                  else upd_buf i (\<lambda>b. b\<lparr>b_data := memdisk s n\<rparr>) s) in
         Ret () (upd_buf i (\<lambda>b. b\<lparr>b_valid := True\<rparr>) s))"

section \<open>The cache\<close>

definition bget :: "u32 \<Rightarrow> u32 \<Rightarrow> 'x bio_state_scheme \<Rightarrow> ('x bio_state_scheme, nat) outcome" where
  "bget dev blockno s =
     andthen (kacquire BcacheLock s) (\<lambda>_ s.
       case find (\<lambda>i. b_dev (bufs s ! i) = dev \<and> b_blockno (bufs s ! i) = blockno) (lru s) of
         Some i \<Rightarrow>
           let s = upd_buf i (\<lambda>b. b\<lparr>b_refcnt := b_refcnt b + 1\<rparr>) s in
           andthen (krelease BcacheLock s) (\<lambda>_ s.
           andthen (acquiresleep (BufSleep i) s) (\<lambda>_ s. Ret i s))
       | None \<Rightarrow>
           (case find (\<lambda>i. b_refcnt (bufs s ! i) = 0 \<and> \<not> b_dirty (bufs s ! i)) (rev (lru s)) of
              Some i \<Rightarrow>
                let s = upd_buf i (\<lambda>b. b\<lparr>b_dev := dev, b_blockno := blockno, b_valid := False, b_dirty := False, b_refcnt := 1\<rparr>) s in
                andthen (krelease BcacheLock s) (\<lambda>_ s.
                andthen (acquiresleep (BufSleep i) s) (\<lambda>_ s. Ret i s))
            | None \<Rightarrow> Panic ''bget: no buffers''))"

definition bread :: "u32 \<Rightarrow> u32 \<Rightarrow> 'x bio_state_scheme \<Rightarrow> ('x bio_state_scheme, nat) outcome" where
  "bread dev blockno s =
     andthen (bget dev blockno s) (\<lambda>i s.
     andthen (if \<not> b_valid (bufs s ! i) then iderw i s else Ret () s) (\<lambda>_ s. Ret i s))"

definition bwrite :: "nat \<Rightarrow> 'x bio_state_scheme \<Rightarrow> ('x bio_state_scheme, unit) outcome" where
  "bwrite i s =
     andthen (holdingsleep (BufSleep i) s) (\<lambda>h s.
       if \<not> h then Panic ''bwrite''
       else iderw i (upd_buf i (\<lambda>b. b\<lparr>b_dirty := True\<rparr>) s))"

definition brelse :: "nat \<Rightarrow> 'x bio_state_scheme \<Rightarrow> ('x bio_state_scheme, unit) outcome" where
  "brelse i s =
     andthen (holdingsleep (BufSleep i) s) (\<lambda>h s.
       if \<not> h then Panic ''brelse''
       else andthen (releasesleep (BufSleep i) s) (\<lambda>_ s.
         andthen (kacquire BcacheLock s) (\<lambda>_ s.
           let s = upd_buf i (\<lambda>b. b\<lparr>b_refcnt := b_refcnt b - 1\<rparr>) s;
               s = (if b_refcnt (bufs s ! i) = 0 then s\<lparr>lru := i # remove1 i (lru s)\<rparr> else s) in
           krelease BcacheLock s)))"

end
