(* ===== verification/Log.thy ===== *)
theory Log
  imports Bio
begin

text \<open>
  The redo log of the file system, \<^verbatim>\<open>log.c\<close>, with \<^verbatim>\<open>readsb\<close> of \<^verbatim>\<open>fs.c\<close>, which it uses. The header of
  the log is in a block of the disk: the word 0 is the number of logged blocks, the words
  from 1 on are their block numbers. An access to an array entry that does not exist is \<open>Undef\<close>.
\<close>

section \<open>The super block\<close>

record superblock =
  sb_size :: u32
  sb_nblocks :: u32
  sb_ninodes :: u32
  sb_nlog :: u32
  sb_logstart :: u32
  sb_inodestart :: u32
  sb_bmapstart :: u32

definition readsb :: "u32 \<Rightarrow> 'x bio_state_scheme \<Rightarrow> ('x bio_state_scheme, superblock) outcome" where
  "readsb dev s =
     andthen (bread dev 1 s) (\<lambda>bp s.
       let d = b_data (bufs s ! bp);
           sb = \<lparr>sb_size = word_at d 0, sb_nblocks = word_at d 4, sb_ninodes = word_at d 8, sb_nlog = word_at d 12,
                 sb_logstart = word_at d 16, sb_inodestart = word_at d 20, sb_bmapstart = word_at d 24\<rparr> in
       andthen (brelse bp s) (\<lambda>_ s. Ret sb s))"

section \<open>The log\<close>

record log_rec =
  l_start :: u32
  l_size :: int
  l_outstanding :: int
  l_committing :: bool
  l_dev :: u32
  lh_n :: int
  lh_block :: "u32 list"

record log_state = bio_state +
  the_log :: log_rec

abbreviation upd_log :: "(log_rec \<Rightarrow> log_rec) \<Rightarrow> 'x log_state_scheme \<Rightarrow> 'x log_state_scheme" where
  "upd_log f s \<equiv> s\<lparr>the_log := f (the_log s)\<rparr>"

text \<open>One step of the loops of \<^verbatim>\<open>install_trans\<close> and \<^verbatim>\<open>write_log\<close>.\<close>

definition install_block :: "nat \<Rightarrow> 'x log_state_scheme \<Rightarrow> ('x log_state_scheme, unit) outcome" where
  "install_block tail s =
     andthen (bread (l_dev (the_log s)) (l_start (the_log s) + of_nat tail + 1) s) (\<lambda>lbuf s.
       if tail \<ge> length (lh_block (the_log s)) then Undef ''log.lh.block'' else
       andthen (bread (l_dev (the_log s)) (lh_block (the_log s) ! tail) s) (\<lambda>dbuf s.
         let s = upd_buf dbuf (\<lambda>b. b\<lparr>b_data := b_data (bufs s ! lbuf)\<rparr>) s in
         andthen (bwrite dbuf s) (\<lambda>_ s.
         andthen (brelse lbuf s) (\<lambda>_ s.
         brelse dbuf s))))"

definition install_trans :: "'x log_state_scheme \<Rightarrow> ('x log_state_scheme, unit) outcome" where
  "install_trans s = each install_block [0..<nat (lh_n (the_log s))] s"

definition read_head :: "'x log_state_scheme \<Rightarrow> ('x log_state_scheme, unit) outcome" where
  "read_head s =
     andthen (bread (l_dev (the_log s)) (l_start (the_log s)) s) (\<lambda>buf s.
       let lh = b_data (bufs s ! buf);
           s = upd_log (\<lambda>l. l\<lparr>lh_n := sint (word_at lh 0)\<rparr>) s in
       andthen (each (\<lambda>i s.
           if i \<ge> length (lh_block (the_log s)) then Undef ''log.lh.block''
           else Ret () (upd_log (\<lambda>l. l\<lparr>lh_block := (lh_block l)[i := word_at lh (4 + 4 * i)]\<rparr>) s))
         [0..<nat (lh_n (the_log s))] s) (\<lambda>_ s.
       brelse buf s))"

definition write_head :: "'x log_state_scheme \<Rightarrow> ('x log_state_scheme, unit) outcome" where
  "write_head s =
     andthen (bread (l_dev (the_log s)) (l_start (the_log s)) s) (\<lambda>buf s.
       let s = upd_buf buf (\<lambda>b. b\<lparr>b_data := put_word 0 (of_int (lh_n (the_log s))) (b_data b)\<rparr>) s in
       andthen (each (\<lambda>i s.
           if i \<ge> length (lh_block (the_log s)) then Undef ''log.lh.block''
           else Ret () (upd_buf buf (\<lambda>b. b\<lparr>b_data := put_word (4 + 4 * i) (lh_block (the_log s) ! i) (b_data b)\<rparr>) s))
         [0..<nat (lh_n (the_log s))] s) (\<lambda>_ s.
       andthen (bwrite buf s) (\<lambda>_ s.
       brelse buf s)))"

definition recover_from_log :: "'x log_state_scheme \<Rightarrow> ('x log_state_scheme, unit) outcome" where
  "recover_from_log s =
     andthen (read_head s) (\<lambda>_ s.
     andthen (install_trans s) (\<lambda>_ s.
       let s = upd_log (\<lambda>l. l\<lparr>lh_n := 0\<rparr>) s in
       write_head s))"

text \<open>\<^verbatim>\<open>sizeof(struct logheader)\<close> is 124, below \<^verbatim>\<open>BSIZE\<close>.\<close>

definition initlog :: "u32 \<Rightarrow> 'x log_state_scheme \<Rightarrow> ('x log_state_scheme, unit) outcome" where
  "initlog dev s =
     (if 4 + 4 * LOGSIZE \<ge> BSIZE then Panic ''initlog: too big logheader''
      else
        let s = s\<lparr>mach := initlock LogLock (mach s)\<rparr> in
        andthen (readsb dev s) (\<lambda>sb s.
          let s = upd_log (\<lambda>l. l\<lparr>l_start := sb_logstart sb, l_size := sint (sb_nlog sb), l_dev := dev\<rparr>) s in
          recover_from_log s))"

definition begin_op_loop :: "'x log_state_scheme \<Rightarrow> ('x log_state_scheme, unit) outcome" where
  "begin_op_loop s =
     (if l_committing (the_log s) then go_to_sleep LogChan LogLock s
      else if lh_n (the_log s) + (l_outstanding (the_log s) + 1) * int MAXOPBLOCKS > int LOGSIZE
      then go_to_sleep LogChan LogLock s
      else
        let s = upd_log (\<lambda>l. l\<lparr>l_outstanding := l_outstanding l + 1\<rparr>) s in
        krelease LogLock s)"

definition begin_op :: "'x log_state_scheme \<Rightarrow> ('x log_state_scheme, unit) outcome" where
  "begin_op s = andthen (kacquire LogLock s) (\<lambda>_ s. begin_op_loop s)"

definition begin_op_resume :: "nat \<Rightarrow> switch \<Rightarrow> 'x log_state_scheme \<Rightarrow> ('x log_state_scheme, unit) outcome" where
  "begin_op_resume t sw s = andthen (sleep_resume t LogLock sw s) (\<lambda>_ s. begin_op_loop s)"

definition write_log_block :: "nat \<Rightarrow> 'x log_state_scheme \<Rightarrow> ('x log_state_scheme, unit) outcome" where
  "write_log_block tail s =
     andthen (bread (l_dev (the_log s)) (l_start (the_log s) + of_nat tail + 1) s) (\<lambda>to s.
       if tail \<ge> length (lh_block (the_log s)) then Undef ''log.lh.block'' else
       andthen (bread (l_dev (the_log s)) (lh_block (the_log s) ! tail) s) (\<lambda>from s.
         let s = upd_buf to (\<lambda>b. b\<lparr>b_data := b_data (bufs s ! from)\<rparr>) s in
         andthen (bwrite to s) (\<lambda>_ s.
         andthen (brelse from s) (\<lambda>_ s.
         brelse to s))))"

definition write_log :: "'x log_state_scheme \<Rightarrow> ('x log_state_scheme, unit) outcome" where
  "write_log s = each write_log_block [0..<nat (lh_n (the_log s))] s"

definition commit :: "'x log_state_scheme \<Rightarrow> ('x log_state_scheme, unit) outcome" where
  "commit s =
     (if lh_n (the_log s) > 0 then
        andthen (write_log s) (\<lambda>_ s.
        andthen (write_head s) (\<lambda>_ s.
        andthen (install_trans s) (\<lambda>_ s.
          let s = upd_log (\<lambda>l. l\<lparr>lh_n := 0\<rparr>) s in
          write_head s)))
      else Ret () s)"

definition end_op :: "'x log_state_scheme \<Rightarrow> ('x log_state_scheme, unit) outcome" where
  "end_op s =
     andthen (kacquire LogLock s) (\<lambda>_ s.
       let s = upd_log (\<lambda>l. l\<lparr>l_outstanding := l_outstanding l - 1\<rparr>) s in
       if l_committing (the_log s) then Panic ''log.committing''
       else if l_outstanding (the_log s) = 0 then
         let s = upd_log (\<lambda>l. l\<lparr>l_committing := True\<rparr>) s in
         andthen (krelease LogLock s) (\<lambda>_ s.
         andthen (commit s) (\<lambda>_ s.
         andthen (kacquire LogLock s) (\<lambda>_ s.
           let s = upd_log (\<lambda>l. l\<lparr>l_committing := False\<rparr>) s in
           andthen (wakeup LogChan s) (\<lambda>_ s. krelease LogLock s))))
       else andthen (wakeup LogChan s) (\<lambda>_ s. krelease LogLock s))"

definition log_write :: "nat \<Rightarrow> 'x log_state_scheme \<Rightarrow> ('x log_state_scheme, unit) outcome" where
  "log_write b s =
     (if lh_n (the_log s) \<ge> int LOGSIZE \<or> lh_n (the_log s) \<ge> l_size (the_log s) - 1
      then Panic ''too big a transaction''
      else if l_outstanding (the_log s) < 1 then Panic ''log_write outside of trans''
      else andthen (kacquire LogLock s) (\<lambda>_ s.
        let n = nat (lh_n (the_log s));
            bn = b_blockno (bufs s ! b);
            i = (case first_such (\<lambda>x. x = bn) (take n (lh_block (the_log s))) of Some i \<Rightarrow> i | None \<Rightarrow> n);
            s = upd_log (\<lambda>l. l\<lparr>lh_block := (lh_block l)[i := bn]\<rparr>) s;
            s = (if i = n then upd_log (\<lambda>l. l\<lparr>lh_n := lh_n l + 1\<rparr>) s else s);
            s = upd_buf b (\<lambda>b. b\<lparr>b_dirty := True\<rparr>) s in
        krelease LogLock s))"

end
