(* ===== verification/Inode.thy ===== *)
theory Inode
  imports Log
begin

text \<open>
  The lower half of \<^verbatim>\<open>fs.c\<close>: the block allocator, the cache of inodes, and the map from the blocks of a
  file to the blocks of the disk, with its three levels of indirection. A cached inode is named by
  its index in \<^verbatim>\<open>icache.inode\<close>. The line that \<^verbatim>\<open>iinit\<close> prints is left out.
\<close>

section \<open>On-disk structures\<close>

definition NDIRECT :: nat where "NDIRECT = 10"
definition NINDIRECT :: nat where "NINDIRECT = BSIZE div 4"
definition NDINDIRECT :: nat where "NDINDIRECT = NINDIRECT * NINDIRECT"
definition NTINDIRECT :: nat where "NTINDIRECT = NDINDIRECT * NINDIRECT"
definition MAXFILE :: nat where "MAXFILE = NDIRECT + NINDIRECT + NDINDIRECT + NTINDIRECT"
definition IPB :: nat where "IPB = BSIZE div 64"
definition BPB :: nat where "BPB = BSIZE * 8"
definition NINODE :: nat where "NINODE = 50"
definition ROOTINO :: u32 where "ROOTINO = 1"

record dinode =
  di_type :: u16
  di_major :: u16
  di_minor :: u16
  di_nlink :: u16
  di_size :: u32
  di_addrs :: "u32 list"

text \<open>The inode at offset \<open>off\<close> of a block; it takes 64 bytes.\<close>

definition get_dinode :: "block \<Rightarrow> nat \<Rightarrow> dinode" where
  "get_dinode d off =
     \<lparr>di_type = half_at d off, di_major = half_at d (off + 2), di_minor = half_at d (off + 4),
      di_nlink = half_at d (off + 6), di_size = word_at d (off + 8),
      di_addrs = map (\<lambda>i. word_at d (off + 12 + 4 * i)) [0..<NDIRECT + 3]\<rparr>"

definition put_dinode :: "nat \<Rightarrow> dinode \<Rightarrow> block \<Rightarrow> block" where
  "put_dinode off di d =
     (let d = put_half off (di_type di) d;
          d = put_half (off + 2) (di_major di) d;
          d = put_half (off + 4) (di_minor di) d;
          d = put_half (off + 6) (di_nlink di) d;
          d = put_word (off + 8) (di_size di) d in
      fold (\<lambda>i d. put_word (off + 12 + 4 * i) (di_addrs di ! i) d) [0..<NDIRECT + 3] d)"

record inode =
  i_dev :: u32
  i_inum :: u32
  i_ref :: int
  i_valid :: bool
  i_type :: u16
  i_major :: u16
  i_minor :: u16
  i_nlink :: u16
  i_size :: u32
  i_addrs :: "u32 list"

record inode_state = log_state +
  inodes :: "inode list"
  sb :: superblock

abbreviation upd_inode :: "nat \<Rightarrow> (inode \<Rightarrow> inode) \<Rightarrow> 'x inode_state_scheme \<Rightarrow> 'x inode_state_scheme" where
  "upd_inode ip f s \<equiv> s\<lparr>inodes := modify ip f (inodes s)\<rparr>"

definition IBLOCK :: "u32 \<Rightarrow> superblock \<Rightarrow> u32" where "IBLOCK i x = i div of_nat IPB + sb_inodestart x"
definition BBLOCK :: "u32 \<Rightarrow> superblock \<Rightarrow> u32" where "BBLOCK b x = b div of_nat BPB + sb_bmapstart x"

section \<open>Blocks\<close>

definition bzero :: "u32 \<Rightarrow> u32 \<Rightarrow> 'x inode_state_scheme \<Rightarrow> ('x inode_state_scheme, unit) outcome" where
  "bzero dev bno s =
     andthen (bread dev bno s) (\<lambda>bp s.
       let s = upd_buf bp (\<lambda>b. b\<lparr>b_data := replicate BSIZE 0\<rparr>) s in
       andthen (log_write bp s) (\<lambda>_ s. brelse bp s))"

definition bit_mask :: "nat \<Rightarrow> u8" where "bit_mask bi = push_bit (bi mod 8) 1"

text \<open>The outer loop of \<^verbatim>\<open>balloc\<close>; \<open>b\<close> reaches the size of the file system after at most
  \<open>2 ^ 20\<close> steps.\<close>

primrec balloc_from :: "nat \<Rightarrow> u32 \<Rightarrow> u32 \<Rightarrow> 'x inode_state_scheme \<Rightarrow> ('x inode_state_scheme, u32) outcome" where
  "balloc_from 0 dev b s = Hang"
| "balloc_from (Suc k) dev b s =
     (if \<not> b < sb_size (sb s) then Panic ''balloc: out of blocks''
      else andthen (bread dev (BBLOCK b (sb s)) s) (\<lambda>bp s.
        case find (\<lambda>bi. b_data (bufs s ! bp) ! (bi div 8) AND bit_mask bi = 0)
               (takeWhile (\<lambda>bi. b + of_nat bi < sb_size (sb s)) [0..<BPB]) of
          Some bi \<Rightarrow>
            let s = upd_buf bp (\<lambda>x. x\<lparr>b_data := modify (bi div 8) (\<lambda>y. y OR bit_mask bi) (b_data x)\<rparr>) s in
            andthen (log_write bp s) (\<lambda>_ s.
            andthen (brelse bp s) (\<lambda>_ s.
            andthen (bzero dev (b + of_nat bi) s) (\<lambda>_ s. Ret (b + of_nat bi) s)))
        | None \<Rightarrow> andthen (brelse bp s) (\<lambda>_ s. balloc_from k dev (b + of_nat BPB) s)))"

definition balloc :: "u32 \<Rightarrow> 'x inode_state_scheme \<Rightarrow> ('x inode_state_scheme, u32) outcome" where
  "balloc dev s = balloc_from 1048577 dev 0 s"

definition bfree :: "u32 \<Rightarrow> u32 \<Rightarrow> 'x inode_state_scheme \<Rightarrow> ('x inode_state_scheme, unit) outcome" where
  "bfree dev b s =
     andthen (bread dev (BBLOCK b (sb s)) s) (\<lambda>bp s.
       let bi = unat b mod BPB in
       if b_data (bufs s ! bp) ! (bi div 8) AND bit_mask bi = 0 then Panic ''freeing free block''
       else
         let s = upd_buf bp (\<lambda>x. x\<lparr>b_data := modify (bi div 8) (\<lambda>y. y AND NOT (bit_mask bi)) (b_data x)\<rparr>) s in
         andthen (log_write bp s) (\<lambda>_ s. brelse bp s))"

section \<open>The inode cache\<close>

definition iinit :: "u32 \<Rightarrow> 'x inode_state_scheme \<Rightarrow> ('x inode_state_scheme, unit) outcome" where
  "iinit dev s =
     (let s = s\<lparr>mach := initlock IcacheLock (mach s)\<rparr>;
          s = fold (\<lambda>i s. initsleeplock (InodeSleep i) s) [0..<NINODE] s in
      andthen (readsb dev s) (\<lambda>x s. Ret () (s\<lparr>sb := x\<rparr>)))"

definition iget :: "u32 \<Rightarrow> u32 \<Rightarrow> 'x inode_state_scheme \<Rightarrow> ('x inode_state_scheme, nat) outcome" where
  "iget dev inum s =
     andthen (kacquire IcacheLock s) (\<lambda>_ s.
       case first_such (\<lambda>ip. i_ref ip > 0 \<and> i_dev ip = dev \<and> i_inum ip = inum) (inodes s) of
         Some ip \<Rightarrow>
           let s = upd_inode ip (\<lambda>i. i\<lparr>i_ref := i_ref i + 1\<rparr>) s in
           andthen (krelease IcacheLock s) (\<lambda>_ s. Ret ip s)
       | None \<Rightarrow>
           (case first_such (\<lambda>ip. i_ref ip = 0) (inodes s) of
              None \<Rightarrow> Panic ''iget: no inodes''
            | Some ip \<Rightarrow>
                let s = upd_inode ip (\<lambda>i. i\<lparr>i_dev := dev, i_inum := inum, i_ref := 1, i_valid := False\<rparr>) s in
                andthen (krelease IcacheLock s) (\<lambda>_ s. Ret ip s)))"

definition inode_off :: "u32 \<Rightarrow> nat" where "inode_off inum = 64 * (unat inum mod IPB)"

primrec ialloc_from :: "u32 \<Rightarrow> u16 \<Rightarrow> nat list \<Rightarrow> 'x inode_state_scheme \<Rightarrow> ('x inode_state_scheme, nat) outcome" where
  "ialloc_from dev type [] s = Panic ''ialloc: no inodes''"
| "ialloc_from dev type (inum # is) s =
     andthen (bread dev (IBLOCK (of_nat inum) (sb s)) s) (\<lambda>bp s.
       let off = inode_off (of_nat inum) in
       if half_at (b_data (bufs s ! bp)) off = 0 then
         let s = upd_buf bp (\<lambda>b. b\<lparr>b_data := put_half off type (put_bytes off (replicate 64 0) (b_data b))\<rparr>) s in
         andthen (log_write bp s) (\<lambda>_ s.
         andthen (brelse bp s) (\<lambda>_ s.
         iget dev (of_nat inum) s))
       else andthen (brelse bp s) (\<lambda>_ s. ialloc_from dev type is s))"

definition ialloc :: "u32 \<Rightarrow> u16 \<Rightarrow> 'x inode_state_scheme \<Rightarrow> ('x inode_state_scheme, nat) outcome" where
  "ialloc dev type s = ialloc_from dev type [1..<unat (sb_ninodes (sb s))] s"

definition iupdate :: "nat \<Rightarrow> 'x inode_state_scheme \<Rightarrow> ('x inode_state_scheme, unit) outcome" where
  "iupdate ip s =
     andthen (bread (i_dev (inodes s ! ip)) (IBLOCK (i_inum (inodes s ! ip)) (sb s)) s) (\<lambda>bp s.
       let i = inodes s ! ip;
           di = \<lparr>di_type = i_type i, di_major = i_major i, di_minor = i_minor i, di_nlink = i_nlink i,
                 di_size = i_size i, di_addrs = i_addrs i\<rparr>;
           s = upd_buf bp (\<lambda>b. b\<lparr>b_data := put_dinode (inode_off (i_inum i)) di (b_data b)\<rparr>) s in
       andthen (log_write bp s) (\<lambda>_ s. brelse bp s))"

definition idup :: "nat \<Rightarrow> 'x inode_state_scheme \<Rightarrow> ('x inode_state_scheme, nat) outcome" where
  "idup ip s =
     andthen (kacquire IcacheLock s) (\<lambda>_ s.
       let s = upd_inode ip (\<lambda>i. i\<lparr>i_ref := i_ref i + 1\<rparr>) s in
       andthen (krelease IcacheLock s) (\<lambda>_ s. Ret ip s))"

definition ilock :: "nat \<Rightarrow> 'x inode_state_scheme \<Rightarrow> ('x inode_state_scheme, unit) outcome" where
  "ilock ip s =
     (if i_ref (inodes s ! ip) < 1 then Panic ''ilock''
      else andthen (acquiresleep (InodeSleep ip) s) (\<lambda>_ s.
        if \<not> i_valid (inodes s ! ip) then
          andthen (bread (i_dev (inodes s ! ip)) (IBLOCK (i_inum (inodes s ! ip)) (sb s)) s) (\<lambda>bp s.
            let di = get_dinode (b_data (bufs s ! bp)) (inode_off (i_inum (inodes s ! ip)));
                s = upd_inode ip (\<lambda>i. i\<lparr>i_type := di_type di, i_major := di_major di, i_minor := di_minor di,
                      i_nlink := di_nlink di, i_size := di_size di, i_addrs := di_addrs di\<rparr>) s in
            andthen (brelse bp s) (\<lambda>_ s.
              let s = upd_inode ip (\<lambda>i. i\<lparr>i_valid := True\<rparr>) s in
              if i_type (inodes s ! ip) = 0 then Panic ''ilock: no type'' else Ret () s))
        else Ret () s))"

definition iunlock :: "nat \<Rightarrow> 'x inode_state_scheme \<Rightarrow> ('x inode_state_scheme, unit) outcome" where
  "iunlock ip s =
     andthen (holdingsleep (InodeSleep ip) s) (\<lambda>h s.
       if \<not> h \<or> i_ref (inodes s ! ip) < 1 then Panic ''iunlock''
       else releasesleep (InodeSleep ip) s)"

section \<open>The blocks of a file\<close>

text \<open>\<open>addr_slot\<close> is the access to a block number in the inode that \<^verbatim>\<open>bmap\<close> makes first, and
  \<open>table_slot\<close> the access to an entry of an indirect block: an entry that is 0 gets a new block.\<close>

definition addr_slot :: "nat \<Rightarrow> nat \<Rightarrow> 'x inode_state_scheme \<Rightarrow> ('x inode_state_scheme, u32) outcome" where
  "addr_slot ip k s =
     (let addr = i_addrs (inodes s ! ip) ! k in
      if addr = 0 then
        andthen (balloc (i_dev (inodes s ! ip)) s) (\<lambda>addr s.
          Ret addr (upd_inode ip (\<lambda>i. i\<lparr>i_addrs := (i_addrs i)[k := addr]\<rparr>) s))
      else Ret addr s)"

definition table_slot :: "u32 \<Rightarrow> u32 \<Rightarrow> nat \<Rightarrow> 'x inode_state_scheme \<Rightarrow> ('x inode_state_scheme, u32) outcome" where
  "table_slot dev blk k s =
     andthen (bread dev blk s) (\<lambda>bp s.
       let addr = word_at (b_data (bufs s ! bp)) (4 * k) in
       andthen
         (if addr = 0 then
            andthen (balloc dev s) (\<lambda>addr s.
              let s = upd_buf bp (\<lambda>b. b\<lparr>b_data := put_word (4 * k) addr (b_data b)\<rparr>) s in
              andthen (log_write bp s) (\<lambda>_ s. Ret addr s))
          else Ret addr s) (\<lambda>addr s.
       andthen (brelse bp s) (\<lambda>_ s. Ret addr s)))"

definition bmap :: "nat \<Rightarrow> u32 \<Rightarrow> 'x inode_state_scheme \<Rightarrow> ('x inode_state_scheme, u32) outcome" where
  "bmap ip bn s =
     (let dev = i_dev (inodes s ! ip) in
      if unat bn < NDIRECT then addr_slot ip (unat bn) s
      else
        let n = unat bn - NDIRECT in
        if n < NINDIRECT then
          andthen (addr_slot ip NDIRECT s) (\<lambda>addr s.
          table_slot dev addr n s)
        else if n < NDINDIRECT then
          andthen (addr_slot ip (NDIRECT + 1) s) (\<lambda>addr s.
          andthen (table_slot dev addr (n div NINDIRECT) s) (\<lambda>addr s.
          table_slot dev addr (n mod NINDIRECT) s))
        else if n < NTINDIRECT then
          andthen (addr_slot ip (NDIRECT + 2) s) (\<lambda>addr s.
          andthen (table_slot dev addr (n div NDINDIRECT) s) (\<lambda>addr s.
          andthen (table_slot dev addr ((n mod NDINDIRECT) div NINDIRECT) s) (\<lambda>addr s.
          table_slot dev addr (n mod NINDIRECT) s)))
        else Panic ''bmap: out of range'')"

text \<open>The loops of \<^verbatim>\<open>itrunc\<close>: \<open>trunc1\<close> frees the blocks listed in an indirect block, \<open>trunc2\<close> and
  \<open>trunc3\<close> those below a double and a triple indirect block.\<close>

definition trunc1 :: "u32 \<Rightarrow> u32 \<Rightarrow> 'x inode_state_scheme \<Rightarrow> ('x inode_state_scheme, unit) outcome" where
  "trunc1 dev blk s =
     andthen (bread dev blk s) (\<lambda>bp s.
     andthen (each (\<lambda>j s.
         let a = word_at (b_data (bufs s ! bp)) (4 * j) in
         if a \<noteq> 0 then bfree dev a s else Ret () s) [0..<NINDIRECT] s) (\<lambda>_ s.
     brelse bp s))"

definition trunc2 :: "u32 \<Rightarrow> u32 \<Rightarrow> 'x inode_state_scheme \<Rightarrow> ('x inode_state_scheme, unit) outcome" where
  "trunc2 dev blk s =
     andthen (bread dev blk s) (\<lambda>bp s.
     andthen (each (\<lambda>j s.
         let a = word_at (b_data (bufs s ! bp)) (4 * j) in
         if a \<noteq> 0 then
           andthen (trunc1 dev a s) (\<lambda>_ s.
           bfree dev (word_at (b_data (bufs s ! bp)) (4 * j)) s)
         else Ret () s) [0..<NINDIRECT] s) (\<lambda>_ s.
     brelse bp s))"

definition trunc3 :: "u32 \<Rightarrow> u32 \<Rightarrow> 'x inode_state_scheme \<Rightarrow> ('x inode_state_scheme, unit) outcome" where
  "trunc3 dev blk s =
     andthen (bread dev blk s) (\<lambda>bp s.
     andthen (each (\<lambda>j s.
         let a = word_at (b_data (bufs s ! bp)) (4 * j) in
         if a \<noteq> 0 then
           andthen (trunc2 dev a s) (\<lambda>_ s.
           bfree dev (word_at (b_data (bufs s ! bp)) (4 * j)) s)
         else Ret () s) [0..<NINDIRECT] s) (\<lambda>_ s.
     brelse bp s))"

definition trunc_slot ::
  "(u32 \<Rightarrow> u32 \<Rightarrow> 'x inode_state_scheme \<Rightarrow> ('x inode_state_scheme, unit) outcome) \<Rightarrow>
     nat \<Rightarrow> nat \<Rightarrow> 'x inode_state_scheme \<Rightarrow> ('x inode_state_scheme, unit) outcome" where
  "trunc_slot below ip k s =
     (let i = inodes s ! ip in
      if i_addrs i ! k \<noteq> 0 then
        andthen (below (i_dev i) (i_addrs i ! k) s) (\<lambda>_ s.
        andthen (bfree (i_dev (inodes s ! ip)) (i_addrs (inodes s ! ip) ! k) s) (\<lambda>_ s.
        Ret () (upd_inode ip (\<lambda>i. i\<lparr>i_addrs := (i_addrs i)[k := 0]\<rparr>) s)))
      else Ret () s)"

definition itrunc :: "nat \<Rightarrow> 'x inode_state_scheme \<Rightarrow> ('x inode_state_scheme, unit) outcome" where
  "itrunc ip s =
     andthen (each (\<lambda>i s. trunc_slot (\<lambda>_ _ s. Ret () s) ip i s) [0..<NDIRECT] s) (\<lambda>_ s.
     andthen (trunc_slot trunc1 ip NDIRECT s) (\<lambda>_ s.
     andthen (trunc_slot trunc2 ip (NDIRECT + 1) s) (\<lambda>_ s.
     andthen (trunc_slot trunc3 ip (NDIRECT + 2) s) (\<lambda>_ s.
       let s = upd_inode ip (\<lambda>i. i\<lparr>i_size := 0\<rparr>) s in
       iupdate ip s))))"

definition iput :: "nat \<Rightarrow> 'x inode_state_scheme \<Rightarrow> ('x inode_state_scheme, unit) outcome" where
  "iput ip s =
     andthen (acquiresleep (InodeSleep ip) s) (\<lambda>_ s.
     andthen (if i_valid (inodes s ! ip) \<and> i_nlink (inodes s ! ip) = 0 then
                andthen (kacquire IcacheLock s) (\<lambda>_ s.
                  let r = i_ref (inodes s ! ip) in
                  andthen (krelease IcacheLock s) (\<lambda>_ s.
                    if r = 1 then
                      andthen (itrunc ip s) (\<lambda>_ s.
                        let s = upd_inode ip (\<lambda>i. i\<lparr>i_type := 0\<rparr>) s in
                        andthen (iupdate ip s) (\<lambda>_ s.
                        Ret () (upd_inode ip (\<lambda>i. i\<lparr>i_valid := False\<rparr>) s)))
                    else Ret () s))
              else Ret () s) (\<lambda>_ s.
     andthen (releasesleep (InodeSleep ip) s) (\<lambda>_ s.
     andthen (kacquire IcacheLock s) (\<lambda>_ s.
       let s = upd_inode ip (\<lambda>i. i\<lparr>i_ref := i_ref i - 1\<rparr>) s in
       krelease IcacheLock s))))"

definition iunlockput :: "nat \<Rightarrow> 'x inode_state_scheme \<Rightarrow> ('x inode_state_scheme, unit) outcome" where
  "iunlockput ip s = andthen (iunlock ip s) (\<lambda>_ s. iput ip s)"

end
