(* ===== verification/Console.thy ===== *)
theory Console
  imports Inode
begin

text \<open>
  The console, \<^verbatim>\<open>console.c\<close> with \<^verbatim>\<open>uartputc\<close> of \<^verbatim>\<open>uart.c\<close>, \<^verbatim>\<open>getcallerpcs\<close> of \<^verbatim>\<open>spinlock.c\<close> and \<^verbatim>\<open>procdump\<close> of
  \<^verbatim>\<open>proc.c\<close>. The screen memory is \<open>crt\<close>, the cursor registers of the display hold \<open>crt_pos\<close>, and
  \<open>serial\<close> is what was sent to the serial port. The arguments of \<^verbatim>\<open>cprintf\<close> after the format are
  a list of numbers and strings. Characters to be printed are integers, 256 being \<^verbatim>\<open>BACKSPACE\<close>.
\<close>

text \<open>An entry of \<^verbatim>\<open>devsw\<close> holds no functions or those of the console.\<close>

datatype driver = NoDriver | ConsoleDriver

record cons_state = inode_state +
  panicked :: bool
  cons_locking :: bool
  input_buf :: "u8 list"
  input_r :: u32
  input_w :: u32
  input_e :: u32
  crt :: "nat \<Rightarrow> u16"
  crt_pos :: nat
  uart :: bool
  serial :: "u8 list"
  devsw :: "driver list"

definition NDEV :: nat where "NDEV = 10"
definition CONSOLE :: nat where "CONSOLE = 1"
definition INPUT_BUF :: nat where "INPUT_BUF = 128"
definition BACKSPACE :: int where "BACKSPACE = 0x100"

definition str8 :: "string \<Rightarrow> u8 list" where "str8 cs = map of_char cs"

text \<open>The string in an array of at most \<open>n\<close> bytes.\<close>

definition c_string :: "nat \<Rightarrow> (nat \<Rightarrow> u8) \<Rightarrow> u8 list" where
  "c_string n f = takeWhile (\<lambda>c. c \<noteq> 0) (map f [0..<n])"

section \<open>Output\<close>

definition uartputc :: "int \<Rightarrow> 'x cons_state_scheme \<Rightarrow> 'x cons_state_scheme" where
  "uartputc c s = (if \<not> uart s then s else s\<lparr>serial := serial s @ [of_int c]\<rparr>)"

definition cgaputc :: "int \<Rightarrow> 'x cons_state_scheme \<Rightarrow> ('x cons_state_scheme, unit) outcome" where
  "cgaputc c s =
     (let pos = crt_pos s;
          (pos, s) =
            (if c = 10 then (pos + (80 - pos mod 80), s)
             else if c = BACKSPACE then (if pos > 0 then pos - 1 else pos, s)
             else (pos + 1, s\<lparr>crt := (crt s)(pos := (of_int c AND 0xFF) OR 0x700)\<rparr>)) in
      if pos > 25 * 80 then Panic ''pos under/overflow''
      else
        let (pos, s) =
              (if pos div 80 \<ge> 24 then
                 let s = s\<lparr>crt := (\<lambda>i. if i < 23 * 80 then crt s (i + 80) else crt s i)\<rparr>;
                     pos = pos - 80 in
                 (pos, s\<lparr>crt := (\<lambda>i. if pos \<le> i \<and> i < 24 * 80 then 0 else crt s i)\<rparr>)
               else (pos, s));
            s = s\<lparr>crt_pos := pos mod 65536\<rparr> in
        Ret () (s\<lparr>crt := (crt s)(pos := 0x20 OR 0x700)\<rparr>))"

definition consputc :: "int \<Rightarrow> 'x cons_state_scheme \<Rightarrow> ('x cons_state_scheme, unit) outcome" where
  "consputc c s =
     (if panicked s then Hang
      else
        let s = (if c = BACKSPACE then uartputc 8 (uartputc 32 (uartputc 8 s)) else uartputc c s) in
        cgaputc c s)"

definition hexdigits :: "u8 list" where "hexdigits = str8 ''0123456789abcdef''"

text \<open>The loop of \<^verbatim>\<open>printint\<close> that fills \<^verbatim>\<open>buf\<close>: \<open>None\<close> when the 16 bytes of the buffer do not
  suffice.\<close>

primrec int_digits :: "nat \<Rightarrow> u32 \<Rightarrow> u32 \<Rightarrow> u8 list \<Rightarrow> u8 list option" where
  "int_digits 0 x base acc = None"
| "int_digits (Suc k) x base acc =
     (let acc = acc @ [hexdigits ! unat (x mod base)];
          x = x div base in
      if x \<noteq> 0 then int_digits k x base acc else Some acc)"

definition int_text :: "int \<Rightarrow> u32 \<Rightarrow> bool \<Rightarrow> u8 list option" where
  "int_text xx base sign =
     (let neg = (sign \<and> xx < 0);
          x = (if neg then - of_int xx else of_int xx) in
      case int_digits 16 x base [] of
        None \<Rightarrow> None
      | Some ds \<Rightarrow> if neg then (if length ds < 16 then Some (ds @ [45]) else None) else Some ds)"

definition printint :: "int \<Rightarrow> u32 \<Rightarrow> bool \<Rightarrow> 'x cons_state_scheme \<Rightarrow> ('x cons_state_scheme, unit) outcome" where
  "printint xx base sign s =
     (case int_text xx base sign of
        None \<Rightarrow> Undef ''printint: buf''
      | Some ds \<Rightarrow> each (\<lambda>c s. consputc (uint c) s) (rev ds) s)"

datatype carg = Num u32 | Str "u8 list option"

definition putstr :: "u8 list \<Rightarrow> 'x cons_state_scheme \<Rightarrow> ('x cons_state_scheme, unit) outcome" where
  "putstr cs s = each (\<lambda>c s. consputc (uint c) s) cs s"

text \<open>One conversion, the character after \<^verbatim>\<open>%\<close> being \<open>c\<close>.\<close>

definition convert :: "u8 \<Rightarrow> carg list \<Rightarrow> 'x cons_state_scheme \<Rightarrow> ('x cons_state_scheme, carg list) outcome" where
  "convert c args s =
     (if c = 100 then
        (case args of
           Num x # as \<Rightarrow> andthen (printint (sint x) 10 True s) (\<lambda>_ s. Ret as s)
         | _ \<Rightarrow> Undef ''cprintf: argument'')
      else if c = 120 \<or> c = 112 then
        (case args of
           Num x # as \<Rightarrow> andthen (printint (sint x) 16 False s) (\<lambda>_ s. Ret as s)
         | _ \<Rightarrow> Undef ''cprintf: argument'')
      else if c = 115 then
        (case args of
           Str x # as \<Rightarrow>
             andthen (putstr (case x of None \<Rightarrow> str8 ''(null)'' | Some cs \<Rightarrow> cs) s) (\<lambda>_ s. Ret as s)
         | _ \<Rightarrow> Undef ''cprintf: argument'')
      else if c = 37 then andthen (consputc 37 s) (\<lambda>_ s. Ret args s)
      else andthen (consputc 37 s) (\<lambda>_ s. andthen (consputc (uint c) s) (\<lambda>_ s. Ret args s)))"

fun cprintf_loop :: "u8 list \<Rightarrow> carg list \<Rightarrow> 'x cons_state_scheme \<Rightarrow> ('x cons_state_scheme, unit) outcome" where
  "cprintf_loop [] args s = Ret () s"
| "cprintf_loop [c] args s = (if c = 0 \<or> c = 37 then Ret () s else consputc (uint c) s)"
| "cprintf_loop (c # d # cs) args s =
     (if c = 0 then Ret () s
      else if c \<noteq> 37 then andthen (consputc (uint c) s) (\<lambda>_ s. cprintf_loop (d # cs) args s)
      else if d = 0 then Ret () s
      else andthen (convert d args s) (\<lambda>as s. cprintf_loop cs as s))"

definition cprintf :: "u8 list \<Rightarrow> carg list \<Rightarrow> 'x cons_state_scheme \<Rightarrow> ('x cons_state_scheme, unit) outcome" where
  "cprintf fmt args s =
     (let locking = cons_locking s in
      andthen (if locking then kacquire ConsLock s else Ret () s) (\<lambda>_ s.
      andthen (cprintf_loop fmt args s) (\<lambda>_ s.
      if locking then krelease ConsLock s else Ret () s)))"

text \<open>\<^verbatim>\<open>panic\<close>, the return addresses on its stack being \<open>pcs\<close>, up to the loop in which it stays.\<close>

definition panic :: "u32 list \<Rightarrow> u8 list \<Rightarrow> 'x cons_state_scheme \<Rightarrow> ('x cons_state_scheme, unit) outcome" where
  "panic pcs msg s =
     (let s = s\<lparr>mach := cli (mach s), cons_locking := False\<rparr> in
      andthen (cprintf (str8 ''lapicid %d: panic: '') [Num (of_nat (lapicid (mach s)))] s) (\<lambda>_ s.
      andthen (cprintf msg [] s) (\<lambda>_ s.
      andthen (cprintf [10] [] s) (\<lambda>_ s.
      andthen (each (\<lambda>pc s. cprintf (str8 '' %p'') [Num pc] s) (take 10 pcs) s) (\<lambda>_ s.
      Ret () (s\<lparr>panicked := True\<rparr>))))))"

section \<open>The process listing\<close>

primrec callerpcs_from :: "nat \<Rightarrow> memory \<Rightarrow> u32 \<Rightarrow> u32 list" where
  "callerpcs_from 0 m ebp = []"
| "callerpcs_from (Suc k) m ebp =
     (if ebp = 0 \<or> ebp < KERNBASE \<or> ebp = 0xFFFFFFFF then []
      else load32 m (ebp + 4) # callerpcs_from k m (load32 m ebp))"

definition getcallerpcs :: "memory \<Rightarrow> u32 \<Rightarrow> u32 list" where
  "getcallerpcs m v = (let pcs = callerpcs_from 10 m (v - 8) in pcs @ replicate (10 - length pcs) 0)"

primrec state_name :: "procstate \<Rightarrow> string" where
  "state_name UNUSED = ''unused''"
| "state_name EMBRYO = ''embryo''"
| "state_name SLEEPING = ''sleep ''"
| "state_name RUNNABLE = ''runble''"
| "state_name RUNNING = ''run   ''"
| "state_name ZOMBIE = ''zombie''"

text \<open>\<^verbatim>\<open>ebp\<close> is the fourth word of a saved context.\<close>

definition procdump :: "'x cons_state_scheme \<Rightarrow> ('x cons_state_scheme, unit) outcome" where
  "procdump s =
     each (\<lambda>p s.
       let pr = procs s ! p in
       if p_state pr = UNUSED then Ret () s
       else
         andthen (cprintf (str8 ''%d %s %s'')
             [Num (of_int (p_pid pr)), Str (Some (str8 (state_name (p_state pr)))), Str (Some (c_string 16 (p_name pr)))] s) (\<lambda>_ s.
         andthen (if p_state (procs s ! p) = SLEEPING then
                    andthen (on_mach mythd s) (\<lambda>to s.
                      case to of
                        None \<Rightarrow> Undef ''procdump: no current thread''
                      | Some t \<Rightarrow>
                          each (\<lambda>pc s. cprintf (str8 '' %p'') [Num pc] s)
                            (takeWhile (\<lambda>pc. pc \<noteq> 0)
                              (getcallerpcs (mem s) (load32 (mem s) (t_context (threads s ! t) + 12) + 8))) s)
                  else Ret () s) (\<lambda>_ s.
         cprintf [10] [] s))) [0..<length (procs s)] s"

section \<open>Input\<close>

text \<open>\<^verbatim>\<open>C('U')\<close>: the number of characters after the last completed line bounds the loop.\<close>

primrec kill_line :: "nat \<Rightarrow> 'x cons_state_scheme \<Rightarrow> ('x cons_state_scheme, unit) outcome" where
  "kill_line 0 s = Ret () s"
| "kill_line (Suc k) s =
     (if input_buf s ! (unat (input_e s - 1) mod INPUT_BUF) \<noteq> 10 then
        let s = s\<lparr>input_e := input_e s - 1\<rparr> in
        andthen (consputc BACKSPACE s) (\<lambda>_ s. kill_line k s)
      else Ret () s)"

definition console_char :: "int \<Rightarrow> 'x cons_state_scheme \<Rightarrow> ('x cons_state_scheme, unit) outcome" where
  "console_char c s =
     (if c = 16 then Ret () s
      else if c = 21 then kill_line (unat (input_e s - input_w s)) s
      else if c = 8 \<or> c = 127 then
        (if input_e s \<noteq> input_w s then consputc BACKSPACE (s\<lparr>input_e := input_e s - 1\<rparr>) else Ret () s)
      else if c \<noteq> 0 \<and> unat (input_e s - input_r s) < INPUT_BUF then
        let c = (if c = 13 then 10 else c);
            s = s\<lparr>input_buf := (input_buf s)[unat (input_e s) mod INPUT_BUF := of_int c], input_e := input_e s + 1\<rparr> in
        andthen (consputc c s) (\<lambda>_ s.
          if c = 10 \<or> c = 4 \<or> input_e s = input_r s + of_nat INPUT_BUF
          then wakeup InputChan (s\<lparr>input_w := input_e s\<rparr>)
          else Ret () s)
      else Ret () s)"

text \<open>\<open>getc\<close> returns a character, or a negative number when there is none; it is called at most
  \<open>k\<close> times.\<close>

primrec consoleintr_loop ::
  "nat \<Rightarrow> ('x cons_state_scheme \<Rightarrow> int \<times> 'x cons_state_scheme) \<Rightarrow> bool \<Rightarrow>
     'x cons_state_scheme \<Rightarrow> ('x cons_state_scheme, bool) outcome" where
  "consoleintr_loop 0 getc dump s = Hang"
| "consoleintr_loop (Suc k) getc dump s =
     (let (c, s) = getc s in
      if c < 0 then Ret dump s
      else andthen (console_char c s) (\<lambda>_ s. consoleintr_loop k getc (dump \<or> c = 16) s))"

definition consoleintr ::
  "nat \<Rightarrow> ('x cons_state_scheme \<Rightarrow> int \<times> 'x cons_state_scheme) \<Rightarrow>
     'x cons_state_scheme \<Rightarrow> ('x cons_state_scheme, unit) outcome" where
  "consoleintr k getc s =
     andthen (kacquire ConsLock s) (\<lambda>_ s.
     andthen (consoleintr_loop k getc False s) (\<lambda>dump s.
     andthen (krelease ConsLock s) (\<lambda>_ s.
     if dump then procdump s else Ret () s)))"

section \<open>The console as a device\<close>

definition proc_dying :: "'x proc_state_scheme \<Rightarrow> ('x proc_state_scheme, bool) outcome" where
  "proc_dying s =
     andthen (on_mach myproc s) (\<lambda>po s.
       case po of
         None \<Rightarrow> Undef ''no current process''
       | Some p \<Rightarrow> Ret (p_killed (procs s ! p) \<or> p_exited (procs s ! p)) s)"

text \<open>The loop of \<^verbatim>\<open>consoleread\<close> with \<open>n\<close> bytes wanted and \<open>acc\<close> delivered; the result is
  \<open>None\<close> when the process is being killed, else what is left of \<open>n\<close> and the bytes.\<close>

primrec consoleread_loop ::
  "int \<Rightarrow> nat \<Rightarrow> u8 list \<Rightarrow> 'x cons_state_scheme \<Rightarrow> ('x cons_state_scheme, (nat \<times> u8 list) option) outcome" where
  "consoleread_loop target 0 acc s = Ret (Some (0, acc)) s"
| "consoleread_loop target (Suc n) acc s =
     (if input_r s = input_w s then
        andthen (proc_dying s) (\<lambda>d s.
          if d then Ret None s else go_to_sleep InputChan ConsLock s)
      else
        let c = input_buf s ! (unat (input_r s) mod INPUT_BUF);
            s = s\<lparr>input_r := input_r s + 1\<rparr> in
        if c = 4 then
          Ret (Some (Suc n, acc)) (if int (Suc n) < target then s\<lparr>input_r := input_r s - 1\<rparr> else s)
        else if c = 10 then Ret (Some (n, acc @ [c])) s
        else consoleread_loop target n (acc @ [c]) s)"

definition consoleread_rest ::
  "nat \<Rightarrow> int \<Rightarrow> nat \<Rightarrow> u8 list \<Rightarrow> 'x cons_state_scheme \<Rightarrow> ('x cons_state_scheme, int \<times> u8 list) outcome" where
  "consoleread_rest ip target n acc s =
     andthen (consoleread_loop target n acc s) (\<lambda>r s.
     andthen (krelease ConsLock s) (\<lambda>_ s.
     andthen (ilock ip s) (\<lambda>_ s.
       case r of
         None \<Rightarrow> Ret (- 1, []) s
       | Some (left, bs) \<Rightarrow> Ret (if target > 0 then target - int left else 0, bs) s)))"

definition consoleread :: "nat \<Rightarrow> int \<Rightarrow> 'x cons_state_scheme \<Rightarrow> ('x cons_state_scheme, int \<times> u8 list) outcome" where
  "consoleread ip n s =
     andthen (iunlock ip s) (\<lambda>_ s.
     andthen (kacquire ConsLock s) (\<lambda>_ s.
     consoleread_rest ip n (nat n) [] s))"

text \<open>A reader that has slept goes on with \<open>n\<close> bytes wanted and \<open>acc\<close> delivered.\<close>

definition consoleread_resume ::
  "nat \<Rightarrow> int \<Rightarrow> nat \<Rightarrow> u8 list \<Rightarrow> nat \<Rightarrow> switch \<Rightarrow> 'x cons_state_scheme \<Rightarrow> ('x cons_state_scheme, int \<times> u8 list) outcome" where
  "consoleread_resume ip target n acc t sw s =
     andthen (sleep_resume t ConsLock sw s) (\<lambda>_ s. consoleread_rest ip target n acc s)"

definition consolewrite :: "nat \<Rightarrow> u8 list \<Rightarrow> 'x cons_state_scheme \<Rightarrow> ('x cons_state_scheme, int) outcome" where
  "consolewrite ip bs s =
     andthen (iunlock ip s) (\<lambda>_ s.
     andthen (kacquire ConsLock s) (\<lambda>_ s.
     andthen (each (\<lambda>c s. consputc (uint c) s) bs s) (\<lambda>_ s.
     andthen (krelease ConsLock s) (\<lambda>_ s.
     andthen (ilock ip s) (\<lambda>_ s.
     Ret (int (length bs)) s)))))"

text \<open>The interrupt controller is not modelled.\<close>

definition consoleinit :: "'x cons_state_scheme \<Rightarrow> 'x cons_state_scheme" where
  "consoleinit s =
     (let s = s\<lparr>mach := initlock ConsLock (mach s)\<rparr>;
          s = s\<lparr>devsw := (devsw s)[CONSOLE := ConsoleDriver]\<rparr> in
      s\<lparr>cons_locking := True\<rparr>)"

end
