(* ===== verification/Fs.thy ===== *)
theory Fs
  imports Console
begin

text \<open>
  The upper half of \<^verbatim>\<open>fs.c\<close>: file contents, directories and path names. A function that fills a
  buffer of its caller returns the bytes; one that reads a buffer takes them as a list. The name of a
  directory entry is an array, a function from indices to bytes; a path is the list of its bytes up
  to the final 0.
\<close>

definition T_DIR :: u16 where "T_DIR = 1"
definition T_FILE :: u16 where "T_FILE = 2"
definition T_DEV :: u16 where "T_DEV = 3"
definition DIRSIZ :: nat where "DIRSIZ = 14"

record stat =
  st_type :: u16
  st_dev :: u32
  st_ino :: u32
  st_nlink :: u16
  st_size :: u32

section \<open>File contents\<close>

definition stati :: "nat \<Rightarrow> 'x inode_state_scheme \<Rightarrow> stat" where
  "stati ip s =
     (let i = inodes s ! ip in
      \<lparr>st_type = i_type i, st_dev = i_dev i, st_ino = i_inum i, st_nlink = i_nlink i, st_size = i_size i\<rparr>)"

definition dev_ok :: "nat \<Rightarrow> 'x cons_state_scheme \<Rightarrow> bool" where
  "dev_ok ip s =
     (let major = sint (i_major (inodes s ! ip)) in
      \<not> (major < 0 \<or> major \<ge> int NDEV \<or> devsw s ! nat major = NoDriver))"

text \<open>The number of bytes of a transfer of \<open>n\<close> bytes at offset \<open>off\<close> that are in one block. Every
  step of the loops moves at least one byte, so that \<open>n\<close> bounds their steps.\<close>

definition in_block :: "u32 \<Rightarrow> u32 \<Rightarrow> nat" where
  "in_block off n = min (unat n) (BSIZE - unat off mod BSIZE)"

primrec readi_loop ::
  "nat \<Rightarrow> nat \<Rightarrow> u32 \<Rightarrow> u32 \<Rightarrow> 'x inode_state_scheme \<Rightarrow> ('x inode_state_scheme, u8 list) outcome" where
  "readi_loop 0 ip off n s = Hang"
| "readi_loop (Suc k) ip off n s =
     (if n = 0 then Ret [] s
      else andthen (bmap ip (off div of_nat BSIZE) s) (\<lambda>addr s.
        andthen (bread (i_dev (inodes s ! ip)) addr s) (\<lambda>bp s.
          let m = in_block off n;
              bs = take m (drop (unat off mod BSIZE) (b_data (bufs s ! bp))) in
          andthen (brelse bp s) (\<lambda>_ s.
          andthen (readi_loop k ip (off + of_nat m) (n - of_nat m) s) (\<lambda>rest s.
          Ret (bs @ rest) s)))))"

definition readi :: "nat \<Rightarrow> u32 \<Rightarrow> u32 \<Rightarrow> 'x cons_state_scheme \<Rightarrow> ('x cons_state_scheme, int \<times> u8 list) outcome" where
  "readi ip off n s =
     (let i = inodes s ! ip in
      if i_type i = T_DEV then
        (if \<not> dev_ok ip s then Ret (- 1, []) s else consoleread ip (sint n) s)
      else if off > i_size i \<or> off + n < off then Ret (- 1, []) s
      else
        let n = (if off + n > i_size i then i_size i - off else n) in
        andthen (readi_loop (Suc (unat n)) ip off n s) (\<lambda>bs s. Ret (sint n, bs) s))"

primrec writei_loop ::
  "nat \<Rightarrow> nat \<Rightarrow> u32 \<Rightarrow> u8 list \<Rightarrow> 'x inode_state_scheme \<Rightarrow> ('x inode_state_scheme, u32) outcome" where
  "writei_loop 0 ip off bs s = Hang"
| "writei_loop (Suc k) ip off bs s =
     (if bs = [] then Ret off s
      else andthen (bmap ip (off div of_nat BSIZE) s) (\<lambda>addr s.
        andthen (bread (i_dev (inodes s ! ip)) addr s) (\<lambda>bp s.
          let m = in_block off (of_nat (length bs));
              s = upd_buf bp (\<lambda>b. b\<lparr>b_data := put_bytes (unat off mod BSIZE) (take m bs) (b_data b)\<rparr>) s in
          andthen (log_write bp s) (\<lambda>_ s.
          andthen (brelse bp s) (\<lambda>_ s.
          writei_loop k ip (off + of_nat m) (drop m bs) s)))))"

definition writei :: "nat \<Rightarrow> u8 list \<Rightarrow> u32 \<Rightarrow> 'x cons_state_scheme \<Rightarrow> ('x cons_state_scheme, int) outcome" where
  "writei ip bs off s =
     (let i = inodes s ! ip; n = of_nat (length bs) :: u32 in
      if i_type i = T_DEV then
        (if \<not> dev_ok ip s then Ret (- 1) s else consolewrite ip bs s)
      else if off > i_size i \<or> off + n < off then Ret (- 1) s
      else if off + n > of_nat (MAXFILE * BSIZE) then Ret (- 1) s
      else
        andthen (writei_loop (Suc (length bs)) ip off bs s) (\<lambda>off s.
        andthen (if n > 0 \<and> off > i_size (inodes s ! ip)
                 then iupdate ip (upd_inode ip (\<lambda>i. i\<lparr>i_size := off\<rparr>) s)
                 else Ret () s) (\<lambda>_ s.
        Ret (sint n) s)))"

section \<open>Directories\<close>

record dirent =
  de_inum :: u16
  de_name :: "nat \<Rightarrow> u8"

definition get_dirent :: "u8 list \<Rightarrow> dirent" where
  "get_dirent d = \<lparr>de_inum = half_at d 0, de_name = (\<lambda>i. d ! (2 + i))\<rparr>"

definition dirent_bytes :: "dirent \<Rightarrow> u8 list" where
  "dirent_bytes de = put_half 0 (de_inum de) [0, 0] @ map (de_name de) [0..<DIRSIZ]"

definition namecmp :: "(nat \<Rightarrow> u8) \<Rightarrow> (nat \<Rightarrow> u8) \<Rightarrow> int" where
  "namecmp x y = strncmp DIRSIZ x y"

text \<open>The offset grows by 16 and is below \<open>2 ^ 32\<close>.\<close>

definition dir_steps :: nat where "dir_steps = 268435457"

primrec dirlookup_from ::
  "nat \<Rightarrow> nat \<Rightarrow> (nat \<Rightarrow> u8) \<Rightarrow> u32 \<Rightarrow> 'x cons_state_scheme \<Rightarrow> ('x cons_state_scheme, (nat \<times> u32) option) outcome" where
  "dirlookup_from 0 dp name off s = Hang"
| "dirlookup_from (Suc k) dp name off s =
     (if \<not> off < i_size (inodes s ! dp) then Ret None s
      else andthen (readi dp off 16 s) (\<lambda>(r, bs) s.
        if r \<noteq> 16 then Panic ''dirlookup read''
        else
          let de = get_dirent bs in
          if de_inum de = 0 then dirlookup_from k dp name (off + 16) s
          else if namecmp name (de_name de) = 0 then
            andthen (iget (i_dev (inodes s ! dp)) (ucast (de_inum de)) s) (\<lambda>ip s. Ret (Some (ip, off)) s)
          else dirlookup_from k dp name (off + 16) s))"

definition dirlookup ::
  "nat \<Rightarrow> (nat \<Rightarrow> u8) \<Rightarrow> 'x cons_state_scheme \<Rightarrow> ('x cons_state_scheme, (nat \<times> u32) option) outcome" where
  "dirlookup dp name s =
     (if i_type (inodes s ! dp) \<noteq> T_DIR then Panic ''dirlookup not DIR''
      else dirlookup_from dir_steps dp name 0 s)"

text \<open>The search of \<^verbatim>\<open>dirlink\<close> for an empty entry returns its offset, or the size of the directory.\<close>

primrec empty_dirent :: "nat \<Rightarrow> nat \<Rightarrow> u32 \<Rightarrow> 'x cons_state_scheme \<Rightarrow> ('x cons_state_scheme, u32) outcome" where
  "empty_dirent 0 dp off s = Hang"
| "empty_dirent (Suc k) dp off s =
     (if \<not> off < i_size (inodes s ! dp) then Ret off s
      else andthen (readi dp off 16 s) (\<lambda>(r, bs) s.
        if r \<noteq> 16 then Panic ''dirlink read''
        else if de_inum (get_dirent bs) = 0 then Ret off s
        else empty_dirent k dp (off + 16) s))"

definition dirlink ::
  "nat \<Rightarrow> (nat \<Rightarrow> u8) \<Rightarrow> u32 \<Rightarrow> 'x cons_state_scheme \<Rightarrow> ('x cons_state_scheme, int) outcome" where
  "dirlink dp name inum s =
     andthen (dirlookup dp name s) (\<lambda>found s.
       case found of
         Some (ip, _) \<Rightarrow> andthen (iput ip s) (\<lambda>_ s. Ret (- 1) s)
       | None \<Rightarrow>
           andthen (empty_dirent dir_steps dp 0 s) (\<lambda>off s.
             let de = \<lparr>de_inum = ucast inum, de_name = strncpy (\<lambda>_. 0) name DIRSIZ\<rparr> in
             andthen (writei dp (dirent_bytes de) off s) (\<lambda>r s.
               if r \<noteq> 16 then Panic ''dirlink'' else Ret 0 s)))"

section \<open>Paths\<close>

definition skipelem :: "u8 list \<Rightarrow> (nat \<Rightarrow> u8) \<Rightarrow> (u8 list \<times> (nat \<Rightarrow> u8)) option" where
  "skipelem path name =
     (let path = dropWhile (\<lambda>c. c = 47) path in
      if path = [] then None
      else
        let x = takeWhile (\<lambda>c. c \<noteq> 47) path;
            path = dropWhile (\<lambda>c. c \<noteq> 47) path;
            len = length x;
            name = (if len \<ge> DIRSIZ then (\<lambda>i. if i < DIRSIZ then x ! i else name i)
                    else (\<lambda>i. if i < len then x ! i else if i = len then 0 else name i)) in
        Some (dropWhile (\<lambda>c. c = 47) path, name))"

text \<open>The loop of \<^verbatim>\<open>namex\<close>; every element shortens the path.\<close>

primrec namex_loop ::
  "nat \<Rightarrow> nat \<Rightarrow> u8 list \<Rightarrow> bool \<Rightarrow> (nat \<Rightarrow> u8) \<Rightarrow>
     'x cons_state_scheme \<Rightarrow> ('x cons_state_scheme, (nat \<times> (nat \<Rightarrow> u8)) option) outcome" where
  "namex_loop 0 ip path parent name s = Hang"
| "namex_loop (Suc k) ip path parent name s =
     (case skipelem path name of
        None \<Rightarrow>
          if parent then andthen (iput ip s) (\<lambda>_ s. Ret None s)
          else Ret (Some (ip, name)) s
      | Some (path, name) \<Rightarrow>
          andthen (ilock ip s) (\<lambda>_ s.
            if i_type (inodes s ! ip) \<noteq> T_DIR then andthen (iunlockput ip s) (\<lambda>_ s. Ret None s)
            else if parent \<and> path = [] then andthen (iunlock ip s) (\<lambda>_ s. Ret (Some (ip, name)) s)
            else andthen (dirlookup ip name s) (\<lambda>nx s.
              case nx of
                None \<Rightarrow> andthen (iunlockput ip s) (\<lambda>_ s. Ret None s)
              | Some (nx, _) \<Rightarrow> andthen (iunlockput ip s) (\<lambda>_ s. namex_loop k nx path parent name s))))"

definition namex ::
  "u8 list \<Rightarrow> bool \<Rightarrow> (nat \<Rightarrow> u8) \<Rightarrow>
     'x cons_state_scheme \<Rightarrow> ('x cons_state_scheme, (nat \<times> (nat \<Rightarrow> u8)) option) outcome" where
  "namex path parent name s =
     andthen
       (if path \<noteq> [] \<and> hd path = 47 then iget ROOTDEV ROOTINO s
        else andthen (on_mach myproc s) (\<lambda>po s.
          case po of
            None \<Rightarrow> Undef ''namex: no current process''
          | Some p \<Rightarrow>
              (case p_cwd (procs s ! p) of
                 None \<Rightarrow> Undef ''idup: null inode''
               | Some cwd \<Rightarrow> idup cwd s))) (\<lambda>ip s.
     namex_loop (Suc (length path)) ip path parent name s)"

definition namei :: "u8 list \<Rightarrow> 'x cons_state_scheme \<Rightarrow> ('x cons_state_scheme, nat option) outcome" where
  "namei path s = andthen (namex path False (\<lambda>_. 0) s) (\<lambda>r s. Ret (map_option fst r) s)"

definition nameiparent ::
  "u8 list \<Rightarrow> (nat \<Rightarrow> u8) \<Rightarrow> 'x cons_state_scheme \<Rightarrow> ('x cons_state_scheme, (nat \<times> (nat \<Rightarrow> u8)) option) outcome" where
  "nameiparent path name s = namex path True name s"

end
