(* ===== verification/Pipe.thy ===== *)
theory Pipe
  imports Fs
begin

text \<open>
  Pipes, \<^verbatim>\<open>pipe.c\<close> without \<^verbatim>\<open>pipealloc\<close>, which is with the file table. A pipe is named by the address
  of the page that holds it. \<^verbatim>\<open>pipewrite\<close> takes the bytes to write as a list, \<^verbatim>\<open>piperead\<close>
  returns the bytes read. A writer that has to wait ends with \<open>Pause\<close>; \<open>pipewrite_resume\<close> and
  \<open>piperead_resume\<close> are what the two functions do when their thread runs again, with the bytes
  that were left to write.
\<close>

definition PIPESIZE :: nat where "PIPESIZE = 512"

record pipe =
  pi_data :: "u8 list"
  pi_nread :: u32
  pi_nwrite :: u32
  pi_readopen :: bool
  pi_writeopen :: bool

record pipe_state = cons_state +
  pipes :: "u32 \<Rightarrow> pipe"

abbreviation upd_pipe :: "u32 \<Rightarrow> (pipe \<Rightarrow> pipe) \<Rightarrow> 'x pipe_state_scheme \<Rightarrow> 'x pipe_state_scheme" where
  "upd_pipe p f s \<equiv> s\<lparr>pipes := (pipes s)(p := f (pipes s p))\<rparr>"

definition pipeclose :: "u32 \<Rightarrow> bool \<Rightarrow> 'x pipe_state_scheme \<Rightarrow> ('x pipe_state_scheme, unit) outcome" where
  "pipeclose p writable s =
     andthen (kacquire (PipeLock p) s) (\<lambda>_ s.
     andthen
       (if writable then wakeup (PipeReadChan p) (upd_pipe p (\<lambda>x. x\<lparr>pi_writeopen := False\<rparr>) s)
        else wakeup (PipeWriteChan p) (upd_pipe p (\<lambda>x. x\<lparr>pi_readopen := False\<rparr>) s)) (\<lambda>_ s.
       if \<not> pi_readopen (pipes s p) \<and> \<not> pi_writeopen (pipes s p)
       then andthen (krelease (PipeLock p) s) (\<lambda>_ s. kfree p s)
       else krelease (PipeLock p) s))"

primrec pipewrite_loop :: "u32 \<Rightarrow> u8 list \<Rightarrow> 'x pipe_state_scheme \<Rightarrow> ('x pipe_state_scheme, bool) outcome" where
  "pipewrite_loop p [] s = Ret True s"
| "pipewrite_loop p (c # cs) s =
     (if pi_nwrite (pipes s p) = pi_nread (pipes s p) + of_nat PIPESIZE then
        andthen (if \<not> pi_readopen (pipes s p) then Ret True s else proc_dying s) (\<lambda>d s.
          if d then Ret False s
          else andthen (wakeup (PipeReadChan p) s) (\<lambda>_ s. go_to_sleep (PipeWriteChan p) (PipeLock p) s))
      else
        let s = upd_pipe p (\<lambda>x. x\<lparr>pi_data := (pi_data x)[unat (pi_nwrite x) mod PIPESIZE := c],
                                 pi_nwrite := pi_nwrite x + 1\<rparr>) s in
        pipewrite_loop p cs s)"

definition pipewrite_rest :: "u32 \<Rightarrow> nat \<Rightarrow> u8 list \<Rightarrow> 'x pipe_state_scheme \<Rightarrow> ('x pipe_state_scheme, int) outcome" where
  "pipewrite_rest p n cs s =
     andthen (pipewrite_loop p cs s) (\<lambda>done s.
       if \<not> done then andthen (krelease (PipeLock p) s) (\<lambda>_ s. Ret (- 1) s)
       else andthen (wakeup (PipeReadChan p) s) (\<lambda>_ s.
            andthen (krelease (PipeLock p) s) (\<lambda>_ s. Ret (int n) s)))"

definition pipewrite :: "u32 \<Rightarrow> u8 list \<Rightarrow> 'x pipe_state_scheme \<Rightarrow> ('x pipe_state_scheme, int) outcome" where
  "pipewrite p bs s = andthen (kacquire (PipeLock p) s) (\<lambda>_ s. pipewrite_rest p (length bs) bs s)"

definition pipewrite_resume ::
  "u32 \<Rightarrow> nat \<Rightarrow> u8 list \<Rightarrow> nat \<Rightarrow> switch \<Rightarrow> 'x pipe_state_scheme \<Rightarrow> ('x pipe_state_scheme, int) outcome" where
  "pipewrite_resume p n cs t sw s =
     andthen (sleep_resume t (PipeLock p) sw s) (\<lambda>_ s. pipewrite_rest p n cs s)"

primrec piperead_copy :: "u32 \<Rightarrow> nat \<Rightarrow> 'x pipe_state_scheme \<Rightarrow> u8 list \<times> 'x pipe_state_scheme" where
  "piperead_copy p 0 s = ([], s)"
| "piperead_copy p (Suc n) s =
     (if pi_nread (pipes s p) = pi_nwrite (pipes s p) then ([], s)
      else
        let c = pi_data (pipes s p) ! (unat (pi_nread (pipes s p)) mod PIPESIZE);
            (cs, s) = piperead_copy p n (upd_pipe p (\<lambda>x. x\<lparr>pi_nread := pi_nread x + 1\<rparr>) s) in
        (c # cs, s))"

definition piperead_rest :: "u32 \<Rightarrow> nat \<Rightarrow> 'x pipe_state_scheme \<Rightarrow> ('x pipe_state_scheme, int \<times> u8 list) outcome" where
  "piperead_rest p n s =
     (if pi_nread (pipes s p) = pi_nwrite (pipes s p) \<and> pi_writeopen (pipes s p) then
        andthen (proc_dying s) (\<lambda>d s.
          if d then andthen (krelease (PipeLock p) s) (\<lambda>_ s. Ret (- 1, []) s)
          else go_to_sleep (PipeReadChan p) (PipeLock p) s)
      else
        let (cs, s) = piperead_copy p n s in
        andthen (wakeup (PipeWriteChan p) s) (\<lambda>_ s.
        andthen (krelease (PipeLock p) s) (\<lambda>_ s. Ret (int (length cs), cs) s)))"

definition piperead :: "u32 \<Rightarrow> nat \<Rightarrow> 'x pipe_state_scheme \<Rightarrow> ('x pipe_state_scheme, int \<times> u8 list) outcome" where
  "piperead p n s = andthen (kacquire (PipeLock p) s) (\<lambda>_ s. piperead_rest p n s)"

definition piperead_resume ::
  "u32 \<Rightarrow> nat \<Rightarrow> nat \<Rightarrow> switch \<Rightarrow> 'x pipe_state_scheme \<Rightarrow> ('x pipe_state_scheme, int \<times> u8 list) outcome" where
  "piperead_resume p n t sw s =
     andthen (sleep_resume t (PipeLock p) sw s) (\<lambda>_ s. piperead_rest p n s)"

end
