(* ===== verification/File.thy ===== *)
theory File
  imports Pipe
begin

text \<open>
  Open files, \<^verbatim>\<open>file.c\<close>, with \<^verbatim>\<open>pipealloc\<close> of \<^verbatim>\<open>pipe.c\<close>. An open file is named by its index in
  \<^verbatim>\<open>ftable.file\<close>. The pointers \<^verbatim>\<open>pipe\<close> and \<^verbatim>\<open>ip\<close> are followed only for the type they belong to.
\<close>

definition NFILE :: nat where "NFILE = 100"

datatype ftype = FD_NONE | FD_PIPE | FD_INODE

record openfile =
  f_type :: ftype
  f_ref :: int
  f_readable :: bool
  f_writable :: bool
  f_pipe :: u32
  f_ip :: nat
  f_off :: u32

record file_state = pipe_state +
  files :: "openfile list"

abbreviation upd_file :: "nat \<Rightarrow> (openfile \<Rightarrow> openfile) \<Rightarrow> 'x file_state_scheme \<Rightarrow> 'x file_state_scheme" where
  "upd_file f g s \<equiv> s\<lparr>files := modify f g (files s)\<rparr>"

section \<open>The file table\<close>

definition fileinit :: "'x file_state_scheme \<Rightarrow> 'x file_state_scheme" where
  "fileinit s = s\<lparr>mach := initlock FtableLock (mach s)\<rparr>"

definition filealloc :: "'x file_state_scheme \<Rightarrow> ('x file_state_scheme, nat option) outcome" where
  "filealloc s =
     andthen (kacquire FtableLock s) (\<lambda>_ s.
       case first_such (\<lambda>f. f_ref f = 0) (files s) of
         Some f \<Rightarrow>
           let s = upd_file f (\<lambda>x. x\<lparr>f_ref := 1\<rparr>) s in
           andthen (krelease FtableLock s) (\<lambda>_ s. Ret (Some f) s)
       | None \<Rightarrow> andthen (krelease FtableLock s) (\<lambda>_ s. Ret None s))"

definition filedup :: "nat \<Rightarrow> 'x file_state_scheme \<Rightarrow> ('x file_state_scheme, nat) outcome" where
  "filedup f s =
     andthen (kacquire FtableLock s) (\<lambda>_ s.
       if f_ref (files s ! f) < 1 then Panic ''filedup''
       else
         let s = upd_file f (\<lambda>x. x\<lparr>f_ref := f_ref x + 1\<rparr>) s in
         andthen (krelease FtableLock s) (\<lambda>_ s. Ret f s))"

definition fileclose :: "nat \<Rightarrow> 'x file_state_scheme \<Rightarrow> ('x file_state_scheme, unit) outcome" where
  "fileclose f s =
     andthen (kacquire FtableLock s) (\<lambda>_ s.
       if f_ref (files s ! f) < 1 then Panic ''fileclose''
       else
         let s = upd_file f (\<lambda>x. x\<lparr>f_ref := f_ref x - 1\<rparr>) s in
         if f_ref (files s ! f) > 0 then krelease FtableLock s
         else
           let ff = files s ! f;
               s = upd_file f (\<lambda>x. x\<lparr>f_ref := 0, f_type := FD_NONE\<rparr>) s in
           andthen (krelease FtableLock s) (\<lambda>_ s.
             case f_type ff of
               FD_PIPE \<Rightarrow> pipeclose (f_pipe ff) (f_writable ff) s
             | FD_INODE \<Rightarrow>
                 andthen (begin_op s) (\<lambda>_ s.
                 andthen (iput (f_ip ff) s) (\<lambda>_ s.
                 end_op s))
             | FD_NONE \<Rightarrow> Ret () s))"

section \<open>Creating a pipe\<close>

definition pipealloc_bad ::
  "nat option \<Rightarrow> nat option \<Rightarrow> 'x file_state_scheme \<Rightarrow> ('x file_state_scheme, (nat \<times> nat) option) outcome" where
  "pipealloc_bad f0 f1 s =
     andthen (case f0 of Some f \<Rightarrow> fileclose f s | None \<Rightarrow> Ret () s) (\<lambda>_ s.
     andthen (case f1 of Some f \<Rightarrow> fileclose f s | None \<Rightarrow> Ret () s) (\<lambda>_ s.
     Ret None s))"

definition pipealloc :: "'x file_state_scheme \<Rightarrow> ('x file_state_scheme, (nat \<times> nat) option) outcome" where
  "pipealloc s =
     andthen (filealloc s) (\<lambda>o0 s.
       case o0 of
         None \<Rightarrow> pipealloc_bad None None s
       | Some f0 \<Rightarrow>
     andthen (filealloc s) (\<lambda>o1 s.
       case o1 of
         None \<Rightarrow> pipealloc_bad (Some f0) None s
       | Some f1 \<Rightarrow>
     andthen (kalloc s) (\<lambda>p s.
       if p = 0 then pipealloc_bad (Some f0) (Some f1) s
       else
         let s = upd_pipe p (\<lambda>x. x\<lparr>pi_readopen := True, pi_writeopen := True, pi_nwrite := 0, pi_nread := 0\<rparr>) s;
             s = s\<lparr>mach := initlock (PipeLock p) (mach s)\<rparr>;
             s = upd_file f0 (\<lambda>x. x\<lparr>f_type := FD_PIPE, f_readable := True, f_writable := False, f_pipe := p\<rparr>) s;
             s = upd_file f1 (\<lambda>x. x\<lparr>f_type := FD_PIPE, f_readable := False, f_writable := True, f_pipe := p\<rparr>) s in
         Ret (Some (f0, f1)) s)))"

section \<open>Operations on open files\<close>

definition filestat :: "nat \<Rightarrow> 'x file_state_scheme \<Rightarrow> ('x file_state_scheme, stat option) outcome" where
  "filestat f s =
     (if f_type (files s ! f) = FD_INODE then
        andthen (ilock (f_ip (files s ! f)) s) (\<lambda>_ s.
          let st = stati (f_ip (files s ! f)) s in
          andthen (iunlock (f_ip (files s ! f)) s) (\<lambda>_ s. Ret (Some st) s))
      else Ret None s)"

definition fileread :: "nat \<Rightarrow> int \<Rightarrow> 'x file_state_scheme \<Rightarrow> ('x file_state_scheme, int \<times> u8 list) outcome" where
  "fileread f n s =
     (if \<not> f_readable (files s ! f) then Ret (- 1, []) s
      else case f_type (files s ! f) of
        FD_PIPE \<Rightarrow> piperead (f_pipe (files s ! f)) (nat n) s
      | FD_INODE \<Rightarrow>
          andthen (ilock (f_ip (files s ! f)) s) (\<lambda>_ s.
          andthen (readi (f_ip (files s ! f)) (f_off (files s ! f)) (of_int n) s) (\<lambda>(r, bs) s.
            let s = (if r > 0 then upd_file f (\<lambda>x. x\<lparr>f_off := f_off x + of_int r\<rparr>) s else s) in
            andthen (iunlock (f_ip (files s ! f)) s) (\<lambda>_ s. Ret (r, bs) s)))
      | FD_NONE \<Rightarrow> Panic ''fileread'')"

definition max_write :: nat where "max_write = ((MAXOPBLOCKS - 1 - 1 - 2) div 2) * 512"

text \<open>The loop of \<^verbatim>\<open>filewrite\<close>; it returns the number of bytes written. A step writes at least one
  byte or ends the loop.\<close>

primrec filewrite_loop ::
  "nat \<Rightarrow> nat \<Rightarrow> u8 list \<Rightarrow> 'x file_state_scheme \<Rightarrow> ('x file_state_scheme, bool) outcome" where
  "filewrite_loop 0 f bs s = Hang"
| "filewrite_loop (Suc k) f bs s =
     (if bs = [] then Ret True s
      else
        let bs1 = take max_write bs in
        andthen (begin_op s) (\<lambda>_ s.
        andthen (ilock (f_ip (files s ! f)) s) (\<lambda>_ s.
        andthen (writei (f_ip (files s ! f)) bs1 (f_off (files s ! f)) s) (\<lambda>r s.
          let s = (if r > 0 then upd_file f (\<lambda>x. x\<lparr>f_off := f_off x + of_int r\<rparr>) s else s) in
          andthen (iunlock (f_ip (files s ! f)) s) (\<lambda>_ s.
          andthen (end_op s) (\<lambda>_ s.
            if r < 0 then Ret False s
            else if r \<noteq> int (length bs1) then Panic ''short filewrite''
            else filewrite_loop k f (drop max_write bs) s))))))"

definition filewrite :: "nat \<Rightarrow> u8 list \<Rightarrow> 'x file_state_scheme \<Rightarrow> ('x file_state_scheme, int) outcome" where
  "filewrite f bs s =
     (if \<not> f_writable (files s ! f) then Ret (- 1) s
      else case f_type (files s ! f) of
        FD_PIPE \<Rightarrow> pipewrite (f_pipe (files s ! f)) bs s
      | FD_INODE \<Rightarrow>
          andthen (filewrite_loop (Suc (length bs)) f bs s) (\<lambda>done s.
          Ret (if done then int (length bs) else - 1) s)
      | FD_NONE \<Rightarrow> Panic ''filewrite'')"

end
