(* ===== verification/Thread.thy ===== *)
theory Thread
  imports Vm Sleeplock
begin

text \<open>
  Threads, \<^verbatim>\<open>thread.c\<close> without \<^verbatim>\<open>nextthd\<close>, which is with the scheduler, and \<^verbatim>\<open>thread_exit\<close>, which is with
  the processes. The kernel runs on the page table of the current process and follows user pointers
  through it: \<open>translate\<close> is the walk of the processor, and an access it refuses raises a page
  fault in the kernel, on which \<^verbatim>\<open>trap\<close> panics.
\<close>

section \<open>Access to user addresses\<close>

definition translate :: "memory \<Rightarrow> u32 \<Rightarrow> u32 \<Rightarrow> bool \<Rightarrow> u32 option" where
  "translate m pgdir va wr =
     (let pde = load32 m (pgdir + 4 * PDX va) in
      if pde AND PTE_P = 0 \<or> wr \<and> pde AND PTE_W = 0 then None
      else
        let pte = load32 m (P2V (PTE_ADDR pde) + 4 * PTX va) in
        if pte AND PTE_P = 0 \<or> wr \<and> pte AND PTE_W = 0 then None
        else Some (P2V (PTE_ADDR pte) + (va AND 0xFFF)))"

definition cur_pgdir :: "'x kbase_scheme \<Rightarrow> u32" where
  "cur_pgdir s = P2V (cr3 (mach s) (lapicid (mach s)))"

definition user_load :: "u32 \<Rightarrow> 'x kmem_state_scheme \<Rightarrow> ('x kmem_state_scheme, u8) outcome" where
  "user_load va s =
     (case translate (mem s) (cur_pgdir s) va False of
        None \<Rightarrow> Panic ''trap''
      | Some a \<Rightarrow> Ret (mem s a) s)"

primrec user_loads :: "nat \<Rightarrow> u32 \<Rightarrow> 'x kmem_state_scheme \<Rightarrow> ('x kmem_state_scheme, u8 list) outcome" where
  "user_loads 0 va s = Ret [] s"
| "user_loads (Suc n) va s =
     andthen (user_load va s) (\<lambda>b s. andthen (user_loads n (va + 1) s) (\<lambda>bs s. Ret (b # bs) s))"

primrec user_stores :: "u32 \<Rightarrow> u8 list \<Rightarrow> 'x kmem_state_scheme \<Rightarrow> ('x kmem_state_scheme, unit) outcome" where
  "user_stores va [] s = Ret () s"
| "user_stores va (b # bs) s =
     (case translate (mem s) (cur_pgdir s) va True of
        None \<Rightarrow> Panic ''trap''
      | Some a \<Rightarrow> user_stores (va + 1) bs (s\<lparr>mem := (mem s)(a := b)\<rparr>))"

definition word_bytes :: "u32 \<Rightarrow> u8 list" where
  "word_bytes w = map (\<lambda>i. byte_at i w) [0..<4]"

definition user_word :: "u32 \<Rightarrow> 'x kmem_state_scheme \<Rightarrow> ('x kmem_state_scheme, u32) outcome" where
  "user_word va s = andthen (user_loads 4 va s) (\<lambda>bs s. Ret (join4 (bs ! 0) (bs ! 1) (bs ! 2) (bs ! 3)) s)"

section \<open>Creating threads\<close>

text \<open>\<open>current\<close> is the pair of \<^verbatim>\<open>myproc()\<close> and \<^verbatim>\<open>mythd()\<close>, both of them followed later.\<close>

definition current :: "'x proc_state_scheme \<Rightarrow> ('x proc_state_scheme, nat \<times> nat) outcome" where
  "current s =
     andthen (on_mach myproc s) (\<lambda>po s.
     andthen (on_mach mythd s) (\<lambda>to s.
       case (po, to) of
         (Some p, Some t) \<Rightarrow> Ret (p, t) s
       | _ \<Rightarrow> Undef ''no current thread''))"

text \<open>The trap frame has 76 bytes, the context 20, its last word being \<^verbatim>\<open>eip\<close>.\<close>

definition allocthd :: "nat \<Rightarrow> 'x proc_state_scheme \<Rightarrow> ('x proc_state_scheme, nat option) outcome" where
  "allocthd p s =
     andthen (kacquire PtableLock s) (\<lambda>_ s.
       case first_such (\<lambda>t. t_state t = UNUSED) (threads s) of
         None \<Rightarrow> andthen (krelease PtableLock s) (\<lambda>_ s. Ret None s)
       | Some t \<Rightarrow>
           let s = upd_thread t (\<lambda>th. th\<lparr>t_state := EMBRYO, t_tid := nexttid s\<rparr>) s;
               s = s\<lparr>nexttid := nexttid s + 1\<rparr> in
           andthen (krelease PtableLock s) (\<lambda>_ s.
           andthen (kalloc s) (\<lambda>kstack s.
             let s = upd_thread t (\<lambda>th. th\<lparr>t_kstack := kstack\<rparr>) s in
             if kstack = 0 then Ret None (upd_thread t (\<lambda>th. th\<lparr>t_state := UNUSED\<rparr>) s)
             else
               let sp = kstack + KSTACKSIZE - 76;
                   sp = sp - 4;
                   s = s\<lparr>mem := store32 (mem s) sp (k_trapret s)\<rparr>;
                   sp = sp - 20;
                   s = upd_thread t (\<lambda>th. th\<lparr>t_context := sp\<rparr>) s;
                   s = s\<lparr>mem := memset sp 0 20 (mem s)\<rparr>;
                   s = s\<lparr>mem := store32 (mem s) (sp + 16) (k_forkret s)\<rparr> in
               Ret (Some t) (upd_thread t (\<lambda>th. th\<lparr>t_mp := Some p\<rparr>) s))))"

definition thread_create :: "u32 \<Rightarrow> u32 \<Rightarrow> u32 \<Rightarrow> 'x proc_state_scheme \<Rightarrow> ('x proc_state_scheme, int) outcome" where
  "thread_create thread start_routine arg s =
     andthen (current s) (\<lambda>(cp, ct) s.
     andthen (allocthd cp s) (\<lambda>no s.
       case no of
         None \<Rightarrow> Ret (- 1) s
       | Some nt \<Rightarrow>
           andthen (ualloc cp s) (\<lambda>sp s.
             if sp = 0 then
               andthen (kfree (t_kstack (threads s ! nt)) s) (\<lambda>_ s.
               Ret (- 1) (upd_thread nt (\<lambda>th. th\<lparr>t_kstack := 0, t_state := UNUSED\<rparr>) s))
             else
               let s = upd_thread nt (\<lambda>th. th\<lparr>t_usp := sp\<rparr>) s;
                   sp = sp - 8 in
               andthen (copyout (p_pgdir (procs s ! cp)) sp (word_bytes 0xFFFFFFFF @ word_bytes arg) s) (\<lambda>r s.
                 if r < 0 then
                   andthen (kfree (t_kstack (threads s ! nt)) s) (\<lambda>_ s.
                   andthen (ufree cp (t_usp (threads s ! nt)) s) (\<lambda>_ s.
                   Ret (- 1) (upd_thread nt (\<lambda>th. th\<lparr>t_kstack := 0, t_usp := 0, t_state := UNUSED\<rparr>) s)))
                 else
                   let s = upd_thread nt (\<lambda>th. th\<lparr>t_tf := (t_tf (threads s ! ct))\<lparr>tf_eip := start_routine, tf_esp := sp\<rparr>\<rparr>) s in
                   andthen (user_stores thread (word_bytes (of_int (t_tid (threads s ! nt)))) s) (\<lambda>_ s.
                   andthen (kacquire PtableLock s) (\<lambda>_ s.
                     let s = upd_thread nt (\<lambda>th. th\<lparr>t_state := RUNNABLE\<rparr>) s;
                         s = upd_proc cp (\<lambda>pr. pr\<lparr>p_state := RUNNABLE\<rparr>) s in
                     andthen (krelease PtableLock s) (\<lambda>_ s. Ret 0 s)))))))"

section \<open>Waiting for threads\<close>

definition other_threads :: "(thread \<Rightarrow> bool) \<Rightarrow> nat \<Rightarrow> nat \<Rightarrow> 'x proc_state_scheme \<Rightarrow> bool" where
  "other_threads P p t s =
     list_ex (\<lambda>i. i \<noteq> t \<and> t_mp (threads s ! i) = Some p \<and> P (threads s ! i)) [0..<length (threads s)]"

definition allthdexit_loop :: "nat \<Rightarrow> nat \<Rightarrow> 'x proc_state_scheme \<Rightarrow> ('x proc_state_scheme, int) outcome" where
  "allthdexit_loop p t s =
     (if \<not> other_threads (\<lambda>th. t_state th \<noteq> ZOMBIE) p t s
      then Ret 0 (upd_proc p (\<lambda>pr. pr\<lparr>p_exited := False\<rparr>) s)
      else if p_killed (procs s ! p) then Ret (- 1) (upd_proc p (\<lambda>pr. pr\<lparr>p_exited := False\<rparr>) s)
      else go_to_sleep (ProcChan p) PtableLock s)"

definition allthdexit :: "'x proc_state_scheme \<Rightarrow> ('x proc_state_scheme, int) outcome" where
  "allthdexit s =
     andthen (current s) (\<lambda>(p, t) s.
       if p_exited (procs s ! p) then Ret (- 1) s
       else
         let s = upd_proc p (\<lambda>pr. pr\<lparr>p_exited := True\<rparr>) s in
         andthen (each (wake_if (\<lambda>th. t_mp th = Some p \<and> t_state th = SLEEPING)) [0..<length (threads s)] s) (\<lambda>_ s.
         allthdexit_loop p t s))"

definition allthdexit_resume ::
  "nat \<Rightarrow> nat \<Rightarrow> switch \<Rightarrow> 'x proc_state_scheme \<Rightarrow> ('x proc_state_scheme, int) outcome" where
  "allthdexit_resume p t sw s =
     andthen (sleep_resume t PtableLock sw s) (\<lambda>_ s. allthdexit_loop p t s)"

definition thread_join_loop ::
  "nat \<Rightarrow> int \<Rightarrow> u32 \<Rightarrow> 'x proc_state_scheme \<Rightarrow> ('x proc_state_scheme, int) outcome" where
  "thread_join_loop cp tid retval s =
     (case first_such (\<lambda>t. t_mp t = Some cp \<and> t_tid t = tid \<and> t_state t = ZOMBIE) (threads s) of
        Some t \<Rightarrow>
          andthen (user_stores retval (word_bytes (tf_eax (t_tf (threads s ! t)))) s) (\<lambda>_ s.
          andthen (kfree (t_kstack (threads s ! t)) s) (\<lambda>_ s.
          andthen (ufree cp (t_usp (threads s ! t)) s) (\<lambda>_ s.
            let s = upd_thread t (\<lambda>th. th\<lparr>t_kstack := 0, t_usp := 0, t_state := UNUSED, t_tid := 0, t_mp := None\<rparr>) s in
            andthen (krelease PtableLock s) (\<lambda>_ s. Ret 0 s))))
      | None \<Rightarrow>
          andthen (if list_ex (\<lambda>t. t_mp t = Some cp \<and> t_tid t = tid) (threads s)
                   then andthen (on_mach myproc s) (\<lambda>po s.
                     case po of
                       None \<Rightarrow> Undef ''no current process''
                     | Some p \<Rightarrow> Ret (p_killed (procs s ! p) \<or> p_exited (procs s ! p)) s)
                   else Ret True s) (\<lambda>stop s.
            if stop then andthen (krelease PtableLock s) (\<lambda>_ s. Ret (- 1) s)
            else go_to_sleep (ProcChan cp) PtableLock s))"

definition thread_join :: "int \<Rightarrow> u32 \<Rightarrow> 'x proc_state_scheme \<Rightarrow> ('x proc_state_scheme, int) outcome" where
  "thread_join tid retval s =
     andthen (on_mach myproc s) (\<lambda>po s.
     andthen (kacquire PtableLock s) (\<lambda>_ s.
       case po of
         None \<Rightarrow> Undef ''no current process''
       | Some cp \<Rightarrow> thread_join_loop cp tid retval s))"

definition thread_join_resume ::
  "nat \<Rightarrow> int \<Rightarrow> u32 \<Rightarrow> nat \<Rightarrow> switch \<Rightarrow> 'x proc_state_scheme \<Rightarrow> ('x proc_state_scheme, int) outcome" where
  "thread_join_resume cp tid retval t sw s =
     andthen (sleep_resume t PtableLock sw s) (\<lambda>_ s. thread_join_loop cp tid retval s)"

end
