(* ===== verification/Process.thy ===== *)
theory Process
  imports File Thread
begin

text \<open>
  The operations of \<^verbatim>\<open>proc.c\<close> on whole processes, which use the file system: \<^verbatim>\<open>userinit\<close>, \<^verbatim>\<open>growproc\<close>, \<^verbatim>\<open>fork\<close>,
  \<^verbatim>\<open>exit\<close>, \<^verbatim>\<open>wait\<close> and \<^verbatim>\<open>forkret\<close>, with \<^verbatim>\<open>thread_exit\<close> of \<^verbatim>\<open>thread.c\<close>. A definition whose code ends in a
  call of \<^verbatim>\<open>sched\<close> that does not come back returns the switch that \<^verbatim>\<open>sched\<close> decided on.
\<close>

record process_state = file_state +
  forkret_first :: bool

section \<open>The first process\<close>

definition SEG_UCODE :: nat where "SEG_UCODE = 3"
definition SEG_UDATA :: nat where "SEG_UDATA = 4"
definition DPL_USER :: nat where "DPL_USER = 3"
definition FL_IF :: u32 where "FL_IF = 0x200"

definition zero_tf :: trapframe where
  "zero_tf = \<lparr>tf_edi = 0, tf_esi = 0, tf_ebp = 0, tf_ebx = 0, tf_edx = 0, tf_ecx = 0, tf_eax = 0, tf_gs = 0, tf_fs = 0,
     tf_es = 0, tf_ds = 0, tf_trapno = 0, tf_err = 0, tf_eip = 0, tf_cs = 0, tf_eflags = 0, tf_esp = 0, tf_ss = 0\<rparr>"

definition name_of :: "u8 list \<Rightarrow> nat \<Rightarrow> u8" where
  "name_of cs i = (if i < length cs then cs ! i else 0)"

text \<open>The linker places the first program at \<open>init\<close>, with size \<open>sz\<close>.\<close>

definition userinit :: "u32 \<Rightarrow> u32 \<Rightarrow> 'x process_state_scheme \<Rightarrow> ('x process_state_scheme, unit) outcome" where
  "userinit init sz s =
     andthen (allocproc s) (\<lambda>po s.
       case po of
         None \<Rightarrow> Undef ''userinit: no process''
       | Some p \<Rightarrow>
           let s = s\<lparr>initproc := Some p\<rparr> in
           andthen (setupkvm s) (\<lambda>d s.
             let s = upd_proc p (\<lambda>pr. pr\<lparr>p_pgdir := d\<rparr>) s in
             if d = 0 then Panic ''userinit: out of memory?''
             else
               andthen (inituvm d init sz s) (\<lambda>_ s.
                 let s = upd_proc p (\<lambda>pr. pr\<lparr>p_sz := PGSIZE\<rparr>) s in
               andthen (allocthd p s) (\<lambda>to s.
                 case to of
                   None \<Rightarrow> Undef ''userinit: no thread''
                 | Some t \<Rightarrow>
                     let s = upd_proc p (\<lambda>pr. pr\<lparr>p_pin := Some t\<rparr>) s;
                         ucode = of_nat (8 * SEG_UCODE + DPL_USER);
                         udata = of_nat (8 * SEG_UDATA + DPL_USER);
                         tf = zero_tf\<lparr>tf_cs := ucode, tf_ds := udata, tf_es := udata, tf_ss := udata, tf_eflags := FL_IF,
                                tf_esp := p_sz (procs s ! p), tf_eip := 0\<rparr>;
                         s = upd_thread t (\<lambda>th. th\<lparr>t_tf := tf\<rparr>) s;
                         s = upd_proc p (\<lambda>pr. pr\<lparr>p_stype := MLFQ, p_qlev := HQLEV, p_pass := 0\<rparr>) s;
                         s = upd_proc p (\<lambda>pr. pr\<lparr>p_name := safestrcpy (p_name pr) (name_of (str8 ''initcode'')) 16\<rparr>) s in
                     andthen (namei (str8 ''/'') s) (\<lambda>cwd s.
                       let s = upd_proc p (\<lambda>pr. pr\<lparr>p_cwd := cwd\<rparr>) s in
                       andthen (kacquire PtableLock s) (\<lambda>_ s.
                         krelease PtableLock (setstate p t RUNNABLE s)))))))"

definition forkret :: "'x process_state_scheme \<Rightarrow> ('x process_state_scheme, unit) outcome" where
  "forkret s =
     andthen (krelease PtableLock s) (\<lambda>_ s.
       if forkret_first s then
         let s = s\<lparr>forkret_first := False\<rparr> in
         andthen (iinit ROOTDEV s) (\<lambda>_ s. initlog ROOTDEV s)
       else Ret () s)"

section \<open>Memory of a process\<close>

definition growproc :: "int \<Rightarrow> 'x proc_state_scheme \<Rightarrow> ('x proc_state_scheme, int) outcome" where
  "growproc n s =
     andthen (on_mach myproc s) (\<lambda>po s.
       case po of
         None \<Rightarrow> Undef ''no current process''
       | Some p \<Rightarrow>
           let sz = p_sz (procs s ! p); pgdir = p_pgdir (procs s ! p) in
           andthen (if n > 0 then allocuvm pgdir sz (sz + of_int n) s
                    else if n < 0 then deallocuvm pgdir sz (sz + of_int n) s
                    else Ret sz s) (\<lambda>sz s.
             if n \<noteq> 0 \<and> sz = 0 then Ret (- 1) s
             else
               let s = upd_proc p (\<lambda>pr. pr\<lparr>p_sz := sz\<rparr>) s in
               andthen (switchuvm (Some p) s) (\<lambda>_ s. Ret 0 s)))"

section \<open>fork\<close>

text \<open>The list of free stacks of the parent is followed in memory. It has at most \<open>2 ^ 32\<close> nodes
  unless it is circular.\<close>

definition list_steps :: nat where "list_steps = 4294967297"

primrec fork_stacks :: "nat \<Rightarrow> nat \<Rightarrow> u32 \<Rightarrow> 'x proc_state_scheme \<Rightarrow> ('x proc_state_scheme, unit) outcome" where
  "fork_stacks 0 np l s = Hang"
| "fork_stacks (Suc k) np l s =
     (if l = 0 then Ret () s
      else andthen (ufree np (list_usp (mem s) l) s) (\<lambda>_ s. fork_stacks k np (list_next (mem s) l) s))"

definition fork_files :: "nat \<Rightarrow> nat \<Rightarrow> 'x file_state_scheme \<Rightarrow> ('x file_state_scheme, unit) outcome" where
  "fork_files cp np s =
     each (\<lambda>i s.
       case p_ofile (procs s ! cp) ! i of
         None \<Rightarrow> Ret () s
       | Some f \<Rightarrow>
           andthen (filedup f s) (\<lambda>f s.
           Ret () (upd_proc np (\<lambda>pr. pr\<lparr>p_ofile := (p_ofile pr)[i := Some f]\<rparr>) s))) [0..<NOFILE] s"

definition fork :: "'x file_state_scheme \<Rightarrow> ('x file_state_scheme, int) outcome" where
  "fork s =
     andthen (current s) (\<lambda>(cp, ct) s.
     andthen (allocproc s) (\<lambda>po s.
       case po of
         None \<Rightarrow> Ret (- 1) s
       | Some np \<Rightarrow>
           andthen (copyuvm (p_pgdir (procs s ! cp)) (p_sz (procs s ! cp)) s) (\<lambda>d s.
             let s = upd_proc np (\<lambda>pr. pr\<lparr>p_pgdir := d\<rparr>) s in
             if d = 0 then Ret (- 1) (upd_proc np (\<lambda>pr. pr\<lparr>p_state := UNUSED\<rparr>) s)
             else andthen (allocthd np s) (\<lambda>to s.
               case to of
                 None \<Rightarrow> Ret (- 1) (upd_proc np (\<lambda>pr. pr\<lparr>p_state := UNUSED\<rparr>) s)
               | Some nt \<Rightarrow>
                   let s = upd_proc np (\<lambda>pr. pr\<lparr>p_pin := Some nt\<rparr>) s;
                       s = upd_thread nt (\<lambda>th. th\<lparr>t_usp := t_usp (threads s ! ct), t_tf := t_tf (threads s ! ct)\<rparr>) s;
                       s = upd_proc np (\<lambda>pr. pr\<lparr>p_sz := p_sz (procs s ! cp), p_parent := Some cp\<rparr>) s in
                   andthen (fork_stacks list_steps np (p_fslist (procs s ! cp)) s) (\<lambda>_ s.
                   andthen (each (\<lambda>t s.
                       if t_mp (threads s ! t) = Some cp \<and> t \<noteq> ct then ufree np (t_usp (threads s ! t)) s
                       else Ret () s) [0..<length (threads s)] s) (\<lambda>_ s.
                     let s = upd_proc np (\<lambda>pr. pr\<lparr>p_stype := MLFQ, p_qlev := HQLEV, p_pass := 0\<rparr>) s;
                         s = upd_thread nt (\<lambda>th. th\<lparr>t_tf := (t_tf th)\<lparr>tf_eax := 0\<rparr>\<rparr>) s in
                     andthen (fork_files cp np s) (\<lambda>_ s.
                       case p_cwd (procs s ! cp) of
                         None \<Rightarrow> Undef ''idup: null inode''
                       | Some cwd \<Rightarrow>
                           andthen (idup cwd s) (\<lambda>cwd s.
                             let s = upd_proc np (\<lambda>pr. pr\<lparr>p_cwd := Some cwd\<rparr>) s;
                                 s = upd_proc np (\<lambda>pr. pr\<lparr>p_name := safestrcpy (p_name pr) (p_name (procs s ! cp)) 16\<rparr>) s;
                                 pid = p_pid (procs s ! np) in
                             andthen (kacquire PtableLock s) (\<lambda>_ s.
                               let s = upd_proc np (\<lambda>pr. pr\<lparr>p_state := RUNNABLE\<rparr>) s;
                                   s = upd_thread nt (\<lambda>th. th\<lparr>t_state := RUNNABLE\<rparr>) s in
                               andthen (krelease PtableLock s) (\<lambda>_ s. Ret pid s))))))))))"

section \<open>exit\<close>

definition wakeup1_proc :: "nat option \<Rightarrow> 'x proc_state_scheme \<Rightarrow> ('x proc_state_scheme, unit) outcome" where
  "wakeup1_proc po s = (case po of None \<Rightarrow> Ret () s | Some p \<Rightarrow> wakeup1 (ProcChan p) s)"

text \<open>The part of \<^verbatim>\<open>exit\<close> after \<^verbatim>\<open>allthdexit\<close>, which returned \<open>r\<close>; the result is \<open>None\<close> when \<^verbatim>\<open>exit\<close>
  returns to its caller.\<close>

definition exit_rest ::
  "nat \<Rightarrow> nat \<Rightarrow> int \<Rightarrow> 'x cons_state_scheme \<Rightarrow> ('x cons_state_scheme, switch option) outcome" where
  "exit_rest cp ct r s =
     (if r = - 1 then
        andthen (cprintf (str8 ''exit fail'' @ [10]) [] s) (\<lambda>_ s.
        andthen (krelease PtableLock s) (\<lambda>_ s. Ret None s))
      else
        andthen (wakeup1_proc (p_parent (procs s ! cp)) s) (\<lambda>_ s.
        andthen (each (\<lambda>p s.
            if p_parent (procs s ! p) = Some cp then
              let s = upd_proc p (\<lambda>pr. pr\<lparr>p_parent := initproc s\<rparr>) s in
              if p_state (procs s ! p) = ZOMBIE then wakeup1_proc (initproc s) s else Ret () s
            else Ret () s) [0..<length (procs s)] s) (\<lambda>_ s.
        andthen (sched (setstate cp ct ZOMBIE s)) (\<lambda>sw s. Ret (Some sw) s))))"

definition exit_files :: "nat \<Rightarrow> 'x file_state_scheme \<Rightarrow> ('x file_state_scheme, unit) outcome" where
  "exit_files cp s =
     each (\<lambda>fd s.
       case p_ofile (procs s ! cp) ! fd of
         None \<Rightarrow> Ret () s
       | Some f \<Rightarrow>
           andthen (fileclose f s) (\<lambda>_ s.
           Ret () (upd_proc cp (\<lambda>pr. pr\<lparr>p_ofile := (p_ofile pr)[fd := None]\<rparr>) s))) [0..<NOFILE] s"

definition exit :: "'x file_state_scheme \<Rightarrow> ('x file_state_scheme, switch option) outcome" where
  "exit s =
     andthen (current s) (\<lambda>(cp, ct) s.
       if Some cp = initproc s then Panic ''init exiting''
       else andthen (exit_files cp s) (\<lambda>_ s.
         andthen (begin_op s) (\<lambda>_ s.
           case p_cwd (procs s ! cp) of
             None \<Rightarrow> Undef ''iput: null inode''
           | Some cwd \<Rightarrow>
               andthen (iput cwd s) (\<lambda>_ s.
               andthen (end_op s) (\<lambda>_ s.
                 let s = upd_proc cp (\<lambda>pr. pr\<lparr>p_cwd := None\<rparr>) s in
                 andthen (set_cpu_share 0 s) (\<lambda>_ s.
                 andthen (kacquire PtableLock s) (\<lambda>_ s.
                 andthen (allthdexit s) (\<lambda>r s. exit_rest cp ct r s))))))))"

definition exit_resume ::
  "nat \<Rightarrow> nat \<Rightarrow> switch \<Rightarrow> 'x file_state_scheme \<Rightarrow> ('x file_state_scheme, switch option) outcome" where
  "exit_resume cp ct sw s = andthen (allthdexit_resume cp ct sw s) (\<lambda>r s. exit_rest cp ct r s)"

text \<open>\<^verbatim>\<open>thread_exit\<close>; when the last thread leaves, \<^verbatim>\<open>exit\<close> is called, and the code goes on if it returns.\<close>

definition thread_exit :: "u32 \<Rightarrow> 'x file_state_scheme \<Rightarrow> ('x file_state_scheme, switch) outcome" where
  "thread_exit retval s =
     andthen (current s) (\<lambda>(cp, ct) s.
     andthen (kacquire PtableLock s) (\<lambda>_ s.
       let havethds = other_threads (\<lambda>th. t_state th > ZOMBIE) cp ct s in
       andthen (krelease PtableLock s) (\<lambda>_ s.
       andthen (if \<not> havethds then exit s else Ret None s) (\<lambda>left s.
         case left of
           Some sw \<Rightarrow> Ret sw s
         | None \<Rightarrow>
             let s = upd_thread ct (\<lambda>th. th\<lparr>t_tf := (t_tf th)\<lparr>tf_eax := retval\<rparr>\<rparr>) s in
             andthen (kacquire PtableLock s) (\<lambda>_ s.
             andthen (wakeup1_proc (t_mp (threads s ! ct)) s) (\<lambda>_ s.
             sched (setstate cp ct ZOMBIE s)))))))"

section \<open>wait\<close>

definition reap_threads :: "nat \<Rightarrow> 'x proc_state_scheme \<Rightarrow> ('x proc_state_scheme, unit) outcome" where
  "reap_threads p s =
     each (\<lambda>t s.
       if t_mp (threads s ! t) = Some p then
         andthen (kfree (t_kstack (threads s ! t)) s) (\<lambda>_ s.
         Ret () (upd_thread t (\<lambda>th. th\<lparr>t_kstack := 0, t_usp := 0, t_state := UNUSED, t_tid := 0, t_mp := None\<rparr>) s))
       else Ret () s) [0..<length (threads s)] s"

definition wait_loop :: "nat \<Rightarrow> 'x proc_state_scheme \<Rightarrow> ('x proc_state_scheme, int) outcome" where
  "wait_loop cp s =
     (case first_such (\<lambda>p. p_parent p = Some cp \<and> p_state p = ZOMBIE) (procs s) of
        Some p \<Rightarrow>
          let pid = p_pid (procs s ! p) in
          andthen (reap_threads p s) (\<lambda>_ s.
          andthen (freevm (p_pgdir (procs s ! p)) s) (\<lambda>_ s.
            let s = upd_proc p (\<lambda>pr. pr\<lparr>p_pid := 0, p_parent := None, p_name := (p_name pr)(0 := 0), p_killed := False,
                      p_state := UNUSED, p_stype := NoSched, p_qlev := 0, p_ticks := 0, p_share := 0, p_pass := 0,
                      p_fslist := 0, p_pin := None\<rparr>) s in
            andthen (krelease PtableLock s) (\<lambda>_ s. Ret pid s)))
      | None \<Rightarrow>
          if \<not> list_ex (\<lambda>p. p_parent p = Some cp) (procs s) \<or> p_killed (procs s ! cp) \<or> p_exited (procs s ! cp)
          then andthen (krelease PtableLock s) (\<lambda>_ s. Ret (- 1) s)
          else go_to_sleep (ProcChan cp) PtableLock s)"

definition wait :: "'x proc_state_scheme \<Rightarrow> ('x proc_state_scheme, int) outcome" where
  "wait s =
     andthen (on_mach myproc s) (\<lambda>po s.
     andthen (kacquire PtableLock s) (\<lambda>_ s.
       case po of
         None \<Rightarrow> Undef ''no current process''
       | Some cp \<Rightarrow> wait_loop cp s))"

definition wait_resume :: "nat \<Rightarrow> nat \<Rightarrow> switch \<Rightarrow> 'x proc_state_scheme \<Rightarrow> ('x proc_state_scheme, int) outcome" where
  "wait_resume cp t sw s = andthen (sleep_resume t PtableLock sw s) (\<lambda>_ s. wait_loop cp s)"

end
