(* ===== verification/Exec.thy ===== *)
theory Exec
  imports Process
begin

text \<open>
  \<^verbatim>\<open>exec.c\<close> with \<^verbatim>\<open>loaduvm\<close> of \<^verbatim>\<open>vm.c\<close>. The arguments are the strings that \<^verbatim>\<open>argv\<close> points to. The code
  from \<^verbatim>\<open>bad:\<close> on is \<open>exec_bad\<close>; the code after \<^verbatim>\<open>allthdexit\<close>, which may sleep, is \<open>exec_rest\<close>.
\<close>

definition MAXARG :: nat where "MAXARG = 32"
definition ELF_MAGIC :: u32 where "ELF_MAGIC = 0x464C457F"
definition ELF_PROG_LOAD :: u32 where "ELF_PROG_LOAD = 1"

text \<open>The fields of the two headers that are used, at their offsets; the headers have 52 and 32
  bytes.\<close>

record elfhdr =
  e_magic :: u32
  e_entry :: u32
  e_phoff :: u32
  e_phnum :: u16

definition get_elfhdr :: "u8 list \<Rightarrow> elfhdr" where
  "get_elfhdr d = \<lparr>e_magic = word_at d 0, e_entry = word_at d 24, e_phoff = word_at d 28, e_phnum = half_at d 44\<rparr>"

record proghdr =
  ph_type :: u32
  ph_off :: u32
  ph_vaddr :: u32
  ph_filesz :: u32
  ph_memsz :: u32

definition get_proghdr :: "u8 list \<Rightarrow> proghdr" where
  "get_proghdr d = \<lparr>ph_type = word_at d 0, ph_off = word_at d 4, ph_vaddr = word_at d 8, ph_filesz = word_at d 16,
     ph_memsz = word_at d 20\<rparr>"

section \<open>Loading a segment\<close>

primrec loaduvm_from ::
  "nat \<Rightarrow> u32 \<Rightarrow> u32 \<Rightarrow> nat \<Rightarrow> u32 \<Rightarrow> u32 \<Rightarrow> u32 \<Rightarrow> 'x cons_state_scheme \<Rightarrow> ('x cons_state_scheme, int) outcome" where
  "loaduvm_from 0 pgdir addr ip offset sz i s = Hang"
| "loaduvm_from (Suc k) pgdir addr ip offset sz i s =
     (if \<not> i < sz then Ret 0 s
      else andthen (walkpgdir pgdir (addr + i) False s) (\<lambda>pte s.
        if pte = 0 then Panic ''loaduvm: address should exist''
        else
          let pa = PTE_ADDR (load32 (mem s) pte);
              n = (if sz - i < PGSIZE then sz - i else PGSIZE) in
          andthen (readi ip (offset + i) n s) (\<lambda>(r, bs) s.
            let s = s\<lparr>mem := store_bytes (P2V pa) bs (mem s)\<rparr> in
            if of_int r \<noteq> n then Ret (- 1) s
            else loaduvm_from k pgdir addr ip offset sz (i + PGSIZE) s)))"

definition loaduvm ::
  "u32 \<Rightarrow> u32 \<Rightarrow> nat \<Rightarrow> u32 \<Rightarrow> u32 \<Rightarrow> 'x cons_state_scheme \<Rightarrow> ('x cons_state_scheme, int) outcome" where
  "loaduvm pgdir addr ip offset sz s =
     (if addr mod PGSIZE \<noteq> 0 then Panic ''loaduvm: addr must be page aligned''
      else loaduvm_from (Suc max_pages) pgdir addr ip offset sz 0 s)"

section \<open>exec\<close>

definition exec_bad :: "u32 \<Rightarrow> nat option \<Rightarrow> 'x cons_state_scheme \<Rightarrow> ('x cons_state_scheme, int) outcome" where
  "exec_bad pgdir ipo s =
     andthen (if pgdir \<noteq> 0 then freevm pgdir s else Ret () s) (\<lambda>_ s.
     andthen (case ipo of
                None \<Rightarrow> Ret () s
              | Some ip \<Rightarrow> andthen (iunlockput ip s) (\<lambda>_ s. end_op s)) (\<lambda>_ s.
     Ret (- 1) s))"

text \<open>The loop over the program headers, \<open>n\<close> of which are left; the result is the size of the
  image, or \<open>None\<close> for a jump to \<^verbatim>\<open>bad\<close>.\<close>

primrec exec_segments ::
  "nat \<Rightarrow> u32 \<Rightarrow> nat \<Rightarrow> u32 \<Rightarrow> u32 \<Rightarrow> 'x cons_state_scheme \<Rightarrow> ('x cons_state_scheme, u32 option) outcome" where
  "exec_segments 0 pgdir ip off sz s = Ret (Some sz) s"
| "exec_segments (Suc n) pgdir ip off sz s =
     andthen (readi ip off 32 s) (\<lambda>(r, bs) s.
       if r \<noteq> 32 then Ret None s
       else
         let ph = get_proghdr bs in
         if ph_type ph \<noteq> ELF_PROG_LOAD then exec_segments n pgdir ip (off + 32) sz s
         else if ph_memsz ph < ph_filesz ph then Ret None s
         else if ph_vaddr ph + ph_memsz ph < ph_vaddr ph then Ret None s
         else andthen (allocuvm pgdir sz (ph_vaddr ph + ph_memsz ph) s) (\<lambda>sz s.
           if sz = 0 then Ret None s
           else if ph_vaddr ph mod PGSIZE \<noteq> 0 then Ret None s
           else andthen (loaduvm pgdir (ph_vaddr ph) ip (ph_off ph) (ph_filesz ph) s) (\<lambda>r s.
             if r < 0 then Ret None s
             else exec_segments n pgdir ip (off + 32) sz s)))"

text \<open>The loop that pushes the argument strings; it returns the stack pointer and the addresses of the
  strings.\<close>

primrec exec_args ::
  "u8 list list \<Rightarrow> u32 \<Rightarrow> u32 \<Rightarrow> u32 list \<Rightarrow> 'x kmem_state_scheme \<Rightarrow> ('x kmem_state_scheme, (u32 \<times> u32 list) option) outcome" where
  "exec_args [] pgdir sp ptrs s = Ret (Some (sp, ptrs)) s"
| "exec_args (a # as) pgdir sp ptrs s =
     (if length ptrs \<ge> MAXARG then Ret None s
      else
        let sp = (sp - of_nat (length a + 1)) AND NOT 3 in
        andthen (copyout pgdir sp (a @ [0]) s) (\<lambda>r s.
          if r < 0 then Ret None s
          else exec_args as pgdir sp (ptrs @ [sp]) s))"

definition reap_others :: "nat \<Rightarrow> nat \<Rightarrow> 'x proc_state_scheme \<Rightarrow> ('x proc_state_scheme, unit) outcome" where
  "reap_others cp ct s =
     each (\<lambda>t s.
       if t \<noteq> ct \<and> t_mp (threads s ! t) = Some cp \<and> t_state (threads s ! t) = ZOMBIE then
         andthen (kfree (t_kstack (threads s ! t)) s) (\<lambda>_ s.
         Ret () (upd_thread t (\<lambda>th. th\<lparr>t_kstack := 0, t_usp := 0, t_state := UNUSED, t_tid := 0, t_mp := None\<rparr>) s))
       else Ret () s) [0..<length (threads s)] s"

text \<open>What follows the last slash of the path.\<close>

definition last_elem :: "u8 list \<Rightarrow> u8 list" where
  "last_elem path = rev (takeWhile (\<lambda>c. c \<noteq> 47) (rev path))"

definition exec_rest ::
  "nat \<Rightarrow> nat \<Rightarrow> u8 list \<Rightarrow> u32 \<Rightarrow> u32 \<Rightarrow> u32 \<Rightarrow> u32 \<Rightarrow> int \<Rightarrow>
     'x cons_state_scheme \<Rightarrow> ('x cons_state_scheme, int) outcome" where
  "exec_rest cp ct path pgdir sz sp entry r s =
     (if r = - 1 then andthen (krelease PtableLock s) (\<lambda>_ s. exec_bad pgdir None s)
      else
        andthen (reap_others cp ct s) (\<lambda>_ s.
          let s = upd_proc cp (\<lambda>pr. pr\<lparr>p_name := safestrcpy (p_name pr) (name_of (last_elem path)) 16\<rparr>) s;
              oldpgdir = p_pgdir (procs s ! cp);
              s = upd_proc cp (\<lambda>pr. pr\<lparr>p_pgdir := pgdir, p_sz := sz, p_fslist := 0\<rparr>) s;
              s = upd_thread ct (\<lambda>th. th\<lparr>t_usp := sz, t_tf := (t_tf th)\<lparr>tf_eip := entry, tf_esp := sp\<rparr>\<rparr>) s in
          andthen (switchuvm (Some cp) s) (\<lambda>_ s.
          andthen (freevm oldpgdir s) (\<lambda>_ s.
          andthen (krelease PtableLock s) (\<lambda>_ s. Ret 0 s)))))"

definition exec_stack ::
  "nat \<Rightarrow> nat \<Rightarrow> u8 list \<Rightarrow> u8 list list \<Rightarrow> u32 \<Rightarrow> u32 \<Rightarrow> u32 \<Rightarrow>
     'x cons_state_scheme \<Rightarrow> ('x cons_state_scheme, int) outcome" where
  "exec_stack cp ct path argv pgdir sz entry s =
     (let sz = PGROUNDUP sz in
      andthen (allocuvm pgdir sz (sz + 2 * PGSIZE) s) (\<lambda>sz s.
        if sz = 0 then exec_bad pgdir None s
        else andthen (clearpteu pgdir (sz - 2 * PGSIZE) s) (\<lambda>_ s.
          andthen (exec_args argv pgdir sz [] s) (\<lambda>args s.
            case args of
              None \<Rightarrow> exec_bad pgdir None s
            | Some (sp, ptrs) \<Rightarrow>
                let argc = length ptrs;
                    ustack = [0xFFFFFFFF, of_nat argc, sp - of_nat ((argc + 1) * 4)] @ ptrs @ [0];
                    sp = sp - of_nat ((3 + argc + 1) * 4) in
                andthen (copyout pgdir sp (concat (map word_bytes ustack)) s) (\<lambda>r s.
                  if r < 0 then exec_bad pgdir None s
                  else andthen (kacquire PtableLock s) (\<lambda>_ s.
                    andthen (allthdexit s) (\<lambda>r s. exec_rest cp ct path pgdir sz sp entry r s)))))))"

definition exec :: "u8 list \<Rightarrow> u8 list list \<Rightarrow> 'x cons_state_scheme \<Rightarrow> ('x cons_state_scheme, int) outcome" where
  "exec path argv s =
     andthen (current s) (\<lambda>(cp, ct) s.
     andthen (begin_op s) (\<lambda>_ s.
     andthen (namei path s) (\<lambda>ipo s.
       case ipo of
         None \<Rightarrow>
           andthen (end_op s) (\<lambda>_ s.
           andthen (cprintf (str8 ''exec: fail'' @ [10]) [] s) (\<lambda>_ s. Ret (- 1) s))
       | Some ip \<Rightarrow>
           andthen (ilock ip s) (\<lambda>_ s.
           andthen (readi ip 0 52 s) (\<lambda>(r, bs) s.
             let elf = get_elfhdr bs in
             if r \<noteq> 52 then exec_bad 0 (Some ip) s
             else if e_magic elf \<noteq> ELF_MAGIC then exec_bad 0 (Some ip) s
             else andthen (setupkvm s) (\<lambda>pgdir s.
               if pgdir = 0 then exec_bad 0 (Some ip) s
               else andthen (exec_segments (unat (e_phnum elf)) pgdir ip (e_phoff elf) 0 s) (\<lambda>szo s.
                 case szo of
                   None \<Rightarrow> exec_bad pgdir (Some ip) s
                 | Some sz \<Rightarrow>
                     andthen (iunlockput ip s) (\<lambda>_ s.
                     andthen (end_op s) (\<lambda>_ s.
                     exec_stack cp ct path argv pgdir sz (e_entry elf) s)))))))))"

definition exec_resume ::
  "nat \<Rightarrow> nat \<Rightarrow> u8 list \<Rightarrow> u32 \<Rightarrow> u32 \<Rightarrow> u32 \<Rightarrow> u32 \<Rightarrow> switch \<Rightarrow>
     'x cons_state_scheme \<Rightarrow> ('x cons_state_scheme, int) outcome" where
  "exec_resume cp ct path pgdir sz sp entry sw s =
     andthen (allthdexit_resume cp ct sw s) (\<lambda>r s. exec_rest cp ct path pgdir sz sp entry r s)"

end
