(* ===== verification/Sysfile.thy ===== *)
theory Sysfile
  imports Exec
begin

text \<open>
  The arguments of system calls, the upper part of \<^verbatim>\<open>syscall.c\<close>, and the system calls on files,
  \<^verbatim>\<open>sysfile.c\<close>. A function that stores a result through a pointer and returns 0 or -1
  returns an option. A local array \<^verbatim>\<open>name\<close> that the code does not initialise starts with zeros.
\<close>

section \<open>Arguments of system calls\<close>

definition cur_sz :: "'x proc_state_scheme \<Rightarrow> ('x proc_state_scheme, u32) outcome" where
  "cur_sz s =
     andthen (on_mach myproc s) (\<lambda>po s.
       case po of
         None \<Rightarrow> Undef ''no current process''
       | Some p \<Rightarrow> Ret (p_sz (procs s ! p)) s)"

definition fetchint :: "u32 \<Rightarrow> 'x proc_state_scheme \<Rightarrow> ('x proc_state_scheme, u32 option) outcome" where
  "fetchint addr s =
     andthen (cur_sz s) (\<lambda>sz s.
       if addr \<ge> sz \<or> addr + 4 > sz then Ret None s
       else andthen (user_word addr s) (\<lambda>w s. Ret (Some w) s))"

text \<open>The loop of \<^verbatim>\<open>fetchstr\<close>, with \<open>n\<close> bytes left before the end of the process.\<close>

primrec fetchstr_loop :: "nat \<Rightarrow> u32 \<Rightarrow> 'x kmem_state_scheme \<Rightarrow> ('x kmem_state_scheme, u8 list option) outcome" where
  "fetchstr_loop 0 va s = Ret None s"
| "fetchstr_loop (Suc n) va s =
     andthen (user_load va s) (\<lambda>c s.
       if c = 0 then Ret (Some []) s
       else andthen (fetchstr_loop n (va + 1) s) (\<lambda>r s. Ret (map_option (\<lambda>cs. c # cs) r) s))"

definition fetchstr :: "u32 \<Rightarrow> 'x proc_state_scheme \<Rightarrow> ('x proc_state_scheme, u8 list option) outcome" where
  "fetchstr addr s =
     andthen (cur_sz s) (\<lambda>sz s.
       if addr \<ge> sz then Ret None s else fetchstr_loop (unat (sz - addr)) addr s)"

definition argint :: "nat \<Rightarrow> 'x proc_state_scheme \<Rightarrow> ('x proc_state_scheme, u32 option) outcome" where
  "argint n s =
     andthen (on_mach mythd s) (\<lambda>to s.
       case to of
         None \<Rightarrow> Undef ''no current thread''
       | Some t \<Rightarrow> fetchint (tf_esp (t_tf (threads s ! t)) + 4 + 4 * of_nat n) s)"

definition argptr :: "nat \<Rightarrow> int \<Rightarrow> 'x proc_state_scheme \<Rightarrow> ('x proc_state_scheme, u32 option) outcome" where
  "argptr n sz s =
     andthen (argint n s) (\<lambda>io s.
       case io of
         None \<Rightarrow> Ret None s
       | Some i \<Rightarrow>
           andthen (cur_sz s) (\<lambda>psz s.
             if sz < 0 \<or> i \<ge> psz \<or> i + of_int sz > psz then Ret None s else Ret (Some i) s))"

definition argstr :: "nat \<Rightarrow> 'x proc_state_scheme \<Rightarrow> ('x proc_state_scheme, u8 list option) outcome" where
  "argstr n s =
     andthen (argint n s) (\<lambda>ao s.
       case ao of None \<Rightarrow> Ret None s | Some addr \<Rightarrow> fetchstr addr s)"

section \<open>File descriptors\<close>

definition argfd :: "nat \<Rightarrow> 'x proc_state_scheme \<Rightarrow> ('x proc_state_scheme, (nat \<times> nat) option) outcome" where
  "argfd n s =
     andthen (argint n s) (\<lambda>fo s.
       case fo of
         None \<Rightarrow> Ret None s
       | Some w \<Rightarrow>
           let fd = sint w in
           if fd < 0 \<or> fd \<ge> int NOFILE then Ret None s
           else andthen (on_mach myproc s) (\<lambda>po s.
             case po of
               None \<Rightarrow> Undef ''no current process''
             | Some p \<Rightarrow>
                 (case p_ofile (procs s ! p) ! nat fd of
                    None \<Rightarrow> Ret None s
                  | Some f \<Rightarrow> Ret (Some (nat fd, f)) s)))"

definition fdalloc :: "nat \<Rightarrow> 'x proc_state_scheme \<Rightarrow> ('x proc_state_scheme, nat option) outcome" where
  "fdalloc f s =
     andthen (on_mach myproc s) (\<lambda>po s.
       case po of
         None \<Rightarrow> Undef ''no current process''
       | Some p \<Rightarrow>
           (case first_such (\<lambda>x. x = None) (p_ofile (procs s ! p)) of
              None \<Rightarrow> Ret None s
            | Some fd \<Rightarrow> Ret (Some fd) (upd_proc p (\<lambda>pr. pr\<lparr>p_ofile := (p_ofile pr)[fd := Some f]\<rparr>) s)))"

definition set_ofile :: "nat \<Rightarrow> nat option \<Rightarrow> 'x proc_state_scheme \<Rightarrow> ('x proc_state_scheme, unit) outcome" where
  "set_ofile fd f s =
     andthen (on_mach myproc s) (\<lambda>po s.
       case po of
         None \<Rightarrow> Undef ''no current process''
       | Some p \<Rightarrow> Ret () (upd_proc p (\<lambda>pr. pr\<lparr>p_ofile := (p_ofile pr)[fd := f]\<rparr>) s))"

definition sys_dup :: "'x file_state_scheme \<Rightarrow> ('x file_state_scheme, int) outcome" where
  "sys_dup s =
     andthen (argfd 0 s) (\<lambda>a s.
       case a of
         None \<Rightarrow> Ret (- 1) s
       | Some (_, f) \<Rightarrow>
           andthen (fdalloc f s) (\<lambda>fdo s.
             case fdo of
               None \<Rightarrow> Ret (- 1) s
             | Some fd \<Rightarrow> andthen (filedup f s) (\<lambda>_ s. Ret (int fd) s)))"

text \<open>The first argument is a descriptor, the third a length and the second a buffer of that length.\<close>

definition arg_buffer :: "'x proc_state_scheme \<Rightarrow> ('x proc_state_scheme, (nat \<times> int \<times> u32) option) outcome" where
  "arg_buffer s =
     andthen (argfd 0 s) (\<lambda>a s.
       case a of
         None \<Rightarrow> Ret None s
       | Some (_, f) \<Rightarrow>
           andthen (argint 2 s) (\<lambda>no s.
             case no of
               None \<Rightarrow> Ret None s
             | Some n \<Rightarrow>
                 andthen (argptr 1 (sint n) s) (\<lambda>po s.
                   case po of None \<Rightarrow> Ret None s | Some p \<Rightarrow> Ret (Some (f, sint n, p)) s)))"

definition sys_read :: "'x file_state_scheme \<Rightarrow> ('x file_state_scheme, int) outcome" where
  "sys_read s =
     andthen (arg_buffer s) (\<lambda>a s.
       case a of
         None \<Rightarrow> Ret (- 1) s
       | Some (f, n, p) \<Rightarrow>
           andthen (fileread f n s) (\<lambda>(r, bs) s.
           andthen (user_stores p bs s) (\<lambda>_ s. Ret r s)))"

definition sys_write :: "'x file_state_scheme \<Rightarrow> ('x file_state_scheme, int) outcome" where
  "sys_write s =
     andthen (arg_buffer s) (\<lambda>a s.
       case a of
         None \<Rightarrow> Ret (- 1) s
       | Some (f, n, p) \<Rightarrow>
           andthen (user_loads (nat n) p s) (\<lambda>bs s. filewrite f bs s))"

definition sys_close :: "'x file_state_scheme \<Rightarrow> ('x file_state_scheme, int) outcome" where
  "sys_close s =
     andthen (argfd 0 s) (\<lambda>a s.
       case a of
         None \<Rightarrow> Ret (- 1) s
       | Some (fd, f) \<Rightarrow>
           andthen (set_ofile fd None s) (\<lambda>_ s.
           andthen (fileclose f s) (\<lambda>_ s. Ret 0 s)))"

text \<open>\<^verbatim>\<open>struct stat\<close> has 20 bytes, two of them of padding after each short field.\<close>

definition half_bytes :: "u16 \<Rightarrow> u8 list" where
  "half_bytes h = [byte_at 0 (ucast h), byte_at 1 (ucast h)]"

definition put_stat :: "u32 \<Rightarrow> stat \<Rightarrow> 'x kmem_state_scheme \<Rightarrow> ('x kmem_state_scheme, unit) outcome" where
  "put_stat p st s =
     andthen (user_stores (p + 4) (word_bytes (st_dev st)) s) (\<lambda>_ s.
     andthen (user_stores (p + 8) (word_bytes (st_ino st)) s) (\<lambda>_ s.
     andthen (user_stores p (half_bytes (st_type st)) s) (\<lambda>_ s.
     andthen (user_stores (p + 12) (half_bytes (st_nlink st)) s) (\<lambda>_ s.
     user_stores (p + 16) (word_bytes (st_size st)) s))))"

definition sys_fstat :: "'x file_state_scheme \<Rightarrow> ('x file_state_scheme, int) outcome" where
  "sys_fstat s =
     andthen (argfd 0 s) (\<lambda>a s.
       case a of
         None \<Rightarrow> Ret (- 1) s
       | Some (_, f) \<Rightarrow>
           andthen (argptr 1 20 s) (\<lambda>po s.
             case po of
               None \<Rightarrow> Ret (- 1) s
             | Some p \<Rightarrow>
                 andthen (filestat f s) (\<lambda>sto s.
                   case sto of
                     None \<Rightarrow> Ret (- 1) s
                   | Some st \<Rightarrow> andthen (put_stat p st s) (\<lambda>_ s. Ret 0 s))))"

section \<open>Links\<close>

definition fail_op :: "'x log_state_scheme \<Rightarrow> ('x log_state_scheme, int) outcome" where
  "fail_op s = andthen (end_op s) (\<lambda>_ s. Ret (- 1) s)"

definition sys_link_bad :: "nat \<Rightarrow> 'x inode_state_scheme \<Rightarrow> ('x inode_state_scheme, int) outcome" where
  "sys_link_bad ip s =
     andthen (ilock ip s) (\<lambda>_ s.
       let s = upd_inode ip (\<lambda>i. i\<lparr>i_nlink := i_nlink i - 1\<rparr>) s in
       andthen (iupdate ip s) (\<lambda>_ s.
       andthen (iunlockput ip s) (\<lambda>_ s. fail_op s)))"

definition sys_link :: "'x cons_state_scheme \<Rightarrow> ('x cons_state_scheme, int) outcome" where
  "sys_link s =
     andthen (argstr 0 s) (\<lambda>oldo s. case oldo of None \<Rightarrow> Ret (- 1) s | Some old \<Rightarrow>
     andthen (argstr 1 s) (\<lambda>newo s. case newo of None \<Rightarrow> Ret (- 1) s | Some new \<Rightarrow>
     andthen (begin_op s) (\<lambda>_ s.
     andthen (namei old s) (\<lambda>ipo s. case ipo of None \<Rightarrow> fail_op s | Some ip \<Rightarrow>
     andthen (ilock ip s) (\<lambda>_ s.
       if i_type (inodes s ! ip) = T_DIR then andthen (iunlockput ip s) (\<lambda>_ s. fail_op s)
       else
         let s = upd_inode ip (\<lambda>i. i\<lparr>i_nlink := i_nlink i + 1\<rparr>) s in
         andthen (iupdate ip s) (\<lambda>_ s.
         andthen (iunlock ip s) (\<lambda>_ s.
         andthen (nameiparent new (\<lambda>_. 0) s) (\<lambda>dpo s.
           case dpo of
             None \<Rightarrow> sys_link_bad ip s
           | Some (dp, name) \<Rightarrow>
               andthen (ilock dp s) (\<lambda>_ s.
               andthen (if i_dev (inodes s ! dp) \<noteq> i_dev (inodes s ! ip) then Ret (- 1) s
                        else dirlink dp name (i_inum (inodes s ! ip)) s) (\<lambda>r s.
                 if r < 0 then andthen (iunlockput dp s) (\<lambda>_ s. sys_link_bad ip s)
                 else
                   andthen (iunlockput dp s) (\<lambda>_ s.
                   andthen (iput ip s) (\<lambda>_ s.
                   andthen (end_op s) (\<lambda>_ s. Ret 0 s)))))))))))))"

primrec isdirempty_from :: "nat \<Rightarrow> nat \<Rightarrow> u32 \<Rightarrow> 'x cons_state_scheme \<Rightarrow> ('x cons_state_scheme, bool) outcome" where
  "isdirempty_from 0 dp off s = Hang"
| "isdirempty_from (Suc k) dp off s =
     (if \<not> off < i_size (inodes s ! dp) then Ret True s
      else andthen (readi dp off 16 s) (\<lambda>(r, bs) s.
        if r \<noteq> 16 then Panic ''isdirempty: readi''
        else if de_inum (get_dirent bs) \<noteq> 0 then Ret False s
        else isdirempty_from k dp (off + 16) s))"

definition isdirempty :: "nat \<Rightarrow> 'x cons_state_scheme \<Rightarrow> ('x cons_state_scheme, bool) outcome" where
  "isdirempty dp s = isdirempty_from dir_steps dp 32 s"

definition sys_unlink_bad :: "nat \<Rightarrow> 'x inode_state_scheme \<Rightarrow> ('x inode_state_scheme, int) outcome" where
  "sys_unlink_bad dp s = andthen (iunlockput dp s) (\<lambda>_ s. fail_op s)"

definition sys_unlink :: "'x cons_state_scheme \<Rightarrow> ('x cons_state_scheme, int) outcome" where
  "sys_unlink s =
     andthen (argstr 0 s) (\<lambda>po s. case po of None \<Rightarrow> Ret (- 1) s | Some path \<Rightarrow>
     andthen (begin_op s) (\<lambda>_ s.
     andthen (nameiparent path (\<lambda>_. 0) s) (\<lambda>dpo s. case dpo of None \<Rightarrow> fail_op s | Some (dp, name) \<Rightarrow>
     andthen (ilock dp s) (\<lambda>_ s.
       if namecmp name (name_of (str8 ''.'')) = 0 \<or> namecmp name (name_of (str8 ''..'')) = 0 then sys_unlink_bad dp s
       else andthen (dirlookup dp name s) (\<lambda>ipo s. case ipo of None \<Rightarrow> sys_unlink_bad dp s | Some (ip, off) \<Rightarrow>
         andthen (ilock ip s) (\<lambda>_ s.
           if sint (i_nlink (inodes s ! ip)) < 1 then Panic ''unlink: nlink < 1''
           else andthen (if i_type (inodes s ! ip) = T_DIR then isdirempty ip s else Ret True s) (\<lambda>e s.
             if \<not> e then andthen (iunlockput ip s) (\<lambda>_ s. sys_unlink_bad dp s)
             else andthen (writei dp (replicate 16 0) off s) (\<lambda>r s.
               if r \<noteq> 16 then Panic ''unlink: writei''
               else
                 andthen (if i_type (inodes s ! ip) = T_DIR
                          then iupdate dp (upd_inode dp (\<lambda>i. i\<lparr>i_nlink := i_nlink i - 1\<rparr>) s)
                          else Ret () s) (\<lambda>_ s.
                 andthen (iunlockput dp s) (\<lambda>_ s.
                   let s = upd_inode ip (\<lambda>i. i\<lparr>i_nlink := i_nlink i - 1\<rparr>) s in
                   andthen (iupdate ip s) (\<lambda>_ s.
                   andthen (iunlockput ip s) (\<lambda>_ s.
                   andthen (end_op s) (\<lambda>_ s. Ret 0 s)))))))))))))"

section \<open>Creating and opening files\<close>

definition create :: "u8 list \<Rightarrow> u16 \<Rightarrow> u16 \<Rightarrow> u16 \<Rightarrow> 'x cons_state_scheme \<Rightarrow> ('x cons_state_scheme, nat option) outcome" where
  "create path type major minor s =
     andthen (nameiparent path (\<lambda>_. 0) s) (\<lambda>dpo s. case dpo of None \<Rightarrow> Ret None s | Some (dp, name) \<Rightarrow>
     andthen (ilock dp s) (\<lambda>_ s.
     andthen (dirlookup dp name s) (\<lambda>ipo s.
       case ipo of
         Some (ip, _) \<Rightarrow>
           andthen (iunlockput dp s) (\<lambda>_ s.
           andthen (ilock ip s) (\<lambda>_ s.
             if type = T_FILE \<and> i_type (inodes s ! ip) = T_FILE then Ret (Some ip) s
             else andthen (iunlockput ip s) (\<lambda>_ s. Ret None s)))
       | None \<Rightarrow>
           andthen (ialloc (i_dev (inodes s ! dp)) type s) (\<lambda>ip s.
           andthen (ilock ip s) (\<lambda>_ s.
             let s = upd_inode ip (\<lambda>i. i\<lparr>i_major := major, i_minor := minor, i_nlink := 1\<rparr>) s in
             andthen (iupdate ip s) (\<lambda>_ s.
             andthen
               (if type = T_DIR then
                  let s = upd_inode dp (\<lambda>i. i\<lparr>i_nlink := i_nlink i + 1\<rparr>) s in
                  andthen (iupdate dp s) (\<lambda>_ s.
                  andthen (dirlink ip (name_of (str8 ''.'')) (i_inum (inodes s ! ip)) s) (\<lambda>r s.
                    if r < 0 then Panic ''create dots''
                    else andthen (dirlink ip (name_of (str8 ''..'')) (i_inum (inodes s ! dp)) s) (\<lambda>r s.
                      if r < 0 then Panic ''create dots'' else Ret () s)))
                else Ret () s) (\<lambda>_ s.
             andthen (dirlink dp name (i_inum (inodes s ! ip)) s) (\<lambda>r s.
               if r < 0 then Panic ''create: dirlink''
               else andthen (iunlockput dp s) (\<lambda>_ s. Ret (Some ip) s)))))))))"

definition O_RDONLY :: u32 where "O_RDONLY = 0"
definition O_WRONLY :: u32 where "O_WRONLY = 1"
definition O_RDWR :: u32 where "O_RDWR = 2"
definition O_CREATE :: u32 where "O_CREATE = 0x200"

definition sys_open :: "'x file_state_scheme \<Rightarrow> ('x file_state_scheme, int) outcome" where
  "sys_open s =
     andthen (argstr 0 s) (\<lambda>po s. case po of None \<Rightarrow> Ret (- 1) s | Some path \<Rightarrow>
     andthen (argint 1 s) (\<lambda>mo s. case mo of None \<Rightarrow> Ret (- 1) s | Some omode \<Rightarrow>
     andthen (begin_op s) (\<lambda>_ s.
     andthen
       (if omode AND O_CREATE \<noteq> 0 then create path T_FILE 0 0 s
        else andthen (namei path s) (\<lambda>ipo s.
          case ipo of
            None \<Rightarrow> Ret None s
          | Some ip \<Rightarrow>
              andthen (ilock ip s) (\<lambda>_ s.
                if i_type (inodes s ! ip) = T_DIR \<and> omode \<noteq> O_RDONLY
                then andthen (iunlockput ip s) (\<lambda>_ s. Ret None s)
                else Ret (Some ip) s))) (\<lambda>ipo s. case ipo of None \<Rightarrow> fail_op s | Some ip \<Rightarrow>
     andthen (filealloc s) (\<lambda>fo s.
       case fo of
         None \<Rightarrow> andthen (iunlockput ip s) (\<lambda>_ s. fail_op s)
       | Some f \<Rightarrow>
           andthen (fdalloc f s) (\<lambda>fdo s.
             case fdo of
               None \<Rightarrow>
                 andthen (fileclose f s) (\<lambda>_ s.
                 andthen (iunlockput ip s) (\<lambda>_ s. fail_op s))
             | Some fd \<Rightarrow>
                 andthen (iunlock ip s) (\<lambda>_ s.
                 andthen (end_op s) (\<lambda>_ s.
                   let s = upd_file f (\<lambda>x. x\<lparr>f_type := FD_INODE, f_ip := ip, f_off := 0,
                             f_readable := (omode AND O_WRONLY = 0),
                             f_writable := (omode AND O_WRONLY \<noteq> 0 \<or> omode AND O_RDWR \<noteq> 0)\<rparr>) s in
                   Ret (int fd) s))))))))"

definition sys_mkdir :: "'x cons_state_scheme \<Rightarrow> ('x cons_state_scheme, int) outcome" where
  "sys_mkdir s =
     andthen (begin_op s) (\<lambda>_ s.
     andthen (argstr 0 s) (\<lambda>po s. case po of None \<Rightarrow> fail_op s | Some path \<Rightarrow>
     andthen (create path T_DIR 0 0 s) (\<lambda>ipo s. case ipo of None \<Rightarrow> fail_op s | Some ip \<Rightarrow>
     andthen (iunlockput ip s) (\<lambda>_ s.
     andthen (end_op s) (\<lambda>_ s. Ret 0 s)))))"

definition sys_mknod :: "'x cons_state_scheme \<Rightarrow> ('x cons_state_scheme, int) outcome" where
  "sys_mknod s =
     andthen (begin_op s) (\<lambda>_ s.
     andthen (argstr 0 s) (\<lambda>po s. case po of None \<Rightarrow> fail_op s | Some path \<Rightarrow>
     andthen (argint 1 s) (\<lambda>mo s. case mo of None \<Rightarrow> fail_op s | Some major \<Rightarrow>
     andthen (argint 2 s) (\<lambda>no s. case no of None \<Rightarrow> fail_op s | Some minor \<Rightarrow>
     andthen (create path T_DEV (ucast major) (ucast minor) s) (\<lambda>ipo s. case ipo of None \<Rightarrow> fail_op s | Some ip \<Rightarrow>
     andthen (iunlockput ip s) (\<lambda>_ s.
     andthen (end_op s) (\<lambda>_ s. Ret 0 s)))))))"

definition sys_chdir :: "'x cons_state_scheme \<Rightarrow> ('x cons_state_scheme, int) outcome" where
  "sys_chdir s =
     andthen (on_mach myproc s) (\<lambda>cpo s.
     andthen (begin_op s) (\<lambda>_ s.
     andthen (argstr 0 s) (\<lambda>po s. case po of None \<Rightarrow> fail_op s | Some path \<Rightarrow>
     andthen (namei path s) (\<lambda>ipo s. case ipo of None \<Rightarrow> fail_op s | Some ip \<Rightarrow>
     andthen (ilock ip s) (\<lambda>_ s.
       if i_type (inodes s ! ip) \<noteq> T_DIR then andthen (iunlockput ip s) (\<lambda>_ s. fail_op s)
       else andthen (iunlock ip s) (\<lambda>_ s.
         case cpo of
           None \<Rightarrow> Undef ''no current process''
         | Some p \<Rightarrow>
             (case p_cwd (procs s ! p) of
                None \<Rightarrow> Undef ''iput: null inode''
              | Some cwd \<Rightarrow>
                  andthen (iput cwd s) (\<lambda>_ s.
                  andthen (end_op s) (\<lambda>_ s.
                  Ret 0 (upd_proc p (\<lambda>pr. pr\<lparr>p_cwd := Some ip\<rparr>) s))))))))))"

section \<open>exec and pipe\<close>

text \<open>The loop of \<^verbatim>\<open>sys_exec\<close>, with room for \<open>k\<close> more arguments, the next of them at \<open>u\<close>.\<close>

primrec exec_argv :: "nat \<Rightarrow> u32 \<Rightarrow> 'x proc_state_scheme \<Rightarrow> ('x proc_state_scheme, u8 list list option) outcome" where
  "exec_argv 0 u s = Ret None s"
| "exec_argv (Suc k) u s =
     andthen (fetchint u s) (\<lambda>ao s.
       case ao of
         None \<Rightarrow> Ret None s
       | Some uarg \<Rightarrow>
           if uarg = 0 then Ret (Some []) s
           else andthen (fetchstr uarg s) (\<lambda>so s.
             case so of
               None \<Rightarrow> Ret None s
             | Some a \<Rightarrow> andthen (exec_argv k (u + 4) s) (\<lambda>r s. Ret (map_option (\<lambda>as. a # as) r) s)))"

definition sys_exec :: "'x cons_state_scheme \<Rightarrow> ('x cons_state_scheme, int) outcome" where
  "sys_exec s =
     andthen (argstr 0 s) (\<lambda>po s. case po of None \<Rightarrow> Ret (- 1) s | Some path \<Rightarrow>
     andthen (argint 1 s) (\<lambda>uo s. case uo of None \<Rightarrow> Ret (- 1) s | Some uargv \<Rightarrow>
     andthen (exec_argv MAXARG uargv s) (\<lambda>ao s. case ao of None \<Rightarrow> Ret (- 1) s | Some argv \<Rightarrow>
     exec path argv s)))"

definition sys_pipe :: "'x file_state_scheme \<Rightarrow> ('x file_state_scheme, int) outcome" where
  "sys_pipe s =
     andthen (argptr 0 8 s) (\<lambda>po s. case po of None \<Rightarrow> Ret (- 1) s | Some fd \<Rightarrow>
     andthen (pipealloc s) (\<lambda>fo s. case fo of None \<Rightarrow> Ret (- 1) s | Some (rf, wf1) \<Rightarrow>
     andthen (fdalloc rf s) (\<lambda>o0 s.
       case o0 of
         None \<Rightarrow>
           andthen (fileclose rf s) (\<lambda>_ s.
           andthen (fileclose wf1 s) (\<lambda>_ s. Ret (- 1) s))
       | Some fd0 \<Rightarrow>
           andthen (fdalloc wf1 s) (\<lambda>o1 s.
             case o1 of
               None \<Rightarrow>
                 andthen (set_ofile fd0 None s) (\<lambda>_ s.
                 andthen (fileclose rf s) (\<lambda>_ s.
                 andthen (fileclose wf1 s) (\<lambda>_ s. Ret (- 1) s)))
             | Some fd1 \<Rightarrow>
                 andthen (user_stores fd (word_bytes (of_nat fd0)) s) (\<lambda>_ s.
                 andthen (user_stores (fd + 4) (word_bytes (of_nat fd1)) s) (\<lambda>_ s. Ret 0 s))))))"

end
