(* ===== verification/Kbd.thy ===== *)
theory Kbd
  imports Process
begin

text \<open>
  The keyboard driver \<^verbatim>\<open>kbd.c\<close> with the tables of \<^verbatim>\<open>kbd.h\<close>, and the receiving side of the serial
  port, \<^verbatim>\<open>uart.c\<close>. The scan codes waiting in the keyboard controller and the bytes waiting in the
  serial port are lists; the status bit that the code tests says whether the list is empty. The
  tables are given by their entries in order and by the entries that have an index of their own; the
  others are 0.
\<close>

record kbd_state = process_state +
  kbd_data :: "u8 list"
  kbd_shift :: u32
  uart_in :: "u8 list"

definition SHIFT :: u32 where "SHIFT = 1"
definition CTL :: u32 where "CTL = 2"
definition ALT :: u32 where "ALT = 4"
definition CAPSLOCK :: u32 where "CAPSLOCK = 8"
definition NUMLOCK :: u32 where "NUMLOCK = 16"
definition SCROLLLOCK :: u32 where "SCROLLLOCK = 32"
definition E0ESC :: u32 where "E0ESC = 64"

definition entry :: "(nat \<times> 'a :: zero) list \<Rightarrow> nat \<Rightarrow> 'a" where
  "entry t i = (case map_of t i of None \<Rightarrow> 0 | Some v \<Rightarrow> v)"

definition shiftcode :: "nat \<Rightarrow> u32" where
  "shiftcode = entry [(0x1D, CTL), (0x2A, SHIFT), (0x36, SHIFT), (0x38, ALT), (0x9D, CTL), (0xB8, ALT)]"

definition togglecode :: "nat \<Rightarrow> u32" where
  "togglecode = entry [(0x3A, CAPSLOCK), (0x45, NUMLOCK), (0x46, SCROLLLOCK)]"

definition key_table :: "u8 list \<Rightarrow> (nat \<times> u8) list \<Rightarrow> nat \<Rightarrow> u8" where
  "key_table xs t i = (if i < length xs then xs ! i else entry t i)"

definition normalmap :: "nat \<Rightarrow> u8" where
  "normalmap = key_table
    [0, 27, 49, 50, 51, 52, 53, 54, 55, 56, 57, 48, 45, 61, 8, 9,
     113, 119, 101, 114, 116, 121, 117, 105, 111, 112, 91, 93, 10, 0, 97, 115,
     100, 102, 103, 104, 106, 107, 108, 59, 39, 96, 0, 92, 122, 120, 99, 118,
     98, 110, 109, 44, 46, 47, 0, 42, 0, 32, 0, 0, 0, 0, 0, 0,
     0, 0, 0, 0, 0, 0, 0, 55, 56, 57, 45, 52, 53, 54, 43, 49,
     50, 51, 48, 46, 0, 0, 0, 0]
    [(0x9C, 10), (0xB5, 47), (0xC8, 226), (0xD0, 227), (0xC9, 230), (0xD1, 231), (0xCB, 228), (0xCD, 229), (0x97, 224), (0xCF, 225), (0xD2, 232), (0xD3, 233)]"

definition shiftmap :: "nat \<Rightarrow> u8" where
  "shiftmap = key_table
    [0, 27, 33, 64, 35, 36, 37, 94, 38, 42, 40, 41, 95, 43, 8, 9,
     81, 87, 69, 82, 84, 89, 85, 73, 79, 80, 123, 125, 10, 0, 65, 83,
     68, 70, 71, 72, 74, 75, 76, 58, 34, 126, 0, 124, 90, 88, 67, 86,
     66, 78, 77, 60, 62, 63, 0, 42, 0, 32, 0, 0, 0, 0, 0, 0,
     0, 0, 0, 0, 0, 0, 0, 55, 56, 57, 45, 52, 53, 54, 43, 49,
     50, 51, 48, 46, 0, 0, 0, 0]
    [(0x9C, 10), (0xB5, 47), (0xC8, 226), (0xD0, 227), (0xC9, 230), (0xD1, 231), (0xCB, 228), (0xCD, 229), (0x97, 224), (0xCF, 225), (0xD2, 232), (0xD3, 233)]"

definition ctlmap :: "nat \<Rightarrow> u8" where
  "ctlmap = key_table
    [0, 0, 0, 0, 0, 0, 0, 0, 0, 0, 0, 0, 0, 0, 0, 0,
     17, 23, 5, 18, 20, 25, 21, 9, 15, 16, 0, 0, 13, 0, 1, 19,
     4, 6, 7, 8, 10, 11, 12, 0, 0, 0, 0, 28, 26, 24, 3, 22,
     2, 14, 13, 0, 0, 239, 0, 0]
    [(0x9C, 13), (0xB5, 239), (0xC8, 226), (0xD0, 227), (0xC9, 230), (0xD1, 231), (0xCB, 228), (0xCD, 229), (0x97, 224), (0xCF, 225), (0xD2, 232), (0xD3, 233)]"

section \<open>Interrupt handlers\<close>

definition charcode :: "u32 \<Rightarrow> nat \<Rightarrow> u8" where
  "charcode sh = (if sh = 0 then normalmap else if sh = SHIFT then shiftmap else ctlmap)"

definition swap_case :: "u8 \<Rightarrow> u8" where
  "swap_case c = (if 97 \<le> c \<and> c \<le> 122 then c - 32 else if 65 \<le> c \<and> c \<le> 90 then c + 32 else c)"

definition kbdgetc :: "'x kbd_state_scheme \<Rightarrow> int \<times> 'x kbd_state_scheme" where
  "kbdgetc s =
     (case kbd_data s of
        [] \<Rightarrow> (- 1, s)
      | data # rest \<Rightarrow>
          let s = s\<lparr>kbd_data := rest\<rparr>;
              data = ucast data :: u32 in
          if data = 0xE0 then (0, s\<lparr>kbd_shift := kbd_shift s OR E0ESC\<rparr>)
          else if data AND 0x80 \<noteq> 0 then
            let data = (if kbd_shift s AND E0ESC \<noteq> 0 then data else data AND 0x7F) in
            (0, s\<lparr>kbd_shift := kbd_shift s AND NOT (shiftcode (unat data) OR E0ESC)\<rparr>)
          else
            let (data, s) =
                  (if kbd_shift s AND E0ESC \<noteq> 0
                   then (data OR 0x80, s\<lparr>kbd_shift := kbd_shift s AND NOT E0ESC\<rparr>)
                   else (data, s));
                s = s\<lparr>kbd_shift := kbd_shift s OR shiftcode (unat data)\<rparr>;
                s = s\<lparr>kbd_shift := kbd_shift s XOR togglecode (unat data)\<rparr>;
                c = charcode (kbd_shift s AND (CTL OR SHIFT)) (unat data);
                c = (if kbd_shift s AND CAPSLOCK \<noteq> 0 then swap_case c else c) in
            (uint c, s))"

text \<open>Every call of \<^verbatim>\<open>kbdgetc\<close> and \<^verbatim>\<open>uartgetc\<close> that does not end the loop of \<^verbatim>\<open>consoleintr\<close> takes one
  byte from the device.\<close>

definition kbdintr :: "'x kbd_state_scheme \<Rightarrow> ('x kbd_state_scheme, unit) outcome" where
  "kbdintr s = consoleintr (Suc (length (kbd_data s))) kbdgetc s"

definition uartgetc :: "'x kbd_state_scheme \<Rightarrow> int \<times> 'x kbd_state_scheme" where
  "uartgetc s =
     (if \<not> uart s then (- 1, s)
      else case uart_in s of [] \<Rightarrow> (- 1, s) | c # cs \<Rightarrow> (uint c, s\<lparr>uart_in := cs\<rparr>))"

definition uartintr :: "'x kbd_state_scheme \<Rightarrow> ('x kbd_state_scheme, unit) outcome" where
  "uartintr s = consoleintr (Suc (length (uart_in s))) uartgetc s"

end
