(* ===== verification/Syscall.thy ===== *)
theory Syscall
  imports Sysfile Kbd
begin

text \<open>
  The system calls of \<^verbatim>\<open>sysproc.c\<close>, the dispatch of \<^verbatim>\<open>syscall.c\<close> and the trap handler of \<^verbatim>\<open>trap.c\<close>. A call
  that gives the processor to another thread ends with \<open>Pause\<close>. The end-of-interrupt command to
  the interrupt controller is left out, and the disk interrupt is that of the driver \<^verbatim>\<open>memide.c\<close>, which
  does nothing.
\<close>

section \<open>Calls on processes and threads\<close>

definition switched :: "switch \<Rightarrow> 'x proc_state_scheme \<Rightarrow> ('x proc_state_scheme, unit) outcome" where
  "switched sw s = (case sw of Stay \<Rightarrow> yield_resume sw s | _ \<Rightarrow> Pause Switching s)"

definition sys_yield :: "'x proc_state_scheme \<Rightarrow> ('x proc_state_scheme, int) outcome" where
  "sys_yield s = andthen (yield s) (\<lambda>sw s. andthen (switched sw s) (\<lambda>_ s. Ret 0 s))"

definition sys_getlev :: "'x proc_state_scheme \<Rightarrow> ('x proc_state_scheme, int) outcome" where
  "sys_getlev s =
     andthen (on_mach myproc s) (\<lambda>po s.
       case po of
         None \<Rightarrow> Undef ''no current process''
       | Some p \<Rightarrow> Ret (if p_stype (procs s ! p) = MLFQ then int (p_qlev (procs s ! p)) else - 1) s)"

definition sys_set_cpu_share :: "'x proc_state_scheme \<Rightarrow> ('x proc_state_scheme, int) outcome" where
  "sys_set_cpu_share s =
     andthen (argint 0 s) (\<lambda>no s. case no of None \<Rightarrow> Ret (- 1) s | Some n \<Rightarrow> set_cpu_share (sint n) s)"

definition sys_thread_create :: "'x proc_state_scheme \<Rightarrow> ('x proc_state_scheme, int) outcome" where
  "sys_thread_create s =
     andthen (argint 0 s) (\<lambda>a0 s. case a0 of None \<Rightarrow> Ret (- 1) s | Some thread \<Rightarrow>
     andthen (argint 1 s) (\<lambda>a1 s. case a1 of None \<Rightarrow> Ret (- 1) s | Some start \<Rightarrow>
     andthen (argint 2 s) (\<lambda>a2 s. case a2 of None \<Rightarrow> Ret (- 1) s | Some arg \<Rightarrow>
     thread_create thread start arg s)))"

definition leave_thread :: "u32 \<Rightarrow> 'x file_state_scheme \<Rightarrow> ('x file_state_scheme, 'a) outcome" where
  "leave_thread retval s = andthen (thread_exit retval s) (\<lambda>_ s. Pause Switching s)"

definition sys_thread_exit :: "'x file_state_scheme \<Rightarrow> ('x file_state_scheme, int) outcome" where
  "sys_thread_exit s =
     andthen (argint 0 s) (\<lambda>no s. case no of None \<Rightarrow> Ret (- 1) s | Some n \<Rightarrow> leave_thread n s)"

definition sys_thread_join :: "'x proc_state_scheme \<Rightarrow> ('x proc_state_scheme, int) outcome" where
  "sys_thread_join s =
     andthen (argint 0 s) (\<lambda>a0 s. case a0 of None \<Rightarrow> Ret (- 1) s | Some thread \<Rightarrow>
     andthen (argint 1 s) (\<lambda>a1 s. case a1 of None \<Rightarrow> Ret (- 1) s | Some retval \<Rightarrow>
     thread_join (sint thread) retval s))"

definition sys_fork :: "'x file_state_scheme \<Rightarrow> ('x file_state_scheme, int) outcome" where
  "sys_fork s = fork s"

definition sys_exit :: "'x file_state_scheme \<Rightarrow> ('x file_state_scheme, int) outcome" where
  "sys_exit s = andthen (exit s) (\<lambda>r s. case r of Some sw \<Rightarrow> Pause Switching s | None \<Rightarrow> Ret 0 s)"

definition sys_wait :: "'x proc_state_scheme \<Rightarrow> ('x proc_state_scheme, int) outcome" where
  "sys_wait s = wait s"

definition sys_kill :: "'x proc_state_scheme \<Rightarrow> ('x proc_state_scheme, int) outcome" where
  "sys_kill s = andthen (argint 0 s) (\<lambda>po s. case po of None \<Rightarrow> Ret (- 1) s | Some pid \<Rightarrow> kill (sint pid) s)"

definition sys_getpid :: "'x proc_state_scheme \<Rightarrow> ('x proc_state_scheme, int) outcome" where
  "sys_getpid s = curpid s"

definition sys_sbrk :: "'x proc_state_scheme \<Rightarrow> ('x proc_state_scheme, int) outcome" where
  "sys_sbrk s =
     andthen (argint 0 s) (\<lambda>no s. case no of None \<Rightarrow> Ret (- 1) s | Some n \<Rightarrow>
     andthen (cur_sz s) (\<lambda>addr s.
     andthen (growproc (sint n) s) (\<lambda>r s. if r < 0 then Ret (- 1) s else Ret (sint addr) s)))"

definition sys_sleep_loop :: "u32 \<Rightarrow> int \<Rightarrow> 'x proc_state_scheme \<Rightarrow> ('x proc_state_scheme, int) outcome" where
  "sys_sleep_loop ticks0 n s =
     (if ticks s - ticks0 < of_int n then
        andthen (proc_dying s) (\<lambda>d s.
          if d then andthen (krelease TicksLock s) (\<lambda>_ s. Ret (- 1) s)
          else go_to_sleep TicksChan TicksLock s)
      else andthen (krelease TicksLock s) (\<lambda>_ s. Ret 0 s))"

definition sys_sleep :: "'x proc_state_scheme \<Rightarrow> ('x proc_state_scheme, int) outcome" where
  "sys_sleep s =
     andthen (argint 0 s) (\<lambda>no s. case no of None \<Rightarrow> Ret (- 1) s | Some n \<Rightarrow>
     andthen (kacquire TicksLock s) (\<lambda>_ s. sys_sleep_loop (ticks s) (sint n) s))"

definition sys_sleep_resume ::
  "u32 \<Rightarrow> int \<Rightarrow> nat \<Rightarrow> switch \<Rightarrow> 'x proc_state_scheme \<Rightarrow> ('x proc_state_scheme, int) outcome" where
  "sys_sleep_resume ticks0 n t sw s =
     andthen (sleep_resume t TicksLock sw s) (\<lambda>_ s. sys_sleep_loop ticks0 n s)"

definition sys_uptime :: "'x proc_state_scheme \<Rightarrow> ('x proc_state_scheme, int) outcome" where
  "sys_uptime s =
     andthen (kacquire TicksLock s) (\<lambda>_ s.
       let xticks = ticks s in
       andthen (krelease TicksLock s) (\<lambda>_ s. Ret (sint xticks) s))"

section \<open>Dispatch\<close>

definition syscalls :: "int \<Rightarrow> ('x file_state_scheme \<Rightarrow> ('x file_state_scheme, int) outcome) option" where
  "syscalls num =
     map_of [(1, sys_fork), (2, sys_exit), (3, sys_wait), (4, sys_pipe), (5, sys_read), (6, sys_kill), (7, sys_exec),
       (8, sys_fstat), (9, sys_chdir), (10, sys_dup), (11, sys_getpid), (12, sys_sbrk), (13, sys_sleep), (14, sys_uptime),
       (15, sys_open), (16, sys_write), (17, sys_mknod), (18, sys_unlink), (19, sys_link), (20, sys_mkdir), (21, sys_close),
       (22, sys_yield), (23, sys_getlev), (24, sys_set_cpu_share), (25, sys_thread_create), (26, sys_thread_exit),
       (27, sys_thread_join)] num"

definition set_eax :: "nat \<Rightarrow> int \<Rightarrow> 'x proc_state_scheme \<Rightarrow> 'x proc_state_scheme" where
  "set_eax t r s = upd_thread t (\<lambda>th. th\<lparr>t_tf := (t_tf th)\<lparr>tf_eax := of_int r\<rparr>\<rparr>) s"

definition syscall :: "'x file_state_scheme \<Rightarrow> ('x file_state_scheme, unit) outcome" where
  "syscall s =
     andthen (on_mach mythd s) (\<lambda>to s.
       case to of
         None \<Rightarrow> Undef ''no current thread''
       | Some t \<Rightarrow>
           let num = sint (tf_eax (t_tf (threads s ! t))) in
           (case syscalls num of
              Some f \<Rightarrow> andthen (f s) (\<lambda>r s. Ret () (set_eax t r s))
            | None \<Rightarrow>
                andthen (on_mach myproc s) (\<lambda>po s.
                  case po of
                    None \<Rightarrow> Undef ''no current process''
                  | Some p \<Rightarrow>
                      andthen (cprintf (str8 ''%d %s: unknown sys call %d'' @ [10])
                          [Num (of_int (p_pid (procs s ! p))), Str (Some (c_string 16 (p_name (procs s ! p)))), Num (of_int num)] s) (\<lambda>_ s.
                      Ret () (set_eax t (- 1) s)))))"

section \<open>Traps\<close>

definition T_SYSCALL :: u32 where "T_SYSCALL = 64"
definition T_IRQ0 :: u32 where "T_IRQ0 = 32"
definition IRQ_TIMER :: u32 where "IRQ_TIMER = 0"
definition IRQ_KBD :: u32 where "IRQ_KBD = 1"
definition IRQ_COM1 :: u32 where "IRQ_COM1 = 4"
definition IRQ_IDE :: u32 where "IRQ_IDE = 14"
definition IRQ_SPURIOUS :: u32 where "IRQ_SPURIOUS = 31"

record gatedesc =
  g_off_15_0 :: u16
  g_cs :: u16
  g_args :: "5 word"
  g_rsv1 :: "3 word"
  g_type :: "4 word"
  g_s :: "1 word"
  g_dpl :: "2 word"
  g_p :: "1 word"
  g_off_31_16 :: u16

definition SEG_KCODE :: nat where "SEG_KCODE = 1"
definition STS_IG32 :: "4 word" where "STS_IG32 = 0xE"
definition STS_TG32 :: "4 word" where "STS_TG32 = 0xF"

definition SETGATE :: "bool \<Rightarrow> u16 \<Rightarrow> u32 \<Rightarrow> 2 word \<Rightarrow> gatedesc" where
  "SETGATE istrap sel off d =
     \<lparr>g_off_15_0 = ucast (off AND 0xFFFF), g_cs = sel, g_args = 0, g_rsv1 = 0,
      g_type = (if istrap then STS_TG32 else STS_IG32), g_s = 0, g_dpl = d, g_p = 1,
      g_off_31_16 = ucast (drop_bit 16 off)\<rparr>"

record trap_state = kbd_state +
  idt :: "gatedesc list"

text \<open>The table \<^verbatim>\<open>vectors\<close> is generated by a script and linked in.\<close>

definition tvinit :: "(nat \<Rightarrow> u32) \<Rightarrow> 'x trap_state_scheme \<Rightarrow> 'x trap_state_scheme" where
  "tvinit vectors s =
     (let s = s\<lparr>idt := map (\<lambda>i. SETGATE False (of_nat (8 * SEG_KCODE)) (vectors i) 0) [0..<256]\<rparr>;
          s = s\<lparr>idt := (idt s)[unat T_SYSCALL := SETGATE True (of_nat (8 * SEG_KCODE)) (vectors (unat T_SYSCALL)) (of_nat DPL_USER)]\<rparr> in
      s\<lparr>mach := initlock TicksLock (mach s)\<rparr>)"

definition timer_tick :: "'x proc_state_scheme \<Rightarrow> ('x proc_state_scheme, unit) outcome" where
  "timer_tick s =
     andthen (on_mach cpuid s) (\<lambda>c s.
       if c = 0 then
         andthen (kacquire TicksLock s) (\<lambda>_ s.
           let s = s\<lparr>ticks := ticks s + 1\<rparr> in
           andthen (wakeup TicksChan s) (\<lambda>_ s. krelease TicksLock s))
       else Ret () s)"

text \<open>The default case: \<open>cr2\<close> is the address whose access faulted.\<close>

definition unexpected_trap :: "u32 \<Rightarrow> trapframe \<Rightarrow> 'x cons_state_scheme \<Rightarrow> ('x cons_state_scheme, unit) outcome" where
  "unexpected_trap cr2 tf s =
     andthen (on_mach myproc s) (\<lambda>po s.
       case po of
         None \<Rightarrow>
           andthen (on_mach cpuid s) (\<lambda>c s.
           andthen (cprintf (str8 ''unexpected trap %d from cpu %d eip %x (cr2=0x%x)'' @ [10])
               [Num (tf_trapno tf), Num (of_nat c), Num (tf_eip tf), Num cr2] s) (\<lambda>_ s. Panic ''trap''))
       | Some p \<Rightarrow>
           if tf_cs tf AND 3 = 0 then
             andthen (on_mach cpuid s) (\<lambda>c s.
             andthen (cprintf (str8 ''unexpected trap %d from cpu %d eip %x (cr2=0x%x)'' @ [10])
                 [Num (tf_trapno tf), Num (of_nat c), Num (tf_eip tf), Num cr2] s) (\<lambda>_ s. Panic ''trap''))
           else
             andthen (on_mach cpuid s) (\<lambda>c s.
             andthen (cprintf (str8 ''pid %d %s: trap %d err %d on cpu %d eip 0x%x addr 0x%x--kill proc'' @ [10])
                 [Num (of_int (p_pid (procs s ! p))), Str (Some (c_string 16 (p_name (procs s ! p)))), Num (tf_trapno tf),
                  Num (tf_err tf), Num (of_nat c), Num (tf_eip tf), Num cr2] s) (\<lambda>_ s.
             Ret () (upd_proc p (\<lambda>pr. pr\<lparr>p_killed := True\<rparr>) s))))"

definition trap_cause :: "u32 \<Rightarrow> trapframe \<Rightarrow> 'x kbd_state_scheme \<Rightarrow> ('x kbd_state_scheme, unit) outcome" where
  "trap_cause cr2 tf s =
     (let no = tf_trapno tf in
      if no = T_IRQ0 + IRQ_TIMER then timer_tick s
      else if no = T_IRQ0 + IRQ_IDE then Ret () s
      else if no = T_IRQ0 + IRQ_IDE + 1 then Ret () s
      else if no = T_IRQ0 + IRQ_KBD then kbdintr s
      else if no = T_IRQ0 + IRQ_COM1 then uartintr s
      else if no = T_IRQ0 + 7 \<or> no = T_IRQ0 + IRQ_SPURIOUS then
        andthen (on_mach cpuid s) (\<lambda>c s.
        cprintf (str8 ''cpu%d: spurious interrupt at %x:%x'' @ [10]) [Num (of_nat c), Num (ucast (tf_cs tf)), Num (tf_eip tf)] s)
      else unexpected_trap cr2 tf s)"

text \<open>\<^verbatim>\<open>myproc() && (myproc()->killed || myproc()->exited) && (tf->cs&3) == DPL_USER\<close>\<close>

definition must_exit :: "trapframe \<Rightarrow> 'x proc_state_scheme \<Rightarrow> ('x proc_state_scheme, bool) outcome" where
  "must_exit tf s =
     andthen (on_mach myproc s) (\<lambda>po s.
       case po of
         None \<Rightarrow> Ret False s
       | Some p \<Rightarrow> Ret ((p_killed (procs s ! p) \<or> p_exited (procs s ! p)) \<and> tf_cs tf AND 3 = of_nat DPL_USER) s)"

definition trap_end :: "trapframe \<Rightarrow> 'x file_state_scheme \<Rightarrow> ('x file_state_scheme, unit) outcome" where
  "trap_end tf s = andthen (must_exit tf s) (\<lambda>d s. if d then leave_thread 0 s else Ret () s)"

definition trap_yield :: "trapframe \<Rightarrow> 'x proc_state_scheme \<Rightarrow> ('x proc_state_scheme, unit) outcome" where
  "trap_yield tf s =
     andthen (on_mach myproc s) (\<lambda>po s.
       case po of
         None \<Rightarrow> Ret () s
       | Some p \<Rightarrow>
           andthen (on_mach mythd s) (\<lambda>to s.
             case to of
               None \<Rightarrow> Undef ''no current thread''
             | Some t \<Rightarrow>
                 if t_state (threads s ! t) = RUNNING \<and> tf_trapno tf = T_IRQ0 + IRQ_TIMER
                 then andthen (yield s) (\<lambda>sw s. switched sw s)
                 else Ret () s))"

definition trap_syscall :: "trapframe \<Rightarrow> 'x file_state_scheme \<Rightarrow> ('x file_state_scheme, unit) outcome" where
  "trap_syscall tf s =
     andthen (proc_dying s) (\<lambda>d s.
       if d then leave_thread 0 s
       else andthen (on_mach mythd s) (\<lambda>to s.
         case to of
           None \<Rightarrow> Undef ''no current thread''
         | Some t \<Rightarrow>
             let s = upd_thread t (\<lambda>th. th\<lparr>t_tf := tf\<rparr>) s in
             andthen (syscall s) (\<lambda>_ s.
             andthen (proc_dying s) (\<lambda>d s. if d then leave_thread 0 s else Ret () s))))"

definition trap :: "u32 \<Rightarrow> trapframe \<Rightarrow> 'x kbd_state_scheme \<Rightarrow> ('x kbd_state_scheme, unit) outcome" where
  "trap cr2 tf s =
     (if tf_trapno tf = T_SYSCALL then trap_syscall tf s
      else
        andthen (trap_cause cr2 tf s) (\<lambda>_ s.
        andthen (must_exit tf s) (\<lambda>d s.
          if d then leave_thread 0 s
          else andthen (trap_yield tf s) (\<lambda>_ s. trap_end tf s))))"

end
