(* ===== verification/Cache.thy ===== *)
theory Cache
  imports Bio
begin

text \<open>
  Correctness of the block cache as one thread uses it. \<open>calm p s\<close> says that process \<open>p\<close> runs,
  that no spin lock is held and that no thread waits for a buffer, an inode or the log; \<open>core_ok pid H c\<close> is the
  invariant of the cache while the thread holds the buffers \<open>H\<close>. The logical content of the disk,
  \<open>view\<close>, is what the cache holds of a block, or else what the disk holds.
\<close>

section \<open>A thread that meets no contention\<close>

primrec fs_chan :: "chan \<Rightarrow> bool" where
  "fs_chan (ProcChan p) = False"
| "fs_chan LogChan = True"
| "fs_chan TicksChan = False"
| "fs_chan (PipeReadChan a) = False"
| "fs_chan (PipeWriteChan a) = False"
| "fs_chan (BufChan i) = True"
| "fs_chan (BufLockChan i) = True"
| "fs_chan (InodeLockChan i) = True"
| "fs_chan InputChan = False"

definition calm :: "nat \<Rightarrow> 'x proc_state_scheme \<Rightarrow> bool" where
  "calm p s \<longleftrightarrow> (\<forall>lk. lockable lk (mach s)) \<and> settle (mach s) = mach s \<and> curproc (mach s) = Some p
     \<and> (\<forall>t \<in> set (threads s). t_state t = SLEEPING \<longrightarrow> (\<forall>ch. t_chan t = Some ch \<longrightarrow> \<not> fs_chan ch))"

lemma calmD:
  assumes "calm p s"
  shows "lockable lk (mach s)" "settle (mach s) = mach s" "curproc (mach s) = Some p" "cpu_ok (mach s)"
  using assms lockable_cpu_ok [of PtableLock "mach s"] by (auto simp: calm_def)

lemma calm_acquire: "calm p s \<Longrightarrow> kacquire lk s = Ret () (s\<lparr>mach := taken lk (mach s)\<rparr>)"
  by (simp add: calmD(1))

lemma calm_release:
  "calm p s \<Longrightarrow> mach u = taken lk (mach s) \<Longrightarrow> krelease lk u = Ret () (u\<lparr>mach := mach s\<rparr>)"
  using krelease_taken [of u lk "mach s"] by (simp add: calmD)

lemma settle_taken: "cpu_ok m \<Longrightarrow> settle (taken lk m) = taken lk m"
proof -
  assume a: "cpu_ok m"
  have "ncli (this_cpu (taken lk m)) = ncli (this_cpu m) + 1" using a by simp
  then have "0 < ncli (this_cpu (taken lk m))" using a by (simp add: cpu_ok_def)
  then show ?thesis by (rule settle_nested)
qed

lemma each_skip: "(\<And>i s. i \<in> set xs \<Longrightarrow> f i s0 = Ret () s0) \<Longrightarrow> each f xs s0 = Ret () s0"
  by (induction xs) auto

lemma wakeup1_none:
  assumes "\<And>t. t \<in> set (threads s) \<Longrightarrow> \<not> sleeping_on ch t"
  shows "wakeup1 ch s = Ret () s"
  unfolding wakeup1_def
  by (rule each_skip) (use assms nth_mem in \<open>fastforce simp: wake_if_def sleeping_on_def\<close>)

lemma wakeup_none:
  assumes "lockable PtableLock m" "mach s = m" "settle m = m" "\<And>t. t \<in> set (threads s) \<Longrightarrow> \<not> sleeping_on ch t"
  shows "wakeup ch s = Ret () s"
proof -
  have w: "wakeup1 ch (s\<lparr>mach := taken PtableLock m\<rparr>) = Ret () (s\<lparr>mach := taken PtableLock m\<rparr>)"
    by (rule wakeup1_none) (use assms(4) in simp)
  have "(s\<lparr>mach := taken PtableLock m\<rparr>)\<lparr>mach := settle m\<rparr> = s" using assms(2,3) by (cases s) simp
  then show ?thesis using assms(1,2) w by (simp add: wakeup_def)
qed

lemma calm_no_sleepers: "calm p s \<Longrightarrow> fs_chan ch \<Longrightarrow> t \<in> set (threads s) \<Longrightarrow> \<not> sleeping_on ch t"
  by (auto simp: calm_def sleeping_on_def)

lemma fs_chan_of [simp]: "fs_chan (chan_of lk)"
  by (cases lk) simp_all

lemma spin_of_PtableLock [simp]: "spin_of lk \<noteq> PtableLock" "PtableLock \<noteq> spin_of lk"
  by (cases lk; simp)+

section \<open>Sleep locks without contention\<close>

abbreviation pid_of :: "nat \<Rightarrow> 'x proc_state_scheme \<Rightarrow> int" where
  "pid_of p s \<equiv> p_pid (procs s ! p)"

lemma mach_idle [simp]: "s\<lparr>mach := mach s\<rparr> = s"
  by (cases s) simp

lemma curpid_eq: "mach s = m \<Longrightarrow> cpu_ok m \<Longrightarrow> settle m = m \<Longrightarrow> curproc m = Some p \<Longrightarrow> curpid s = Ret (pid_of p s) s"
  by (auto simp: curpid_def on_mach_def myproc_eq)

lemma calm_taken:
  assumes "calm p s" "mach u = taken lk (mach s)"
  shows "cpu_ok (mach u)" "settle (mach u) = mach u" "curproc (mach u) = Some p" "lk \<noteq> lk' \<Longrightarrow> lockable lk' (mach u)"
  using calmD [OF assms(1)] assms(2) by (simp_all add: settle_taken)

lemma curpid_taken: "calm p s \<Longrightarrow> mach u = taken lk (mach s) \<Longrightarrow> curpid u = Ret (pid_of p u) u"
  using calm_taken [of p s u lk] by (intro curpid_eq) simp_all

lemma set_sleeplock_taken:
  "(s\<lparr>mach := m, sleeplocks := f\<rparr>)\<lparr>mach := mach s\<rparr> = s\<lparr>sleeplocks := f\<rparr>"
  by (cases s) simp

lemma sleeplock_all: "l\<lparr>sl_locked := b, sl_pid := c\<rparr> = \<lparr>sl_locked = b, sl_pid = c\<rparr>"
  by (cases l) simp

lemma holdingsleep_calm:
  assumes "calm p s"
  shows "holdingsleep lk s = Ret (sl_locked (sleeplocks s lk) \<and> sl_pid (sleeplocks s lk) = pid_of p s) s"
proof -
  let ?u = "s\<lparr>mach := taken (spin_of lk) (mach s)\<rparr>"
  have "curpid ?u = Ret (pid_of p s) ?u" using curpid_taken [OF assms, of ?u] by simp
  moreover have "krelease (spin_of lk) ?u = Ret () s" using calm_release [OF assms, of ?u] by simp
  ultimately show ?thesis using calm_acquire [OF assms] by (simp add: holdingsleep_def)
qed

lemma acquiresleep_calm:
  assumes "calm p s" "\<not> sl_locked (sleeplocks s lk)"
  shows "acquiresleep lk s = Ret () (s\<lparr>sleeplocks := (sleeplocks s)(lk := \<lparr>sl_locked = True, sl_pid = pid_of p s\<rparr>)\<rparr>)"
proof -
  let ?u = "\<lambda>f. s\<lparr>mach := taken (spin_of lk) (mach s), sleeplocks := f\<rparr>"
  have "curpid (?u f) = Ret (pid_of p s) (?u f)" for f using curpid_taken [OF assms(1), of "?u f"] by simp
  moreover have "krelease (spin_of lk) (?u f) = Ret () (s\<lparr>sleeplocks := f\<rparr>)" for f
    using calm_release [OF assms(1), of "?u f"] by (simp add: set_sleeplock_taken)
  ultimately show ?thesis using calm_acquire [OF assms(1)] assms(2)
    by (simp add: acquiresleep_def acquiresleep_loop_def Let_def sleeplock_all)
qed

lemma releasesleep_calm:
  assumes "calm p s"
  shows "releasesleep lk s = Ret () (s\<lparr>sleeplocks := (sleeplocks s)(lk := \<lparr>sl_locked = False, sl_pid = 0\<rparr>)\<rparr>)"
proof -
  let ?u = "\<lambda>f. s\<lparr>mach := taken (spin_of lk) (mach s), sleeplocks := f\<rparr>"
  have "wakeup (chan_of lk) (?u f) = Ret () (?u f)" for f
    by (rule wakeup_none) (use calm_taken [OF assms, of "?u f"] calm_no_sleepers [OF assms, of "chan_of lk"] in auto)
  moreover have "krelease (spin_of lk) (?u f) = Ret () (s\<lparr>sleeplocks := f\<rparr>)" for f
    using calm_release [OF assms, of "?u f"] by (simp add: set_sleeplock_taken)
  ultimately show ?thesis using calm_acquire [OF assms] by (simp add: releasesleep_def Let_def)
qed

section \<open>The invariant of the cache\<close>

text \<open>The part of the state that the cache and the driver change.\<close>

record bcore =
  k_sleeplocks :: "sleepid \<Rightarrow> sleeplock"
  k_bufs :: "buf list"
  k_lru :: "nat list"
  k_disk :: "nat \<Rightarrow> block"
  k_hist :: "(nat \<Rightarrow> block) list"

definition core :: "'x bio_state_scheme \<Rightarrow> bcore" where
  "core s = \<lparr>k_sleeplocks = sleeplocks s, k_bufs = bufs s, k_lru = lru s, k_disk = memdisk s, k_hist = disk_hist s\<rparr>"

definition with_core :: "bcore \<Rightarrow> 'x bio_state_scheme \<Rightarrow> 'x bio_state_scheme" where
  "with_core c s = s\<lparr>sleeplocks := k_sleeplocks c, bufs := k_bufs c, lru := k_lru c, memdisk := k_disk c, disk_hist := k_hist c\<rparr>"

lemma with_core_sel [simp]:
  "sleeplocks (with_core c s) = k_sleeplocks c" "bufs (with_core c s) = k_bufs c" "lru (with_core c s) = k_lru c"
  "memdisk (with_core c s) = k_disk c" "disk_hist (with_core c s) = k_hist c" "disksize (with_core c s) = disksize s"
  "mach (with_core c s) = mach s" "mem (with_core c s) = mem s" "procs (with_core c s) = procs s"
  "threads (with_core c s) = threads s" "core (with_core c s) = c"
  by (simp_all add: with_core_def core_def)

lemma core_sel [simp]:
  "k_sleeplocks (core s) = sleeplocks s" "k_bufs (core s) = bufs s" "k_lru (core s) = lru s" "k_disk (core s) = memdisk s"
  "k_hist (core s) = disk_hist s"
  by (simp_all add: core_def)

lemma with_core_upd [simp]:
  "(with_core c s)\<lparr>sleeplocks := a\<rparr> = with_core (c\<lparr>k_sleeplocks := a\<rparr>) s"
  "(with_core c s)\<lparr>bufs := b\<rparr> = with_core (c\<lparr>k_bufs := b\<rparr>) s"
  "(with_core c s)\<lparr>lru := l\<rparr> = with_core (c\<lparr>k_lru := l\<rparr>) s"
  "(with_core c s)\<lparr>memdisk := d\<rparr> = with_core (c\<lparr>k_disk := d\<rparr>) s"
  "(with_core c s)\<lparr>disk_hist := h\<rparr> = with_core (c\<lparr>k_hist := h\<rparr>) s"
  "with_core c' (with_core c s) = with_core c' s"
  by (simp_all add: with_core_def)

lemma with_core_core [simp]: "with_core (core s) s = s"
  by (simp add: with_core_def core_def)

lemma calm_with_core [simp]: "calm p (with_core c s) = calm p s"
  by (simp add: calm_def)

definition holds_block :: "u32 \<Rightarrow> buf \<Rightarrow> bool" where
  "holds_block b x \<longleftrightarrow> b_dev x = 1 \<and> b_blockno x = b"

abbreviation held_by :: "int \<Rightarrow> sleeplock" where
  "held_by pid \<equiv> \<lparr>sl_locked = True, sl_pid = pid\<rparr>"

definition buf_ok :: "int \<Rightarrow> nat set \<Rightarrow> bcore \<Rightarrow> nat \<Rightarrow> bool" where
  "buf_ok pid H c i \<longleftrightarrow>
     (let x = k_bufs c ! i; l = k_sleeplocks c (BufSleep i) in
      (if i \<in> H then l = held_by pid \<and> b_refcnt x = 1 \<and> b_dev x = 1 else \<not> sl_locked l \<and> b_refcnt x = 0)
      \<and> (b_dirty x \<longrightarrow> b_dev x = 1)
      \<and> (b_dev x = 1 \<longrightarrow> b_valid x \<and> length (b_data x) = BSIZE)
      \<and> (b_dev x = 1 \<and> \<not> b_dirty x \<and> i \<notin> H \<longrightarrow> b_data x = k_disk c (unat (b_blockno x))))"

definition uniq :: "buf list \<Rightarrow> bool" where
  "uniq bs \<longleftrightarrow> (\<forall>i < length bs. \<forall>j < length bs. \<forall>b. holds_block b (bs ! i) \<and> holds_block b (bs ! j) \<longrightarrow> i = j)"

definition core_ok :: "int \<Rightarrow> nat set \<Rightarrow> bcore \<Rightarrow> bool" where
  "core_ok pid H c \<longleftrightarrow> distinct (k_lru c) \<and> set (k_lru c) = {..<length (k_bufs c)} \<and> H \<subseteq> {..<length (k_bufs c)}
     \<and> (\<forall>n. length (k_disk c n) = BSIZE) \<and> uniq (k_bufs c) \<and> (\<forall>i < length (k_bufs c). buf_ok pid H c i)"

text \<open>The buffer that holds a block, if there is one, and the logical content of the block.\<close>

definition slot :: "u32 \<Rightarrow> bcore \<Rightarrow> nat option" where
  "slot b c = first_such (holds_block b) (k_bufs c)"

definition view :: "bcore \<Rightarrow> u32 \<Rightarrow> block" where
  "view c b = (case slot b c of Some i \<Rightarrow> b_data (k_bufs c ! i) | None \<Rightarrow> k_disk c (unat b))"

definition dirty_block :: "bcore \<Rightarrow> u32 \<Rightarrow> bool" where
  "dirty_block c b \<longleftrightarrow> (\<exists>i. slot b c = Some i \<and> b_dirty (k_bufs c ! i))"

lemma slot_SomeD: "slot b c = Some i \<Longrightarrow> i < length (k_bufs c) \<and> holds_block b (k_bufs c ! i)"
  unfolding slot_def using first_such_SomeD by blast

lemma slot_None: "slot b c = None \<longleftrightarrow> (\<forall>i < length (k_bufs c). \<not> holds_block b (k_bufs c ! i))"
  by (simp add: slot_def first_such_None all_set_conv_all_nth)

lemma slot_eqI: "uniq (k_bufs c) \<Longrightarrow> i < length (k_bufs c) \<Longrightarrow> holds_block b (k_bufs c ! i) \<Longrightarrow> slot b c = Some i"
  by (cases "slot b c") (auto simp: slot_None uniq_def dest: slot_SomeD)

lemma find_lru:
  assumes "core_ok pid H c"
  shows "find (\<lambda>i. b_dev (k_bufs c ! i) = 1 \<and> b_blockno (k_bufs c ! i) = b) (k_lru c) = slot b c"
proof (cases "slot b c")
  case None
  then have "find (\<lambda>i. b_dev (k_bufs c ! i) = 1 \<and> b_blockno (k_bufs c ! i) = b) (k_lru c) = None"
    unfolding find_None_iff using assms by (auto simp: core_ok_def slot_None holds_block_def)
  then show ?thesis using None by simp
next
  case (Some i)
  then have i: "i < length (k_bufs c)" "holds_block b (k_bufs c ! i)" using slot_SomeD by blast+
  show ?thesis
  proof (cases "find (\<lambda>i. b_dev (k_bufs c ! i) = 1 \<and> b_blockno (k_bufs c ! i) = b) (k_lru c)")
    case None
    then show ?thesis using assms i by (auto simp: find_None_iff core_ok_def holds_block_def)
  next
    case (Some j)
    then obtain n where "n < length (k_lru c)" "j = k_lru c ! n" "b_dev (k_bufs c ! j) = 1" "b_blockno (k_bufs c ! j) = b"
      by (auto simp: find_Some_iff)
    then have "j < length (k_bufs c)" "holds_block b (k_bufs c ! j)"
      using assms nth_mem [of n "k_lru c"] by (auto simp: core_ok_def holds_block_def)
    then have "slot b c = Some j" using assms by (intro slot_eqI) (simp_all add: core_ok_def)
    then show ?thesis using Some by simp
  qed
qed

section \<open>Single operations\<close>

lemma with_core_mach: "(with_core c s)\<lparr>mach := m\<rparr> = with_core c (s\<lparr>mach := m\<rparr>)"
  by (simp add: with_core_def)

lemma kacquire_core:
  "calm p s \<Longrightarrow> kacquire lk (with_core c s) = Ret () (with_core c (s\<lparr>mach := taken lk (mach s)\<rparr>))"
  using calm_acquire [of p "with_core c s" lk] by (simp add: with_core_mach)

lemma krelease_core:
  assumes "calm p s"
  shows "krelease lk (with_core c (s\<lparr>mach := taken lk (mach s)\<rparr>)) = Ret () (with_core c s)"
  using calm_release [OF assms, of "with_core c (s\<lparr>mach := taken lk (mach s)\<rparr>)" lk] by (simp add: with_core_mach)

lemma acquiresleep_core:
  "calm p s \<Longrightarrow> \<not> sl_locked (k_sleeplocks c lk) \<Longrightarrow> acquiresleep lk (with_core c s)
     = Ret () (with_core (c\<lparr>k_sleeplocks := (k_sleeplocks c)(lk := held_by (pid_of p s))\<rparr>) s)"
  using acquiresleep_calm [of p "with_core c s" lk] by simp

lemma holdingsleep_core:
  "calm p s \<Longrightarrow> k_sleeplocks c lk = held_by (pid_of p s) \<Longrightarrow> holdingsleep lk (with_core c s) = Ret True (with_core c s)"
  using holdingsleep_calm [of p "with_core c s" lk] by simp

lemma releasesleep_core:
  "calm p s \<Longrightarrow> releasesleep lk (with_core c s)
     = Ret () (with_core (c\<lparr>k_sleeplocks := (k_sleeplocks c)(lk := \<lparr>sl_locked = False, sl_pid = 0\<rparr>)\<rparr>) s)"
  using releasesleep_calm [of p "with_core c s" lk] by simp

section \<open>Operations on buffers\<close>

text \<open>What \<^verbatim>\<open>bread\<close>, \<^verbatim>\<open>bwrite\<close> and \<^verbatim>\<open>brelse\<close> make of the core.\<close>

definition fetched :: "u32 \<Rightarrow> bcore \<Rightarrow> buf" where
  "fetched b c = \<lparr>b_valid = True, b_dirty = dirty_block c b, b_dev = 1, b_blockno = b, b_refcnt = 1, b_data = view c b\<rparr>"

definition got :: "int \<Rightarrow> nat \<Rightarrow> u32 \<Rightarrow> bcore \<Rightarrow> bcore" where
  "got pid i b c = c\<lparr>k_bufs := (k_bufs c)[i := fetched b c], k_sleeplocks := (k_sleeplocks c)(BufSleep i := held_by pid)\<rparr>"

definition written :: "nat \<Rightarrow> bcore \<Rightarrow> bcore" where
  "written i c = c\<lparr>k_disk := (k_disk c)(unat (b_blockno (k_bufs c ! i)) := b_data (k_bufs c ! i)), k_hist := k_disk c # k_hist c,
     k_bufs := modify i (\<lambda>x. x\<lparr>b_dirty := False, b_valid := True\<rparr>) (k_bufs c)\<rparr>"

definition released :: "nat \<Rightarrow> bcore \<Rightarrow> bcore" where
  "released i c = c\<lparr>k_sleeplocks := (k_sleeplocks c)(BufSleep i := \<lparr>sl_locked = False, sl_pid = 0\<rparr>),
     k_bufs := modify i (\<lambda>x. x\<lparr>b_refcnt := 0\<rparr>) (k_bufs c), k_lru := i # remove1 i (k_lru c)\<rparr>"

text \<open>Buffer \<open>i\<close> may be used for block \<open>b\<close>: it holds the block, or nothing holds it and the
  buffer is free.\<close>

definition usable :: "u32 \<Rightarrow> bcore \<Rightarrow> nat \<Rightarrow> bool" where
  "usable b c i \<longleftrightarrow> slot b c = Some i \<or> slot b c = None \<and> i < length (k_bufs c) \<and> b_refcnt (k_bufs c ! i) = 0 \<and> \<not> b_dirty (k_bufs c ! i)"

lemma core_okD:
  assumes "core_ok pid H c" "i < length (k_bufs c)"
  shows "i \<in> H \<Longrightarrow> k_sleeplocks c (BufSleep i) = held_by pid" "i \<in> H \<Longrightarrow> b_refcnt (k_bufs c ! i) = 1"
    "i \<in> H \<Longrightarrow> b_dev (k_bufs c ! i) = 1" "i \<notin> H \<Longrightarrow> \<not> sl_locked (k_sleeplocks c (BufSleep i))"
    "i \<notin> H \<Longrightarrow> b_refcnt (k_bufs c ! i) = 0" "b_dirty (k_bufs c ! i) \<Longrightarrow> b_dev (k_bufs c ! i) = 1"
    "b_dev (k_bufs c ! i) = 1 \<Longrightarrow> b_valid (k_bufs c ! i)" "b_dev (k_bufs c ! i) = 1 \<Longrightarrow> length (b_data (k_bufs c ! i)) = BSIZE"
    "b_dev (k_bufs c ! i) = 1 \<Longrightarrow> \<not> b_dirty (k_bufs c ! i) \<Longrightarrow> i \<notin> H \<Longrightarrow> b_data (k_bufs c ! i) = k_disk c (unat (b_blockno (k_bufs c ! i)))"
  using assms unfolding core_ok_def buf_ok_def Let_def by (auto split: if_splits)

lemma core_ok_uniq: "core_ok pid H c \<Longrightarrow> uniq (k_bufs c)"
  by (simp add: core_ok_def)

lemma core_ok_held: "core_ok pid H c \<Longrightarrow> i \<in> H \<Longrightarrow> i < length (k_bufs c)"
  by (auto simp: core_ok_def)

lemma usable_facts:
  assumes "core_ok pid H c" "usable b c i" "\<And>j. j \<in> H \<Longrightarrow> b_blockno (k_bufs c ! j) \<noteq> b"
  shows "i < length (k_bufs c)" "i \<notin> H"
proof -
  show l: "i < length (k_bufs c)" using assms(2) slot_SomeD by (auto simp: usable_def)
  show "i \<notin> H"
  proof
    assume h: "i \<in> H"
    then have "b_refcnt (k_bufs c ! i) \<noteq> 0" using core_okD(2) [OF assms(1) l] by simp
    then have "slot b c = Some i" using assms(2) by (simp add: usable_def)
    then show False using assms(3) [OF h] slot_SomeD by (auto simp: holds_block_def)
  qed
qed

lemma modify_same: "i < length xs \<Longrightarrow> f (xs ! i) = y \<Longrightarrow> modify i f xs = xs[i := y]"
  by (simp add: modify_def)

lemma buf_all: "x = \<lparr>b_valid = v, b_dirty = d, b_dev = e, b_blockno = b, b_refcnt = r, b_data = t\<rparr> \<longleftrightarrow>
    b_valid x = v \<and> b_dirty x = d \<and> b_dev x = e \<and> b_blockno x = b \<and> b_refcnt x = r \<and> b_data x = t"
  by (cases x) auto

lemma bread_hit:
  assumes "calm p s" "core_ok (pid_of p s) H c" "slot b c = Some i" "i \<notin> H"
  shows "bread 1 b (with_core c s) = Ret i (with_core (got (pid_of p s) i b c) s)"
proof -
  have i: "i < length (k_bufs c)" "holds_block b (k_bufs c ! i)" using slot_SomeD [OF assms(3)] by auto
  note ok = core_okD [OF assms(2) i(1)]
  have f: "modify i (\<lambda>x. x\<lparr>b_refcnt := b_refcnt x + 1\<rparr>) (k_bufs c) = (k_bufs c)[i := fetched b c]"
    by (rule modify_same [OF i(1)])
      (use ok(5,7) assms(3,4) i(2) in \<open>simp add: fetched_def buf_all holds_block_def view_def dirty_block_def\<close>)
  have "\<not> sl_locked (k_sleeplocks c (BufSleep i))" using ok(4) assms(4) .
  then have "bget 1 b (with_core c s) = Ret i (with_core (got (pid_of p s) i b c) s)"
    using assms(1,3) find_lru [OF assms(2)]
    by (simp add: bget_def kacquire_core krelease_core Let_def f acquiresleep_core got_def)
  moreover have "b_valid (k_bufs (got (pid_of p s) i b c) ! i)" using i(1) by (simp add: got_def fetched_def)
  ultimately show ?thesis by (simp add: bread_def)
qed

lemma find_rev_lru:
  assumes "core_ok pid H c" "slot b c = None" "j < length (k_bufs c)" "j \<notin> H" "\<not> b_dirty (k_bufs c ! j)"
  obtains i where "find (\<lambda>i. b_refcnt (k_bufs c ! i) = 0 \<and> \<not> b_dirty (k_bufs c ! i)) (rev (k_lru c)) = Some i" "usable b c i"
proof -
  have j: "j \<in> set (rev (k_lru c))" "b_refcnt (k_bufs c ! j) = 0"
    using assms core_okD(5) [OF assms(1,3)] by (auto simp: core_ok_def)
  show ?thesis
  proof (cases "find (\<lambda>i. b_refcnt (k_bufs c ! i) = 0 \<and> \<not> b_dirty (k_bufs c ! i)) (rev (k_lru c))")
    case None
    then show ?thesis using j assms(5) by (auto simp: find_None_iff)
  next
    case (Some i)
    then obtain n where n: "n < length (rev (k_lru c))" "i = rev (k_lru c) ! n" "b_refcnt (k_bufs c ! i) = 0" "\<not> b_dirty (k_bufs c ! i)"
      by (auto simp: find_Some_iff)
    then have "i \<in> set (k_lru c)" using nth_mem [OF n(1)] by simp
    then have "i < length (k_bufs c)" using assms(1) by (auto simp: core_ok_def)
    then show ?thesis using that Some assms(2) n(3,4) by (simp add: usable_def)
  qed
qed

lemma bread_miss:
  assumes "calm p s" "core_ok (pid_of p s) H c" "slot b c = None" "b < disksize s" "i \<notin> H" "i < length (k_bufs c)"
    and "find (\<lambda>i. b_refcnt (k_bufs c ! i) = 0 \<and> \<not> b_dirty (k_bufs c ! i)) (rev (k_lru c)) = Some i"
  shows "bread 1 b (with_core c s) = Ret i (with_core (got (pid_of p s) i b c) s)"
proof -
  note ok = core_okD [OF assms(2,6)]
  define x where "x = (k_bufs c ! i)\<lparr>b_dev := 1, b_blockno := b, b_valid := False, b_dirty := False, b_refcnt := 1\<rparr>"
  define d where "d = c\<lparr>k_bufs := (k_bufs c)[i := x], k_sleeplocks := (k_sleeplocks c)(BufSleep i := held_by (pid_of p s))\<rparr>"
  have m: "modify i (\<lambda>b'. b'\<lparr>b_dev := 1, b_blockno := b, b_valid := False, b_dirty := False, b_refcnt := 1\<rparr>) (k_bufs c) = (k_bufs c)[i := x]"
    by (simp add: modify_def x_def)
  have "\<not> sl_locked (k_sleeplocks c (BufSleep i))" using ok(4) assms(5) .
  then have g: "bget 1 b (with_core c s) = Ret i (with_core d s)"
    using assms(1,3,7) find_lru [OF assms(2), of b]
    by (simp add: bget_def kacquire_core krelease_core Let_def m acquiresleep_core d_def)
  have nd: "\<not> dirty_block c b" "view c b = k_disk c (unat b)" using assms(3) by (simp_all add: dirty_block_def view_def)
  have x: "b_valid x = False" "b_dirty x = False" "b_dev x = 1" "b_blockno x = b" by (simp_all add: x_def)
  have h: "holdingsleep (BufSleep i) (with_core d s) = Ret True (with_core d s)"
    by (rule holdingsleep_core [OF assms(1)]) (simp add: d_def)
  have bi: "k_bufs d ! i = x" "k_disk d = k_disk c" using assms(6) by (simp_all add: d_def)
  have f: "x\<lparr>b_data := k_disk c (unat b), b_valid := True\<rparr> = fetched b c"
    by (simp add: fetched_def buf_all nd x_def)
  have "iderw i (with_core d s) = Ret () (with_core (d\<lparr>k_bufs := (k_bufs d)[i := fetched b c]\<rparr>) s)"
    using h x bi assms(4,6) f by (simp add: iderw_def Let_def modify_def) (simp add: d_def)
  also have "d\<lparr>k_bufs := (k_bufs d)[i := fetched b c]\<rparr> = got (pid_of p s) i b c"
    by (simp add: d_def got_def)
  finally show ?thesis using g bi x by (simp add: bread_def)
qed

lemma got_sel [simp]:
  "k_disk (got pid i b c) = k_disk c" "k_hist (got pid i b c) = k_hist c" "k_lru (got pid i b c) = k_lru c"
  "length (k_bufs (got pid i b c)) = length (k_bufs c)" "k_bufs (got pid i b c) = (k_bufs c)[i := fetched b c]"
  by (simp_all add: got_def)

lemma holds_fetched [simp]: "holds_block b' (fetched b c) \<longleftrightarrow> b' = b"
  by (auto simp: holds_block_def fetched_def)

lemma uniq_got:
  assumes "uniq (k_bufs c)" "usable b c i" "i < length (k_bufs c)"
  shows "uniq ((k_bufs c)[i := fetched b c])"
proof -
  have o: "\<not> holds_block b (k_bufs c ! j)" if "j < length (k_bufs c)" "j \<noteq> i" for j
    using assms that slot_SomeD [of b c i] by (auto simp: usable_def slot_None uniq_def)
  show ?thesis unfolding uniq_def
  proof (intro allI impI, elim conjE)
    fix j k b'
    assume "j < length ((k_bufs c)[i := fetched b c])" "k < length ((k_bufs c)[i := fetched b c])"
      "holds_block b' ((k_bufs c)[i := fetched b c] ! j)" "holds_block b' ((k_bufs c)[i := fetched b c] ! k)"
    then show "j = k" using o [of j] o [of k] assms(1)
      by (cases "j = i"; cases "k = i") (auto simp: uniq_def)
  qed
qed

lemma slot_got:
  assumes "uniq (k_bufs c)" "usable b c i" "i < length (k_bufs c)"
  shows "slot b' (got pid i b c) = (if b' = b then Some i else if slot b' c = Some i then None else slot b' c)"
proof (cases "b' = b")
  case True
  then show ?thesis using slot_eqI [of "got pid i b c" i b'] uniq_got [OF assms] assms(3) by simp
next
  case False
  show ?thesis
  proof (cases "slot b' c")
    case None
    then have "slot b' (got pid i b c) = None" using False assms(3) by (auto simp: slot_None nth_list_update)
    then show ?thesis using None False by simp
  next
    case (Some j)
    note j = slot_SomeD [OF Some]
    show ?thesis
    proof (cases "j = i")
      case True
      have "slot b' (got pid i b c) = None"
        using False j assms(1,3) True by (auto simp: slot_None nth_list_update uniq_def)
      then show ?thesis using True Some False by simp
    next
      case False
      then have "slot b' (got pid i b c) = Some j"
        using slot_eqI [of "got pid i b c" j b'] uniq_got [OF assms] j by simp
      then show ?thesis using Some \<open>b' \<noteq> b\<close> False by simp
    qed
  qed
qed

text \<open>A buffer taken over for another block was clean, so the content of its old block is on the disk.\<close>

lemma taken_over:
  assumes "core_ok pid H c" "usable b c i" "i < length (k_bufs c)" "i \<notin> H" "slot b' c = Some i" "b' \<noteq> b"
  shows "b_data (k_bufs c ! i) = k_disk c (unat b')" "\<not> b_dirty (k_bufs c ! i)"
proof -
  have h: "holds_block b' (k_bufs c ! i)" using slot_SomeD [OF assms(5)] by simp
  have "slot b c \<noteq> Some i" using h slot_SomeD [of b c i] assms(6) by (auto simp: holds_block_def)
  then show d: "\<not> b_dirty (k_bufs c ! i)" using assms(2) by (simp add: usable_def)
  show "b_data (k_bufs c ! i) = k_disk c (unat b')"
    using core_okD(9) [OF assms(1,3) _ d assms(4)] h by (simp add: holds_block_def)
qed

lemma view_got:
  assumes "core_ok pid H c" "usable b c i" "i < length (k_bufs c)" "i \<notin> H"
  shows "view (got pid' i b c) = view c" "dirty_block (got pid' i b c) = dirty_block c"
proof -
  note sl = slot_got [OF core_ok_uniq [OF assms(1)] assms(2,3)]
  show "view (got pid' i b c) = view c"
  proof
    fix b'
    show "view (got pid' i b c) b' = view c b'"
    proof (cases "b' \<noteq> b \<and> slot b' c = Some i")
      case True
      then show ?thesis using taken_over(1) [OF assms, of b'] by (simp add: view_def sl)
    next
      case False
      have e: "slot b' c \<noteq> Some i \<or> b' = b" using False by blast
      show ?thesis
      proof (cases "b' = b")
        case True
        then show ?thesis using assms(3) by (simp add: view_def [of "got pid' i b c"] sl) (simp add: fetched_def)
      next
        case False
        then show ?thesis using e by (auto simp: view_def sl split: option.splits)
      qed
    qed
  qed
  show "dirty_block (got pid' i b c) = dirty_block c"
  proof
    fix b'
    show "dirty_block (got pid' i b c) b' = dirty_block c b'"
    proof (cases "b' = b")
      case True
      then show ?thesis using assms(3) by (simp add: dirty_block_def [of "got pid' i b c"] sl) (simp add: fetched_def)
    next
      case False
      then show ?thesis using taken_over(2) [OF assms, of b'] by (auto simp: dirty_block_def sl)
    qed
  qed
qed

lemma length_view: "core_ok pid H c \<Longrightarrow> length (view c b) = BSIZE"
  using core_okD(8) [of pid H c] slot_SomeD [of b c]
  by (auto simp: view_def core_ok_def holds_block_def split: option.splits)

lemma core_ok_got:
  assumes "core_ok pid H c" "usable b c i" "i < length (k_bufs c)" "i \<notin> H"
  shows "core_ok pid (insert i H) (got pid i b c)"
proof -
  have "buf_ok pid (insert i H) (got pid i b c) j" if "j < length (k_bufs c)" for j
  proof (cases "j = i")
    case True
    then show ?thesis using assms(3) length_view [OF assms(1)] by (simp add: buf_ok_def Let_def got_def fetched_def)
  next
    case False
    have "buf_ok pid H c j" using assms(1) that by (simp add: core_ok_def)
    then show ?thesis using False by (simp add: buf_ok_def Let_def got_def)
  qed
  then show ?thesis using assms(1,3) uniq_got [OF core_ok_uniq [OF assms(1)] assms(2,3)] by (simp add: core_ok_def)
qed

lemma bread_ok:
  assumes "calm p s" "core_ok (pid_of p s) H c" "b < disksize s" "\<And>j. j \<in> H \<Longrightarrow> b_blockno (k_bufs c ! j) \<noteq> b"
    and "slot b c \<noteq> None \<or> (\<exists>j < length (k_bufs c). j \<notin> H \<and> \<not> b_dirty (k_bufs c ! j))"
  obtains i where "bread 1 b (with_core c s) = Ret i (with_core (got (pid_of p s) i b c) s)"
    "usable b c i" "i < length (k_bufs c)" "i \<notin> H"
proof (cases "slot b c")
  case (Some i)
  have u: "usable b c i" using Some by (simp add: usable_def)
  note f = usable_facts [OF assms(2) u assms(4)]
  show ?thesis by (rule that [OF bread_hit [OF assms(1,2) Some f(2)] u f])
next
  case None
  then obtain j where j: "j < length (k_bufs c)" "j \<notin> H" "\<not> b_dirty (k_bufs c ! j)" using assms(5) by blast
  obtain i where i: "find (\<lambda>i. b_refcnt (k_bufs c ! i) = 0 \<and> \<not> b_dirty (k_bufs c ! i)) (rev (k_lru c)) = Some i" "usable b c i"
    using find_rev_lru [OF assms(2) None j] .
  note f = usable_facts [OF assms(2) i(2) assms(4)]
  show ?thesis by (rule that [OF bread_miss [OF assms(1,2) None assms(3) f(2,1) i(1)] i(2) f])
qed

section \<open>Changing, writing and releasing a buffer\<close>

definition filled :: "nat \<Rightarrow> block \<Rightarrow> bcore \<Rightarrow> bcore" where
  "filled i d c = c\<lparr>k_bufs := modify i (\<lambda>x. x\<lparr>b_data := d\<rparr>) (k_bufs c)\<rparr>"

lemma keeps_block: "holds_block b (x\<lparr>b_data := d\<rparr>) = holds_block b x" "holds_block b (x\<lparr>b_refcnt := r\<rparr>) = holds_block b x"
  "holds_block b (x\<lparr>b_dirty := e, b_valid := v\<rparr>) = holds_block b x"  "holds_block b (x\<lparr>b_dirty := e\<rparr>) = holds_block b x"
  by (simp_all add: holds_block_def)

lemma slot_modify:
  "(\<And>x. holds_block b (f x) = holds_block b x) \<Longrightarrow> k_bufs c' = modify i f (k_bufs c) \<Longrightarrow> slot b c' = slot b c"
  by (simp add: slot_def first_such_modify)

lemma uniq_modify:
  assumes "\<And>b x. holds_block b (f x) = holds_block b x" "uniq bs"
  shows "uniq (modify i f bs)"
proof -
  have "holds_block b (modify i f bs ! j) = holds_block b (bs ! j)" if "j < length bs" for b j
    using that assms(1) by (simp add: nth_modify)
  then show ?thesis using assms(2) by (simp add: uniq_def)
qed

lemma slot_held:
  assumes "core_ok pid H c" "i \<in> H"
  shows "slot (b_blockno (k_bufs c ! i)) c = Some i"
  using core_ok_held [OF assms] core_okD(3) [OF assms(1) core_ok_held [OF assms] assms(2)] core_ok_uniq [OF assms(1)]
  by (intro slot_eqI) (simp_all add: holds_block_def)

lemma slot_iff_held:
  assumes "core_ok pid H c" "i \<in> H"
  shows "slot b c = Some i \<longleftrightarrow> b = b_blockno (k_bufs c ! i)"
  using slot_held [OF assms] slot_SomeD [of b c i] by (auto simp: holds_block_def)

lemma slot_filled [simp]: "slot b (filled i d c) = slot b c"
  by (rule slot_modify [OF keeps_block(1)]) (simp add: filled_def)

lemma slot_written [simp]: "slot b (written i c) = slot b c"
  by (rule slot_modify [OF keeps_block(3)]) (simp add: written_def)

lemma slot_released [simp]: "slot b (released i c) = slot b c"
  by (rule slot_modify [OF keeps_block(2)]) (simp add: released_def)

lemma modify_field: "(\<And>x. g (f x) = g x) \<Longrightarrow> g (modify i f xs ! j) = g (xs ! j)"
  by (cases "i = j"; cases "j < length xs") (simp_all add: modify_def list_update_beyond)

lemma filled_sel [simp]:
  "k_disk (filled i d c) = k_disk c" "k_hist (filled i d c) = k_hist c" "k_lru (filled i d c) = k_lru c"
  "k_sleeplocks (filled i d c) = k_sleeplocks c" "length (k_bufs (filled i d c)) = length (k_bufs c)"
  "b_blockno (k_bufs (filled i d c) ! j) = b_blockno (k_bufs c ! j)" "b_dirty (k_bufs (filled i d c) ! j) = b_dirty (k_bufs c ! j)"
  by (simp_all add: filled_def modify_field)

lemma filled_data: "j < length (k_bufs c) \<Longrightarrow> b_data (k_bufs (filled i d c) ! j) = (if j = i then d else b_data (k_bufs c ! j))"
  by (simp add: filled_def nth_modify)

lemma filled_ok:
  assumes "core_ok pid H c" "i \<in> H" "length d = BSIZE"
  shows "core_ok pid H (filled i d c)" "view (filled i d c) = (view c)(b_blockno (k_bufs c ! i) := d)"
    "dirty_block (filled i d c) = dirty_block c"
proof -
  have il: "i < length (k_bufs c)" using core_ok_held [OF assms(1,2)] .
  have "buf_ok pid H (filled i d c) j" if "j < length (k_bufs c)" for j
  proof -
    have "buf_ok pid H c j" using assms(1) that by (simp add: core_ok_def)
    then show ?thesis using assms(2,3) that by (cases "j = i") (simp_all add: buf_ok_def Let_def filled_def nth_modify)
  qed
  then show "core_ok pid H (filled i d c)"
    using assms(1) uniq_modify [of "\<lambda>x. x\<lparr>b_data := d\<rparr>"] by (simp add: core_ok_def) (simp add: filled_def keeps_block)
  show "view (filled i d c) = (view c)(b_blockno (k_bufs c ! i) := d)"
  proof
    fix b
    show "view (filled i d c) b = ((view c)(b_blockno (k_bufs c ! i) := d)) b"
      using slot_iff_held [OF assms(1,2), of b] slot_SomeD [of b c] filled_data [of _ c i d]
      by (auto simp: view_def split: option.splits)
  qed
  show "dirty_block (filled i d c) = dirty_block c" by (simp add: dirty_block_def fun_eq_iff)
qed

lemma written_sel [simp]:
  "k_hist (written i c) = k_disk c # k_hist c" "k_lru (written i c) = k_lru c" "k_sleeplocks (written i c) = k_sleeplocks c"
  "length (k_bufs (written i c)) = length (k_bufs c)" "b_blockno (k_bufs (written i c) ! j) = b_blockno (k_bufs c ! j)"
  "b_data (k_bufs (written i c) ! j) = b_data (k_bufs c ! j)" "b_refcnt (k_bufs (written i c) ! j) = b_refcnt (k_bufs c ! j)"
  "b_dev (k_bufs (written i c) ! j) = b_dev (k_bufs c ! j)"
  "k_disk (written i c) = (k_disk c)(unat (b_blockno (k_bufs c ! i)) := b_data (k_bufs c ! i))"
  by (simp_all add: written_def modify_field)

lemma written_flags:
  assumes "j < length (k_bufs c)"
  shows "b_dirty (k_bufs (written i c) ! j) = (j \<noteq> i \<and> b_dirty (k_bufs c ! j))"
    "b_valid (k_bufs (written i c) ! j) = (j = i \<or> b_valid (k_bufs c ! j))"
  using assms by (simp_all add: written_def nth_modify)

lemma written_ok:
  assumes "core_ok pid H c" "i \<in> H"
  shows "core_ok pid H (written i c)" "view (written i c) = view c"
    "dirty_block (written i c) b \<longleftrightarrow> b \<noteq> b_blockno (k_bufs c ! i) \<and> dirty_block c b"
proof -
  have il: "i < length (k_bufs c)" using core_ok_held [OF assms] .
  note sl = slot_iff_held [OF assms]
  have "buf_ok pid H (written i c) j" if "j < length (k_bufs c)" for j
  proof -
    have b: "buf_ok pid H c j" using assms(1) that by (simp add: core_ok_def)
    show ?thesis
    proof (cases "j = i")
      case True
      then show ?thesis using b assms(2) that by (simp add: buf_ok_def Let_def written_flags)
    next
      case False
      have "b_blockno (k_bufs c ! j) \<noteq> b_blockno (k_bufs c ! i)" if "b_dev (k_bufs c ! j) = 1"
        using slot_eqI [OF core_ok_uniq [OF assms(1)], of j "b_blockno (k_bufs c ! i)"] sl [of "b_blockno (k_bufs c ! i)"]
          False \<open>j < length (k_bufs c)\<close> that by (auto simp: holds_block_def)
      then show ?thesis using b False that by (simp add: buf_ok_def Let_def written_flags word_unat_eq_iff)
    qed
  qed
  moreover have "length (b_data (k_bufs c ! i)) = BSIZE"
    using core_okD(8) [OF assms(1) il core_okD(3) [OF assms(1) il assms(2)]] .
  ultimately show "core_ok pid H (written i c)"
    using assms(1) uniq_modify [of "\<lambda>x. x\<lparr>b_dirty := False, b_valid := True\<rparr>"]
    by (simp add: core_ok_def) (simp add: written_def keeps_block)
  show "view (written i c) = view c"
  proof
    fix b
    show "view (written i c) b = view c b"
      using sl [of b] by (cases "slot b c") (auto simp: view_def word_unat_eq_iff)
  qed
  show "dirty_block (written i c) b \<longleftrightarrow> b \<noteq> b_blockno (k_bufs c ! i) \<and> dirty_block c b"
    using sl [of b] slot_SomeD [of b c] written_flags(1) [of _ c i] by (auto simp: dirty_block_def)
qed

lemma released_sel [simp]:
  "k_hist (released i c) = k_hist c" "k_disk (released i c) = k_disk c" "k_lru (released i c) = i # remove1 i (k_lru c)"
  "length (k_bufs (released i c)) = length (k_bufs c)" "b_blockno (k_bufs (released i c) ! j) = b_blockno (k_bufs c ! j)"
  "b_data (k_bufs (released i c) ! j) = b_data (k_bufs c ! j)" "b_dirty (k_bufs (released i c) ! j) = b_dirty (k_bufs c ! j)"
  "b_valid (k_bufs (released i c) ! j) = b_valid (k_bufs c ! j)" "b_dev (k_bufs (released i c) ! j) = b_dev (k_bufs c ! j)"
  by (simp_all add: released_def modify_field)

lemma released_ok:
  assumes "core_ok pid H c" "i \<in> H" "b_dirty (k_bufs c ! i) \<or> b_data (k_bufs c ! i) = k_disk c (unat (b_blockno (k_bufs c ! i)))"
  shows "core_ok pid (H - {i}) (released i c)" "view (released i c) = view c" "dirty_block (released i c) = dirty_block c"
proof -
  have il: "i < length (k_bufs c)" using core_ok_held [OF assms(1,2)] .
  have "buf_ok pid (H - {i}) (released i c) j" if "j < length (k_bufs c)" for j
  proof -
    have b: "buf_ok pid H c j" using assms(1) that by (simp add: core_ok_def)
    show ?thesis
    proof (cases "j = i")
      case True
      then have "b_refcnt (k_bufs (released i c) ! i) = 0" "\<not> sl_locked (k_sleeplocks (released i c) (BufSleep i))"
        using il by (simp_all add: released_def)
      then show ?thesis using True b assms(2,3) that by (auto simp: buf_ok_def Let_def)
    next
      case False
      then have "b_refcnt (k_bufs (released i c) ! j) = b_refcnt (k_bufs c ! j)"
        "k_sleeplocks (released i c) (BufSleep j) = k_sleeplocks c (BufSleep j)"
        using that by (simp_all add: released_def nth_modify)
      then show ?thesis using False b by (simp add: buf_ok_def Let_def)
    qed
  qed
  moreover have "distinct (k_lru (released i c))" "set (k_lru (released i c)) = {..<length (k_bufs c)}"
    using assms(1) il by (auto simp: core_ok_def)
  ultimately show "core_ok pid (H - {i}) (released i c)"
    using assms(1) uniq_modify [of "\<lambda>x. x\<lparr>b_refcnt := 0\<rparr>" "k_bufs c" i]
    unfolding core_ok_def by (auto simp: keeps_block) (simp add: released_def)
  show "view (released i c) = view c" by (simp add: view_def fun_eq_iff split: option.split)
  show "dirty_block (released i c) = dirty_block c" by (simp add: dirty_block_def fun_eq_iff)
qed

lemma upd_buf_core: "upd_buf i f (with_core c s) = with_core (c\<lparr>k_bufs := modify i f (k_bufs c)\<rparr>) s"
  by simp

lemma bwrite_ok:
  assumes "calm p s" "core_ok (pid_of p s) H c" "i \<in> H" "b_blockno (k_bufs c ! i) < disksize s"
  shows "bwrite i (with_core c s) = Ret () (with_core (written i c) s)"
proof -
  have il: "i < length (k_bufs c)" using core_ok_held [OF assms(2,3)] .
  note ok = core_okD(1-3) [OF assms(2) il assms(3)]
  define d where "d = c\<lparr>k_bufs := modify i (\<lambda>b. b\<lparr>b_dirty := True\<rparr>) (k_bufs c)\<rparr>"
  have h: "holdingsleep (BufSleep i) (with_core c s) = Ret True (with_core c s)"
    "holdingsleep (BufSleep i) (with_core d s) = Ret True (with_core d s)"
    using holdingsleep_core [OF assms(1)] ok(1) by (simp_all add: d_def)
  have x: "k_bufs d ! i = (k_bufs c ! i)\<lparr>b_dirty := True\<rparr>" using il by (simp add: d_def)
  have "iderw i (with_core d s) = Ret () (with_core (written i c) s)"
    using h x assms(4) ok(3) il by (simp add: iderw_def Let_def) (simp add: d_def written_def modify_modify)
  then show ?thesis using h by (simp add: bwrite_def d_def)
qed

lemma brelse_ok:
  assumes "calm p s" "core_ok (pid_of p s) H c" "i \<in> H"
  shows "brelse i (with_core c s) = Ret () (with_core (released i c) s)"
proof -
  have il: "i < length (k_bufs c)" using core_ok_held [OF assms(2,3)] .
  note ok = core_okD(1-3) [OF assms(2) il assms(3)]
  have h: "holdingsleep (BufSleep i) (with_core c s) = Ret True (with_core c s)"
    using holdingsleep_core [OF assms(1)] ok(1) by simp
  have m: "modify i (\<lambda>b. b\<lparr>b_refcnt := b_refcnt b - 1\<rparr>) (k_bufs c) = modify i (\<lambda>b. b\<lparr>b_refcnt := 0\<rparr>) (k_bufs c)"
    using ok(2) il by (simp add: modify_def)
  show ?thesis
    using h il assms(1) by (simp add: brelse_def releasesleep_core kacquire_core krelease_core Let_def m) (simp add: released_def krelease_core)
qed

section \<open>A machine that runs a thread\<close>

definition running_machine :: machine where
  "running_machine = two_cpus\<lparr>cpus := [idle_cpu 7, (idle_cpu 3)\<lparr>intena := True, c_proc := Some 1, c_thd := Some 1\<rparr>]\<rparr>"

lemma running_machine_ok:
  "lockable lk running_machine" "settle running_machine = running_machine" "curproc running_machine = Some 1"
  "curthd running_machine = Some 1"
  by (simp_all add: running_machine_def two_cpus_def idle_cpu_def lockable_def cpu_ok_def cpu_index_def first_such_def
      settle_def readeflags_IF_def modify_def curproc_def curthd_def)

lemma calm_demo: "mach s = running_machine \<Longrightarrow> threads s = threads demo \<Longrightarrow> calm 1 s"
  using running_machine_ok by (simp add: calm_def) (simp add: demo_def idle_thread_def)

text \<open>A cache whose first buffers are given and whose others are as in the image of the kernel.\<close>

definition empty_buf :: buf where
  "empty_buf = \<lparr>b_valid = False, b_dirty = False, b_dev = 0, b_blockno = 0, b_refcnt = 0, b_data = replicate BSIZE 0\<rparr>"

definition demo_core :: "buf list \<Rightarrow> (nat \<Rightarrow> block) \<Rightarrow> bcore" where
  "demo_core xs X = \<lparr>k_sleeplocks = (\<lambda>_. \<lparr>sl_locked = False, sl_pid = 0\<rparr>), k_bufs = xs @ replicate (NBUF - length xs) empty_buf,
     k_lru = [0..<NBUF], k_disk = X, k_hist = []\<rparr>"

lemma demo_core_0:
  assumes "\<And>n. length (X n) = BSIZE"
  shows "core_ok pid {} (demo_core [] X)"
  using assms by (auto simp: core_ok_def demo_core_def buf_ok_def uniq_def holds_block_def empty_buf_def)

lemma demo_core_1:
  assumes "\<And>n. length (X n) = BSIZE" "length d = BSIZE"
  shows "core_ok pid {} (demo_core [\<lparr>b_valid = True, b_dirty = True, b_dev = 1, b_blockno = b, b_refcnt = 0, b_data = d\<rparr>] X)"
  using assms by (auto simp: core_ok_def demo_core_def buf_ok_def uniq_def holds_block_def empty_buf_def nth_Cons' NBUF_def MAXOPBLOCKS_def)

end
