(* ===== verification/Recovery.thy ===== *)
theory Recovery
  imports Log Cache
begin

text \<open>
  Crash safety of the log. The states that the commit of a transaction goes through on the disk are
  those of \<open>disk_hist\<close> and the last one; \<^verbatim>\<open>recover_from_log\<close> on any of them, as after a crash and a
  restart, gives a disk on which all of the blocks of the transaction are new or none is.
\<close>

section \<open>Copying a block\<close>

lemma the_log_core [simp]: "the_log (with_core c s) = the_log s" "(with_core c s)\<lparr>the_log := l\<rparr> = with_core c (s\<lparr>the_log := l\<rparr>)"
  by (simp_all add: with_core_def)

lemma calm_log [simp]: "calm p (s\<lparr>the_log := l\<rparr>) = calm p s"
  by (simp add: calm_def)

definition clean :: "bcore \<Rightarrow> nat set" where
  "clean c = {j. j < length (k_bufs c) \<and> \<not> b_dirty (k_bufs c ! j)}"

lemma dirty_got:
  assumes "core_ok pid H c" "usable b c i" "i < length (k_bufs c)"
  shows "b_dirty ((k_bufs c)[i := fetched b c] ! j) = b_dirty (k_bufs c ! j)"
proof (cases "j = i")
  case True
  then show ?thesis using assms by (auto simp: fetched_def dirty_block_def usable_def)
qed simp

lemma clean_got: "core_ok pid H c \<Longrightarrow> usable b c i \<Longrightarrow> i < length (k_bufs c) \<Longrightarrow> clean (got pid' i b c) = clean c"
  using dirty_got [of pid H c b i] by (simp add: clean_def)

lemma clean_other [simp]: "clean (filled i d c) = clean c" "clean (released i c) = clean c"
  by (simp_all add: clean_def)

lemma clean_written: "i < length (k_bufs c) \<Longrightarrow> clean (written i c) = insert i (clean c)"
  by (auto simp: clean_def written_flags)

lemma clean_view: "core_ok pid {} c \<Longrightarrow> \<not> dirty_block c b \<Longrightarrow> view c b = k_disk c (unat b)"
  using core_okD(9) [of pid "{}" c] slot_SomeD [of b c]
  by (auto simp: view_def dirty_block_def holds_block_def split: option.splits)

text \<open>The second half of the loop bodies of \<^verbatim>\<open>write_log\<close> and \<^verbatim>\<open>install_trans\<close>, with the two buffers held.\<close>

definition copy_rest :: "nat \<Rightarrow> nat \<Rightarrow> 'x bio_state_scheme \<Rightarrow> ('x bio_state_scheme, unit) outcome" where
  "copy_rest src dst s =
     (let s = upd_buf dst (\<lambda>b. b\<lparr>b_data := b_data (bufs s ! src)\<rparr>) s in
      andthen (bwrite dst s) (\<lambda>_ s. andthen (brelse src s) (\<lambda>_ s. brelse dst s)))"

lemma copy_rest_ok:
  assumes "calm p s" "core_ok (pid_of p s) {i, j} c" "i \<noteq> j" "b_blockno (k_bufs c ! j) < disksize s"
    and "b_dirty (k_bufs c ! i) \<or> b_data (k_bufs c ! i) = k_disk c (unat (b_blockno (k_bufs c ! i)))"
  defines "d \<equiv> b_data (k_bufs c ! i)" and "dst \<equiv> b_blockno (k_bufs c ! j)"
  shows "\<exists>c'. copy_rest i j (with_core c s) = Ret () (with_core c' s) \<and> core_ok (pid_of p s) {} c'
     \<and> k_disk c' = (k_disk c)(unat dst := d) \<and> k_hist c' = k_disk c # k_hist c \<and> view c' = (view c)(dst := d)
     \<and> (\<forall>b. dirty_block c' b \<longleftrightarrow> b \<noteq> dst \<and> dirty_block c b) \<and> clean c' = insert j (clean c) \<and> length (k_bufs c') = length (k_bufs c)"
proof -
  let ?pid = "pid_of p s" and ?H = "{i, j}"
  have i: "i < length (k_bufs c)" and j: "j < length (k_bufs c)" using core_ok_held [OF assms(2)] by auto
  have dl: "length d = BSIZE" unfolding d_def using core_okD(3,8) [OF assms(2) i] by simp
  have ne: "b_blockno (k_bufs c ! i) \<noteq> dst"
    using slot_held [OF assms(2), of i] slot_held [OF assms(2), of j] assms(3) unfolding dst_def by auto
  define c1 where "c1 = filled j d c"
  define c2 where "c2 = written j c1"
  define c3 where "c3 = released i c2"
  define c4 where "c4 = released j c3"
  have o1: "core_ok ?pid ?H c1" and v1: "view c1 = (view c)(dst := d)" and e1: "dirty_block c1 = dirty_block c"
    unfolding c1_def dst_def using filled_ok [OF assms(2) _ dl, of j] by simp_all
  have b1: "b_blockno (k_bufs c1 ! j) = dst" "b_data (k_bufs c1 ! j) = d" "b_data (k_bufs c1 ! i) = d"
    "b_blockno (k_bufs c1 ! i) = b_blockno (k_bufs c ! i)" "b_dirty (k_bufs c1 ! i) = b_dirty (k_bufs c ! i)"
    using i j by (simp_all add: c1_def dst_def filled_data) (simp add: d_def)
  have o2: "core_ok ?pid ?H c2" and v2: "view c2 = view c1" and e2: "dirty_block c2 b \<longleftrightarrow> b \<noteq> dst \<and> dirty_block c1 b" for b
    unfolding c2_def using written_ok [OF o1, of j] b1(1) by simp_all
  have dk: "k_disk c2 = (k_disk c)(unat dst := d)" unfolding c2_def using b1 by (simp add: c1_def)
  have r: "b_dirty (k_bufs c2 ! i) \<or> b_data (k_bufs c2 ! i) = k_disk c2 (unat (b_blockno (k_bufs c2 ! i)))"
    using assms(3,5) ne b1 i dk unfolding c2_def by (auto simp: written_flags c1_def word_unat_eq_iff d_def)
  have o3: "core_ok ?pid (?H - {i}) c3" and v3: "view c3 = view c2" "dirty_block c3 = dirty_block c2"
    unfolding c3_def using released_ok [OF o2 _ r] by simp_all
  have H3: "?H - {i} = {j}" using assms(3) by auto
  have r3: "b_dirty (k_bufs c3 ! j) \<or> b_data (k_bufs c3 ! j) = k_disk c3 (unat (b_blockno (k_bufs c3 ! j)))"
    using dk b1 by (simp add: c3_def) (simp add: c2_def)
  have o4: "core_ok ?pid {} c4" and v4: "view c4 = view c3" "dirty_block c4 = dirty_block c3"
    unfolding c4_def using released_ok [OF o3 [unfolded H3] _ r3] by simp_all
  have w: "bwrite j (with_core c1 s) = Ret () (with_core c2 s)"
    unfolding c2_def by (rule bwrite_ok [OF assms(1) o1]) (use assms(4) b1(1) in \<open>simp_all add: dst_def\<close>)
  have ri: "brelse i (with_core c2 s) = Ret () (with_core c3 s)"
    unfolding c3_def by (rule brelse_ok [OF assms(1) o2]) simp
  have rj: "brelse j (with_core c3 s) = Ret () (with_core c4 s)"
    unfolding c4_def by (rule brelse_ok [OF assms(1) o3 [unfolded H3]]) simp
  have "copy_rest i j (with_core c s) = Ret () (with_core c4 s)"
    using w ri rj by (simp add: copy_rest_def Let_def) (simp add: c1_def filled_def d_def)
  moreover have "k_hist c4 = k_disk c # k_hist c" by (simp add: c4_def c3_def c2_def) (simp add: c1_def)
  moreover have "clean c4 = insert j (clean c)" using j by (simp add: c4_def c3_def c2_def clean_written c1_def)
  moreover have "length (k_bufs c4) = length (k_bufs c)" by (simp add: c4_def c3_def c2_def c1_def)
  moreover have "k_disk c4 = (k_disk c)(unat dst := d)" using dk by (simp add: c4_def c3_def)
  ultimately show ?thesis using o4 v1 v2 v3 v4 e1 e2 by (intro exI [of _ c4]) simp
qed

lemma pair_read:
  assumes "calm p s" "core_ok (pid_of p s) {} c" "b1 \<noteq> b2" "b1 < disksize s" "b2 < disksize s" "clean c \<noteq> {}"
    and "dirty_block c b2 \<or> 2 \<le> card (clean c)"
  obtains i j c1 c2 where "bread 1 b1 (with_core c s) = Ret i (with_core c1 s)" "bread 1 b2 (with_core c1 s) = Ret j (with_core c2 s)"
    "core_ok (pid_of p s) {i, j} c2" "i \<noteq> j" "b_blockno (k_bufs c2 ! i) = b1" "b_blockno (k_bufs c2 ! j) = b2"
    "b_data (k_bufs c2 ! i) = view c b1" "b_data (k_bufs c2 ! j) = view c b2"
    "b_dirty (k_bufs c2 ! i) = dirty_block c b1" "b_dirty (k_bufs c2 ! j) = dirty_block c b2"
    "view c2 = view c" "dirty_block c2 = dirty_block c" "k_disk c2 = k_disk c" "k_hist c2 = k_hist c" "clean c2 = clean c"
    "length (k_bufs c2) = length (k_bufs c)"
proof -
  let ?pid = "pid_of p s"
  have r1: "slot b1 c \<noteq> None \<or> (\<exists>j < length (k_bufs c). j \<notin> {} \<and> \<not> b_dirty (k_bufs c ! j))"
    using assms(6) by (auto simp: clean_def)
  obtain i where i: "bread 1 b1 (with_core c s) = Ret i (with_core (got ?pid i b1 c) s)" "usable b1 c i" "i < length (k_bufs c)" "i \<notin> {}"
    using bread_ok [OF assms(1,2,4) _ r1] by blast
  define c1 where "c1 = got ?pid i b1 c"
  have o1: "core_ok ?pid {i} c1" unfolding c1_def using core_ok_got [OF assms(2) i(2,3,4)] by simp
  have v1: "view c1 = view c" "dirty_block c1 = dirty_block c" unfolding c1_def using view_got [OF assms(2) i(2,3,4)] by simp_all
  have k1: "clean c1 = clean c" unfolding c1_def by (rule clean_got [OF assms(2) i(2,3)])
  have x1: "k_bufs c1 ! i = fetched b1 c" using i(3) by (simp add: c1_def)
  have n1: "b_blockno (k_bufs c1 ! k) \<noteq> b2" if "k \<in> {i}" for k using that x1 assms(3) by (simp add: fetched_def)
  have r2: "slot b2 c1 \<noteq> None \<or> (\<exists>j < length (k_bufs c1). j \<notin> {i} \<and> \<not> b_dirty (k_bufs c1 ! j))"
  proof (cases "dirty_block c b2")
    case True
    then have "dirty_block c1 b2" using v1 by simp
    then show ?thesis by (auto simp: dirty_block_def)
  next
    case False
    then have "2 \<le> card (clean c1)" using assms(7) k1 by simp
    then have "clean c1 - {i} \<noteq> {}" using card_mono [of "{i}" "clean c1"] by (auto simp: subset_iff)
    then show ?thesis by (auto simp: clean_def)
  qed
  obtain j where j: "bread 1 b2 (with_core c1 s) = Ret j (with_core (got ?pid j b2 c1) s)" "usable b2 c1 j" "j < length (k_bufs c1)" "j \<notin> {i}"
    using bread_ok [OF assms(1) o1 assms(5) n1 r2] by blast
  define c2 where "c2 = got ?pid j b2 c1"
  have o2: "core_ok ?pid {i, j} c2" unfolding c2_def using core_ok_got [OF o1 j(2,3,4)] by (simp add: insert_commute)
  have v2: "view c2 = view c1" "dirty_block c2 = dirty_block c1" unfolding c2_def using view_got [OF o1 j(2,3,4)] by simp_all
  have k2: "clean c2 = clean c1" unfolding c2_def by (rule clean_got [OF o1 j(2,3)])
  have x2: "k_bufs c2 ! i = fetched b1 c" "k_bufs c2 ! j = fetched b2 c1" using j(3,4) x1 by (simp_all add: c2_def)
  have z: "k_disk c2 = k_disk c" "k_hist c2 = k_hist c" "length (k_bufs c2) = length (k_bufs c)" by (simp_all add: c2_def) (simp_all add: c1_def)
  show ?thesis
    by (rule that [of i c1 j c2]) (use i(1) j(1,4) o2 x2 v1 v2 k1 k2 z in \<open>simp_all add: c1_def [symmetric] c2_def [symmetric] fetched_def\<close>)
qed

text \<open>The result of copying block \<open>src\<close> to block \<open>dst\<close>.\<close>

definition copied :: "int \<Rightarrow> u32 \<Rightarrow> u32 \<Rightarrow> bcore \<Rightarrow> bcore \<Rightarrow> bool" where
  "copied pid src dst c c' \<longleftrightarrow> core_ok pid {} c' \<and> k_disk c' = (k_disk c)(unat dst := view c src)
     \<and> k_hist c' = k_disk c # k_hist c \<and> view c' = (view c)(dst := view c src)
     \<and> (\<forall>b. dirty_block c' b \<longleftrightarrow> b \<noteq> dst \<and> dirty_block c b) \<and> clean c \<subseteq> clean c' \<and> length (k_bufs c') = length (k_bufs c)"

lemma copied_rest:
  assumes "calm p s" "core_ok (pid_of p s) {} c" "core_ok (pid_of p s) {i, j} c2" "i \<noteq> j"
    and "b_blockno (k_bufs c2 ! i) = src" "b_blockno (k_bufs c2 ! j) = dst" "b_data (k_bufs c2 ! i) = view c src"
    and "b_dirty (k_bufs c2 ! i) = dirty_block c src" "view c2 = view c" "dirty_block c2 = dirty_block c"
    and "k_disk c2 = k_disk c" "k_hist c2 = k_hist c" "clean c2 = clean c" "length (k_bufs c2) = length (k_bufs c)" "dst < disksize s"
  shows "\<exists>c'. copy_rest i j (with_core c2 s) = Ret () (with_core c' s) \<and> copied (pid_of p s) src dst c c'"
proof -
  have r: "b_dirty (k_bufs c2 ! i) \<or> b_data (k_bufs c2 ! i) = k_disk c2 (unat (b_blockno (k_bufs c2 ! i)))"
    using assms(5,7,8,11) clean_view [OF assms(2), of src] by auto
  have l: "b_blockno (k_bufs c2 ! j) < disksize s" using assms(6,15) by simp
  from copy_rest_ok [OF assms(1,3,4) l r] obtain c' where c':
    "copy_rest i j (with_core c2 s) = Ret () (with_core c' s)" "core_ok (pid_of p s) {} c'"
    "k_disk c' = (k_disk c)(unat dst := view c src)" "k_hist c' = k_disk c # k_hist c" "view c' = (view c)(dst := view c src)"
    "\<forall>b. dirty_block c' b \<longleftrightarrow> b \<noteq> dst \<and> dirty_block c b" "clean c' = insert j (clean c)" "length (k_bufs c') = length (k_bufs c)"
    unfolding assms(6,7,9-14) by (elim exE conjE)
  then have "copied (pid_of p s) src dst c c'" unfolding copied_def by (simp add: subset_insertI)
  then show ?thesis using c'(1) by blast
qed

lemma write_log_block_ok:
  assumes "calm p s" "core_ok (pid_of p s) {} c" "l_dev (the_log s) = 1" "k < length (lh_block (the_log s))" "clean c \<noteq> {}"
  defines "dst \<equiv> l_start (the_log s) + of_nat k + 1" and "src \<equiv> lh_block (the_log s) ! k"
  assumes "dst \<noteq> src" "dst < disksize s" "src < disksize s" "dirty_block c src"
  shows "\<exists>c'. write_log_block k (with_core c s) = Ret () (with_core c' s) \<and> copied (pid_of p s) src dst c c'"
proof -
  obtain j i c1 c2 where r: "bread 1 dst (with_core c s) = Ret j (with_core c1 s)" "bread 1 src (with_core c1 s) = Ret i (with_core c2 s)"
    and f: "core_ok (pid_of p s) {j, i} c2" "j \<noteq> i" "b_blockno (k_bufs c2 ! j) = dst" "b_blockno (k_bufs c2 ! i) = src"
    "b_data (k_bufs c2 ! i) = view c src" "b_dirty (k_bufs c2 ! i) = dirty_block c src"
    "view c2 = view c" "dirty_block c2 = dirty_block c" "k_disk c2 = k_disk c" "k_hist c2 = k_hist c" "clean c2 = clean c"
    "length (k_bufs c2) = length (k_bufs c)"
    by (rule pair_read [OF assms(1,2,8,9,10,5) disjI1 [OF assms(11)]]) blast
  obtain c' where "copy_rest i j (with_core c2 s) = Ret () (with_core c' s)" "copied (pid_of p s) src dst c c'"
    using copied_rest [OF assms(1,2), of i j c2 src dst] f assms(9) by (auto simp: insert_commute)
  then show ?thesis using r assms(3,4)
    by (intro exI [of _ c']) (simp add: write_log_block_def copy_rest_def Let_def dst_def [symmetric] src_def [symmetric])
qed

lemma install_block_ok:
  assumes "calm p s" "core_ok (pid_of p s) {} c" "l_dev (the_log s) = 1" "k < length (lh_block (the_log s))" "clean c \<noteq> {}"
  defines "src \<equiv> l_start (the_log s) + of_nat k + 1" and "dst \<equiv> lh_block (the_log s) ! k"
  assumes "src \<noteq> dst" "src < disksize s" "dst < disksize s" "dirty_block c dst \<or> 2 \<le> card (clean c)"
  shows "\<exists>c'. install_block k (with_core c s) = Ret () (with_core c' s) \<and> copied (pid_of p s) src dst c c'"
proof -
  obtain i j c1 c2 where r: "bread 1 src (with_core c s) = Ret i (with_core c1 s)" "bread 1 dst (with_core c1 s) = Ret j (with_core c2 s)"
    and f: "core_ok (pid_of p s) {i, j} c2" "i \<noteq> j" "b_blockno (k_bufs c2 ! i) = src" "b_blockno (k_bufs c2 ! j) = dst"
    "b_data (k_bufs c2 ! i) = view c src" "b_dirty (k_bufs c2 ! i) = dirty_block c src"
    "view c2 = view c" "dirty_block c2 = dirty_block c" "k_disk c2 = k_disk c" "k_hist c2 = k_hist c" "clean c2 = clean c"
    "length (k_bufs c2) = length (k_bufs c)"
    by (rule pair_read [OF assms(1,2,8,9,10,5,11)]) blast
  obtain c' where "copy_rest i j (with_core c2 s) = Ret () (with_core c' s)" "copied (pid_of p s) src dst c c'"
    using copied_rest [OF assms(1,2) f(1-5) f(6-12) assms(10)] by blast
  then show ?thesis using r assms(3,4)
    by (intro exI [of _ c']) (simp add: install_block_def copy_rest_def Let_def dst_def [symmetric] src_def [symmetric])
qed

section \<open>Loops that copy blocks\<close>

primrec upd_seq :: "(nat \<Rightarrow> 'a) \<Rightarrow> (nat \<Rightarrow> 'b) \<Rightarrow> ('a \<Rightarrow> 'b) \<Rightarrow> nat \<Rightarrow> 'a \<Rightarrow> 'b" where
  "upd_seq a v D 0 = D"
| "upd_seq a v D (Suc k) = (upd_seq a v D k)(a k := v k)"

lemma upd_seq_other: "x \<notin> a ` {..<k} \<Longrightarrow> upd_seq a v D k x = D x"
  by (induction k) (auto simp: lessThan_Suc)

lemma upd_seq_at: "inj_on a {..<n} \<Longrightarrow> k \<le> n \<Longrightarrow> i < k \<Longrightarrow> upd_seq a v D k (a i) = v i"
proof (induction k)
  case 0
  then show ?case by simp
next
  case (Suc k)
  then show ?case by (cases "i = k") (auto simp: inj_on_eq_iff)
qed

lemma copy_loop:
  assumes ok: "core_ok (pid_of p s) {} c0"
    and step: "\<And>k c. k < n \<Longrightarrow> core_ok (pid_of p s) {} c \<Longrightarrow> clean c0 \<subseteq> clean c \<Longrightarrow> length (k_bufs c) = length (k_bufs c0) \<Longrightarrow>
       (\<And>b. dirty_block c b \<longleftrightarrow> b \<notin> dst ` {..<k} \<and> dirty_block c0 b) \<Longrightarrow>
       \<exists>c'. f k (with_core c s) = Ret () (with_core c' s) \<and> copied (pid_of p s) (src k) (dst k) c c'"
    and fresh: "\<And>k. k < n \<Longrightarrow> src k \<notin> dst ` {..<k}"
  defines "v \<equiv> \<lambda>k. view c0 (src k)"
  shows "m \<le> n \<Longrightarrow> \<exists>c. each f [0..<m] (with_core c0 s) = Ret () (with_core c s) \<and> core_ok (pid_of p s) {} c
     \<and> k_disk c = upd_seq (\<lambda>k. unat (dst k)) v (k_disk c0) m
     \<and> k_hist c = map (upd_seq (\<lambda>k. unat (dst k)) v (k_disk c0)) (rev [0..<m]) @ k_hist c0
     \<and> view c = upd_seq dst v (view c0) m \<and> (\<forall>b. dirty_block c b \<longleftrightarrow> b \<notin> dst ` {..<m} \<and> dirty_block c0 b)
     \<and> clean c0 \<subseteq> clean c \<and> length (k_bufs c) = length (k_bufs c0)"
proof (induction m)
  case 0
  then show ?case using ok by (intro exI [of _ c0]) simp
next
  case (Suc m)
  then obtain c where c: "each f [0..<m] (with_core c0 s) = Ret () (with_core c s)" "core_ok (pid_of p s) {} c"
    "k_disk c = upd_seq (\<lambda>k. unat (dst k)) v (k_disk c0) m"
    "k_hist c = map (upd_seq (\<lambda>k. unat (dst k)) v (k_disk c0)) (rev [0..<m]) @ k_hist c0"
    "view c = upd_seq dst v (view c0) m" "\<And>b. dirty_block c b \<longleftrightarrow> b \<notin> dst ` {..<m} \<and> dirty_block c0 b"
    "clean c0 \<subseteq> clean c" "length (k_bufs c) = length (k_bufs c0)" by auto
  obtain c' where c': "f m (with_core c s) = Ret () (with_core c' s)" "copied (pid_of p s) (src m) (dst m) c c'"
    using step [of m c] Suc.prems c(2,6-8) by auto
  have vm: "view c (src m) = v m" using fresh [of m] Suc.prems by (simp add: c(5) upd_seq_other v_def)
  show ?case
    by (rule exI [of _ c'])
      (use c c' vm in \<open>auto simp: each_append copied_def lessThan_Suc\<close>)
qed

section \<open>The header block\<close>

lemma byte_of_put:
  "length (put_word i v d) = length d" "j + 3 < i \<or> i + 3 < j \<Longrightarrow> word_at (put_word i v d) j = word_at d j"
  by (auto simp: put_word_def word_at_def nth_list_update)

lemma word_at_put: "i + 3 < length d \<Longrightarrow> word_at (put_word i v d) i = v"
  using join4_bytes [of v] by (simp add: put_word_def word_at_def)

definition put_blocks :: "u32 list \<Rightarrow> nat \<Rightarrow> block \<Rightarrow> block" where
  "put_blocks bs n d = fold (\<lambda>i d. put_word (4 + 4 * i) (bs ! i) d) [0..<n] d"

definition head_data :: "u32 list \<Rightarrow> nat \<Rightarrow> block \<Rightarrow> block" where
  "head_data bs n d = put_blocks bs n (put_word 0 (of_nat n) d)"

lemma put_blocks_simps [simp]:
  "put_blocks bs 0 d = d" "put_blocks bs (Suc n) d = put_word (4 + 4 * n) (bs ! n) (put_blocks bs n d)"
  by (simp_all add: put_blocks_def)

lemma length_put_blocks [simp]: "length (put_blocks bs n d) = length d"
  by (induction n) (simp_all add: byte_of_put)

lemma length_head_data [simp]: "length (head_data bs n d) = length d"
  by (simp add: head_data_def byte_of_put)

lemma put_blocks_0: "word_at (put_blocks bs n d) 0 = word_at d 0"
  by (induction n) (simp_all add: byte_of_put)

lemma put_blocks_at: "i < n \<Longrightarrow> 4 + 4 * n \<le> length d \<Longrightarrow> word_at (put_blocks bs n d) (4 + 4 * i) = bs ! i"
proof (induction n)
  case 0
  then show ?case by simp
next
  case (Suc n)
  show ?case
  proof (cases "i = n")
    case True
    then show ?thesis using Suc.prems by (simp add: word_at_put)
  next
    case False
    then have "i < n" using Suc.prems by simp
    then show ?thesis using Suc by (simp add: byte_of_put)
  qed
qed

lemma head_data_words:
  assumes "length d = BSIZE" "n \<le> 127"
  shows "word_at (head_data bs n d) 0 = of_nat n" "i < n \<Longrightarrow> word_at (head_data bs n d) (4 + 4 * i) = bs ! i"
  using assms by (simp_all add: head_data_def put_blocks_0 word_at_put BSIZE_def put_blocks_at byte_of_put)

section \<open>Writing and reading one block\<close>

text \<open>Block \<open>dst\<close> is written with \<open>d\<close>, on the disk and in the cache; and a block is only read.\<close>

definition stored :: "int \<Rightarrow> block \<Rightarrow> u32 \<Rightarrow> bcore \<Rightarrow> bcore \<Rightarrow> bool" where
  "stored pid d dst c c' \<longleftrightarrow> core_ok pid {} c' \<and> k_disk c' = (k_disk c)(unat dst := d)
     \<and> k_hist c' = k_disk c # k_hist c \<and> view c' = (view c)(dst := d)
     \<and> (\<forall>b. dirty_block c' b \<longleftrightarrow> b \<noteq> dst \<and> dirty_block c b) \<and> clean c \<subseteq> clean c' \<and> length (k_bufs c') = length (k_bufs c)"

definition looked :: "int \<Rightarrow> bcore \<Rightarrow> bcore \<Rightarrow> bool" where
  "looked pid c c' \<longleftrightarrow> core_ok pid {} c' \<and> k_disk c' = k_disk c \<and> k_hist c' = k_hist c \<and> view c' = view c
     \<and> dirty_block c' = dirty_block c \<and> clean c' = clean c \<and> length (k_bufs c') = length (k_bufs c)"

lemma filled_filled [simp]: "filled i e (filled i d c) = filled i e c"
  by (cases "i < length (k_bufs c)") (simp_all add: filled_def modify_def list_update_beyond)

text \<open>One buffer is held at a time.\<close>

lemma single_read:
  assumes "calm p s" "core_ok (pid_of p s) {} c" "b < disksize s" "clean c \<noteq> {}"
  obtains i c1 where "bread 1 b (with_core c s) = Ret i (with_core c1 s)" "core_ok (pid_of p s) {i} c1" "i < length (k_bufs c1)"
    "b_blockno (k_bufs c1 ! i) = b" "b_data (k_bufs c1 ! i) = view c b" "b_dirty (k_bufs c1 ! i) = dirty_block c b"
    "view c1 = view c" "dirty_block c1 = dirty_block c" "k_disk c1 = k_disk c" "k_hist c1 = k_hist c" "clean c1 = clean c"
    "length (k_bufs c1) = length (k_bufs c)"
proof -
  let ?pid = "pid_of p s"
  have r: "slot b c \<noteq> None \<or> (\<exists>j < length (k_bufs c). j \<notin> {} \<and> \<not> b_dirty (k_bufs c ! j))"
    using assms(4) by (auto simp: clean_def)
  obtain i where i: "bread 1 b (with_core c s) = Ret i (with_core (got ?pid i b c) s)" "usable b c i" "i < length (k_bufs c)" "i \<notin> {}"
    using bread_ok [OF assms(1,2,3) _ r] by blast
  show ?thesis
    by (rule that [OF i(1)])
      (use i core_ok_got [OF assms(2) i(2,3,4)] view_got [OF assms(2) i(2,3,4)] clean_got [OF assms(2) i(2,3)] in \<open>simp_all add: fetched_def\<close>)
qed

lemma store_rest:
  assumes "calm p s" "core_ok (pid_of p s) {i} c1" "b_blockno (k_bufs c1 ! i) = b" "b < disksize s" "length d = BSIZE"
    and "view c1 = view c" "dirty_block c1 = dirty_block c" "k_disk c1 = k_disk c" "k_hist c1 = k_hist c" "clean c1 = clean c"
    and "length (k_bufs c1) = length (k_bufs c)"
  shows "\<exists>c'. andthen (bwrite i (with_core (filled i d c1) s)) (\<lambda>_ s. brelse i s) = Ret () (with_core c' s) \<and> stored (pid_of p s) d b c c'"
proof -
  let ?pid = "pid_of p s"
  have il: "i < length (k_bufs c1)" using core_ok_held [OF assms(2)] by simp
  define c2 where "c2 = filled i d c1"
  define c3 where "c3 = written i c2"
  define c4 where "c4 = released i c3"
  have o2: "core_ok ?pid {i} c2" and v2: "view c2 = (view c)(b := d)" "dirty_block c2 = dirty_block c"
    unfolding c2_def using filled_ok [OF assms(2) _ assms(5), of i] assms(3,6,7) by simp_all
  have b2: "b_blockno (k_bufs c2 ! i) = b" "b_data (k_bufs c2 ! i) = d" using assms(3) il by (simp_all add: c2_def filled_data)
  have o3: "core_ok ?pid {i} c3" and v3: "view c3 = view c2" and e3: "dirty_block c3 b' \<longleftrightarrow> b' \<noteq> b \<and> dirty_block c b'" for b'
    unfolding c3_def using written_ok [OF o2, of i] b2(1) v2(2) by simp_all
  have k3: "k_disk c3 = (k_disk c)(unat b := d)" unfolding c3_def using b2 assms(8) by (simp add: c2_def)
  have r3: "b_dirty (k_bufs c3 ! i) \<or> b_data (k_bufs c3 ! i) = k_disk c3 (unat (b_blockno (k_bufs c3 ! i)))"
    using k3 b2 by (simp add: c3_def)
  have o4: "core_ok ?pid {} c4" and v4: "view c4 = view c3" "dirty_block c4 = dirty_block c3"
    unfolding c4_def using released_ok [OF o3 _ r3] by simp_all
  have w: "bwrite i (with_core c2 s) = Ret () (with_core c3 s)"
    unfolding c3_def by (rule bwrite_ok [OF assms(1) o2]) (use b2(1) assms(4) in simp_all)
  have r: "brelse i (with_core c3 s) = Ret () (with_core c4 s)" unfolding c4_def by (rule brelse_ok [OF assms(1) o3]) simp
  have "clean c4 = insert i (clean c)" using il assms(10) by (simp add: c4_def c3_def clean_written c2_def)
  moreover have "k_hist c4 = k_disk c # k_hist c" using assms(8,9) by (simp add: c4_def c3_def) (simp add: c2_def)
  moreover have "k_disk c4 = (k_disk c)(unat b := d)" "length (k_bufs c4) = length (k_bufs c)"
    using k3 assms(11) by (simp_all add: c4_def) (simp add: c3_def c2_def)
  ultimately have "stored ?pid d b c c4" using o4 v2 v3 v4 e3 unfolding stored_def by (simp add: subset_insertI)
  then show ?thesis using w r by (intro exI [of _ c4]) (simp add: c2_def)
qed

lemma look_rest:
  assumes "calm p s" "core_ok (pid_of p s) {} c" "core_ok (pid_of p s) {i} c1" "b_blockno (k_bufs c1 ! i) = b" "b_data (k_bufs c1 ! i) = view c b"
    and "b_dirty (k_bufs c1 ! i) = dirty_block c b"
    and "view c1 = view c" "dirty_block c1 = dirty_block c" "k_disk c1 = k_disk c" "k_hist c1 = k_hist c" "clean c1 = clean c"
    and "length (k_bufs c1) = length (k_bufs c)"
  shows "brelse i (with_core c1 s) = Ret () (with_core (released i c1) s)" "looked (pid_of p s) c (released i c1)"
proof -
  have r: "b_dirty (k_bufs c1 ! i) \<or> b_data (k_bufs c1 ! i) = k_disk c1 (unat (b_blockno (k_bufs c1 ! i)))"
    using assms(4-6,9) clean_view [OF assms(2), of b] by auto
  show "brelse i (with_core c1 s) = Ret () (with_core (released i c1) s)" by (rule brelse_ok [OF assms(1,3)]) simp
  show "looked (pid_of p s) c (released i c1)" using released_ok [OF assms(3) _ r] assms(7-12) by (simp add: looked_def)
qed

section \<open>The header on disk\<close>

lemma refill:
  assumes "i < length (k_bufs c)"
  shows "(filled i d c)\<lparr>k_bufs := modify i (\<lambda>b. b\<lparr>b_data := g (b_data b)\<rparr>) (k_bufs (filled i d c))\<rparr> = filled i (g d) c"
    "c\<lparr>k_bufs := modify i (\<lambda>b. b\<lparr>b_data := g (b_data b)\<rparr>) (k_bufs c)\<rparr> = filled i (g (b_data (k_bufs c ! i))) c"
  using assms by (simp_all add: filled_def modify_def)

lemma write_head_ok:
  assumes "calm p s" "core_ok (pid_of p s) {} c" "l_dev (the_log s) = 1" "lh_n (the_log s) = int n"
    and "n \<le> length (lh_block (the_log s))" "l_start (the_log s) < disksize s" "clean c \<noteq> {}"
  defines "hdr \<equiv> head_data (lh_block (the_log s)) n (view c (l_start (the_log s)))"
  shows "\<exists>c'. write_head (with_core c s) = Ret () (with_core c' s) \<and> stored (pid_of p s) hdr (l_start (the_log s)) c c'"
proof -
  let ?b = "l_start (the_log s)" and ?bs = "lh_block (the_log s)"
  obtain i c1 where r: "bread 1 ?b (with_core c s) = Ret i (with_core c1 s)" "core_ok (pid_of p s) {i} c1" "i < length (k_bufs c1)"
    "b_blockno (k_bufs c1 ! i) = ?b" "b_data (k_bufs c1 ! i) = view c ?b" "view c1 = view c" "dirty_block c1 = dirty_block c"
    "k_disk c1 = k_disk c" "k_hist c1 = k_hist c" "clean c1 = clean c" "length (k_bufs c1) = length (k_bufs c)"
    by (rule single_read [OF assms(1,2,6,7)]) blast
  have e: "each (\<lambda>j s. if j \<ge> length (lh_block (the_log s)) then Undef ''log.lh.block''
           else Ret () (upd_buf i (\<lambda>b. b\<lparr>b_data := put_word (4 + 4 * j) (lh_block (the_log s) ! j) (b_data b)\<rparr>) s))
         [0..<k] (with_core (filled i d c1) s) = Ret () (with_core (filled i (put_blocks ?bs k d) c1) s)" if "k \<le> n" for k d
    using that
  proof (induction k)
    case (Suc k)
    then show ?case using assms(5) r(3) by (simp add: each_append refill filled_data)
  qed simp
  have l: "length hdr = BSIZE" using length_view [OF assms(2)] by (simp add: hdr_def)
  obtain c' where c': "andthen (bwrite i (with_core (filled i hdr c1) s)) (\<lambda>_ s. brelse i s) = Ret () (with_core c' s)"
    "stored (pid_of p s) hdr ?b c c'"
    using store_rest [OF assms(1) r(2,4) assms(6) l r(6-11)] by blast
  have "write_head (with_core c s) = Ret () (with_core c' s)"
    using r(1,3,5) assms(3,4) e [of n] c'(1) by (simp add: write_head_def Let_def refill) (simp add: hdr_def head_data_def)
  then show ?thesis using c'(2) by blast
qed

lemma read_head_ok:
  assumes "calm p s" "core_ok (pid_of p s) {} c" "l_dev (the_log s) = 1" "l_start (the_log s) < disksize s" "clean c \<noteq> {}"
    and "word_at (view c (l_start (the_log s))) 0 = of_nat n" "n \<le> length (lh_block (the_log s))" "n \<le> 127"
  shows "\<exists>c' bs. read_head (with_core c s) = Ret () (with_core c' (s\<lparr>the_log := (the_log s)\<lparr>lh_n := int n, lh_block := bs\<rparr>\<rparr>))
     \<and> looked (pid_of p s) c c' \<and> length bs = length (lh_block (the_log s))
     \<and> (\<forall>i < n. bs ! i = word_at (view c (l_start (the_log s))) (4 + 4 * i))"
proof -
  let ?b = "l_start (the_log s)"
  let ?d = "view c ?b"
  let ?st = "\<lambda>bs. s\<lparr>the_log := (the_log s)\<lparr>lh_n := int n, lh_block := bs\<rparr>\<rparr>"
  obtain i c1 where r: "bread 1 ?b (with_core c s) = Ret i (with_core c1 s)" "core_ok (pid_of p s) {i} c1" "i < length (k_bufs c1)"
    "b_blockno (k_bufs c1 ! i) = ?b" "b_data (k_bufs c1 ! i) = ?d" "b_dirty (k_bufs c1 ! i) = dirty_block c ?b" "view c1 = view c"
    "dirty_block c1 = dirty_block c" "k_disk c1 = k_disk c" "k_hist c1 = k_hist c" "clean c1 = clean c" "length (k_bufs c1) = length (k_bufs c)"
    using single_read [OF assms(1,2,4,5)] .
  have "uint (of_nat n :: u32) = int n" using assms(8) by (simp add: uint_nat unat_of_nat)
  then have sn: "sint (word_at ?d 0) = int n" using assms(6,8) by (simp add: sint_uint signed_take_bit_int_eq_self)
  have e: "\<exists>bs. each (\<lambda>j s. if j \<ge> length (lh_block (the_log s)) then Undef ''log.lh.block''
           else Ret () (upd_log (\<lambda>l. l\<lparr>lh_block := (lh_block l)[j := word_at ?d (4 + 4 * j)]\<rparr>) s))
         [0..<k] (with_core c1 (s\<lparr>the_log := (the_log s)\<lparr>lh_n := int n\<rparr>\<rparr>)) = Ret () (with_core c1 (?st bs))
       \<and> length bs = length (lh_block (the_log s)) \<and> (\<forall>j < k. bs ! j = word_at ?d (4 + 4 * j))" if "k \<le> n" for k
    using that
  proof (induction k)
    case 0
    then show ?case by (intro exI [of _ "lh_block (the_log s)"]) simp
  next
    case (Suc k)
    then obtain bs where bs: "each (\<lambda>j s. if j \<ge> length (lh_block (the_log s)) then Undef ''log.lh.block''
           else Ret () (upd_log (\<lambda>l. l\<lparr>lh_block := (lh_block l)[j := word_at ?d (4 + 4 * j)]\<rparr>) s))
         [0..<k] (with_core c1 (s\<lparr>the_log := (the_log s)\<lparr>lh_n := int n\<rparr>\<rparr>)) = Ret () (with_core c1 (?st bs))"
       "length bs = length (lh_block (the_log s))" "\<forall>j < k. bs ! j = word_at ?d (4 + 4 * j)" by auto
    show ?case
      by (rule exI [of _ "bs[k := word_at ?d (4 + 4 * k)]"])
        (use bs Suc.prems assms(7) in \<open>auto simp: each_append less_Suc_eq nth_list_update\<close>)
  qed
  obtain bs where bs: "each (\<lambda>j s. if j \<ge> length (lh_block (the_log s)) then Undef ''log.lh.block''
           else Ret () (upd_log (\<lambda>l. l\<lparr>lh_block := (lh_block l)[j := word_at ?d (4 + 4 * j)]\<rparr>) s))
         [0..<n] (with_core c1 (s\<lparr>the_log := (the_log s)\<lparr>lh_n := int n\<rparr>\<rparr>)) = Ret () (with_core c1 (?st bs))"
    "length bs = length (lh_block (the_log s))" "\<forall>j < n. bs ! j = word_at ?d (4 + 4 * j)" using e [of n] by blast
  have lr: "brelse i (with_core c1 (?st bs)) = Ret () (with_core (released i c1) (?st bs))" "looked (pid_of p s) c (released i c1)"
    using look_rest [of p "?st bs" c i c1 ?b] assms(1,2) r(2-12) by simp_all
  have "read_head (with_core c s) = Ret () (with_core (released i c1) (?st bs))"
    using r(1,5) assms(3) sn bs(1) lr(1) by (simp add: read_head_def Let_def cong: if_cong)
  then show ?thesis using lr(2) bs(2,3) by blast
qed

section \<open>The log on disk\<close>

text \<open>Where block \<open>k\<close> of the transaction is in the log, and what \<open>mkfs\<close> and \<^verbatim>\<open>log_write\<close> make sure of: the
  log area is on the disk, the transaction fits into it, and its blocks are distinct and outside of it.\<close>

definition log_block :: "u32 \<Rightarrow> nat \<Rightarrow> u32" where
  "log_block st k = st + of_nat k + 1"

definition log_area :: "u32 \<Rightarrow> nat set" where
  "log_area st = {unat st ..< unat st + LOGSIZE}"

definition trans_ok :: "u32 \<Rightarrow> u32 \<Rightarrow> u32 list \<Rightarrow> bool" where
  "trans_ok st sz bs \<longleftrightarrow> unat st + LOGSIZE \<le> unat sz \<and> length bs < LOGSIZE \<and> distinct bs
     \<and> (\<forall>b \<in> set bs. b < sz \<and> unat b \<notin> log_area st)"

lemma unat_log_block:
  assumes "trans_ok st sz bs" "k < length bs"
  shows "unat (log_block st k) = unat st + k + 1"
proof -
  have "unat st + k + 1 < 2 ^ 32" using assms unat_less_4G [of sz] by (simp add: trans_ok_def)
  then have "unat (of_nat (unat st + k + 1) :: u32) = unat st + k + 1" by (rule unat_of_nat_small)
  then show ?thesis by (simp add: log_block_def ac_simps)
qed

lemma trans_okD:
  assumes "trans_ok st sz bs"
  shows "st < sz" "k < length bs \<Longrightarrow> log_block st k < sz" "k < length bs \<Longrightarrow> log_block st k \<noteq> st"
    "inj_on (log_block st) {..<length bs}" "k < length bs \<Longrightarrow> bs ! k < sz" "k < length bs \<Longrightarrow> bs ! k \<noteq> st"
    "k < length bs \<Longrightarrow> j < length bs \<Longrightarrow> bs ! j \<noteq> log_block st k" "inj_on (\<lambda>k. bs ! k) {..<length bs}"
    "k < length bs \<Longrightarrow> unat (log_block st k) \<in> log_area st" "unat st \<in> log_area st"
    "k < length bs \<Longrightarrow> unat (bs ! k) \<notin> log_area st"
proof -
  have a: "unat st + LOGSIZE \<le> unat sz" "length bs < LOGSIZE" "distinct bs" using assms by (simp_all add: trans_ok_def)
  show "st < sz" "unat st \<in> log_area st" using a by (simp_all add: word_less_nat_alt log_area_def LOGSIZE_def MAXOPBLOCKS_def)
  show b: "unat (bs ! k) \<notin> log_area st" "bs ! k < sz" if "k < length bs" for k using assms that by (simp_all add: trans_ok_def)
  show c: "unat (log_block st k) \<in> log_area st" "log_block st k < sz" if "k < length bs" for k
    using unat_log_block [OF assms that] a that by (simp_all add: word_less_nat_alt log_area_def)
  show "log_block st k \<noteq> st" if "k < length bs" using unat_log_block [OF assms that] by auto
  show "bs ! k \<noteq> st" if "k < length bs" using b(1) [OF that] \<open>unat st \<in> log_area st\<close> by auto
  show "bs ! j \<noteq> log_block st k" if "k < length bs" "j < length bs" using b(1) [OF that(2)] c(1) [OF that(1)] by auto
  show "inj_on (log_block st) {..<length bs}" by (rule inj_onI) (use unat_log_block [OF assms] in \<open>fastforce dest: arg_cong [of _ _ unat]\<close>)
  show "inj_on (\<lambda>k. bs ! k) {..<length bs}" using a(3) by (simp add: inj_on_def nth_eq_iff_index_eq)
qed

text \<open>The blocks \<open>dst 0\<close>, \<open>dst 1\<close>, ... are written with \<open>v 0\<close>, \<open>v 1\<close>, ..., in that order.\<close>

definition copies :: "int \<Rightarrow> (nat \<Rightarrow> u32) \<Rightarrow> (nat \<Rightarrow> block) \<Rightarrow> nat \<Rightarrow> bcore \<Rightarrow> bcore \<Rightarrow> bool" where
  "copies pid dst v n c c' \<longleftrightarrow> core_ok pid {} c'
     \<and> k_disk c' = upd_seq (\<lambda>k. unat (dst k)) v (k_disk c) n
     \<and> k_hist c' = map (upd_seq (\<lambda>k. unat (dst k)) v (k_disk c)) (rev [0..<n]) @ k_hist c
     \<and> view c' = upd_seq dst v (view c) n \<and> (\<forall>b. dirty_block c' b \<longleftrightarrow> b \<notin> dst ` {..<n} \<and> dirty_block c b)
     \<and> clean c \<subseteq> clean c' \<and> length (k_bufs c') = length (k_bufs c)"

text \<open>The log in memory describes the transaction \<open>bs\<close>.\<close>

definition log_holds :: "u32 list \<Rightarrow> 'x log_state_scheme \<Rightarrow> bool" where
  "log_holds bs s \<longleftrightarrow> l_dev (the_log s) = 1 \<and> lh_n (the_log s) = int (length bs) \<and> length (lh_block (the_log s)) = LOGSIZE
     \<and> take (length bs) (lh_block (the_log s)) = bs \<and> trans_ok (l_start (the_log s)) (disksize s) bs"

lemma log_holdsD:
  assumes "log_holds bs s"
  shows "l_dev (the_log s) = 1" "lh_n (the_log s) = int (length bs)" "trans_ok (l_start (the_log s)) (disksize s) bs"
    "length bs < length (lh_block (the_log s))" "k < length bs \<Longrightarrow> lh_block (the_log s) ! k = bs ! k"
proof -
  show "lh_block (the_log s) ! k = bs ! k" if "k < length bs"
    using assms that nth_take [of k "length bs" "lh_block (the_log s)"] by (simp add: log_holds_def)
qed (use assms in \<open>simp_all add: log_holds_def trans_ok_def\<close>)

lemma write_log_ok:
  assumes "calm p s" "core_ok (pid_of p s) {} c" "log_holds bs s" "clean c \<noteq> {}" "\<And>b. b \<in> set bs \<Longrightarrow> dirty_block c b"
  shows "\<exists>c'. write_log (with_core c s) = Ret () (with_core c' s)
     \<and> copies (pid_of p s) (log_block (l_start (the_log s))) (\<lambda>k. view c (bs ! k)) (length bs) c c'"
proof -
  let ?dst = "log_block (l_start (the_log s))"
  note h = log_holdsD [OF assms(3)] and t = trans_okD [OF log_holdsD(3) [OF assms(3)]]
  have st: "\<exists>d. write_log_block k (with_core a s) = Ret () (with_core d s) \<and> copied (pid_of p s) (bs ! k) (?dst k) a d"
    if a: "k < length bs" "core_ok (pid_of p s) {} a" "clean c \<subseteq> clean a"
      "\<And>b. dirty_block a b \<longleftrightarrow> b \<notin> ?dst ` {..<k} \<and> dirty_block c b" for k a
  proof -
    have "bs ! k \<notin> ?dst ` {..<k}" using t(7) a(1) by (force simp: image_iff)
    then have "dirty_block a (bs ! k)" using a(1,4) assms(5) by simp
    then show ?thesis using write_log_block_ok [OF assms(1) a(2) h(1), of k] a(1,3) assms(4) h(4,5) t(2) [OF a(1)] t(5) [OF a(1)] t(7) [of k k]
      by (auto simp: log_block_def)
  qed
  have fr: "bs ! k \<notin> ?dst ` {..<k}" if "k < length bs" for k using t(7) that by (force simp: image_iff)
  have "\<exists>c'. each write_log_block [0..<length bs] (with_core c s) = Ret () (with_core c' s)
     \<and> copies (pid_of p s) ?dst (\<lambda>k. view c (bs ! k)) (length bs) c c'"
    unfolding copies_def
    by (rule copy_loop [where src = "\<lambda>k. bs ! k" and n = "length bs"]) (use assms(2) st fr in blast)+
  then show ?thesis using h(2) by (simp add: write_log_def)
qed

lemma install_trans_ok:
  assumes "calm p s" "core_ok (pid_of p s) {} c" "log_holds bs s" "clean c \<noteq> {}"
    and "(\<forall>b \<in> set bs. dirty_block c b) \<or> 2 \<le> card (clean c)"
  shows "\<exists>c'. install_trans (with_core c s) = Ret () (with_core c' s)
     \<and> copies (pid_of p s) (\<lambda>k. bs ! k) (\<lambda>k. view c (log_block (l_start (the_log s)) k)) (length bs) c c'"
proof -
  let ?src = "log_block (l_start (the_log s))"
  note h = log_holdsD [OF assms(3)] and t = trans_okD [OF log_holdsD(3) [OF assms(3)]]
  have st: "\<exists>d. install_block k (with_core a s) = Ret () (with_core d s) \<and> copied (pid_of p s) (?src k) (bs ! k) a d"
    if a: "k < length bs" "core_ok (pid_of p s) {} a" "clean c \<subseteq> clean a"
      "\<And>b. dirty_block a b \<longleftrightarrow> b \<notin> (\<lambda>k. bs ! k) ` {..<k} \<and> dirty_block c b" for k a
  proof -
    have "bs ! k \<notin> (\<lambda>k. bs ! k) ` {..<k}" using inj_on_image_mem_iff [OF t(8), of k "{..<k}"] a(1) by auto
    moreover have "card (clean c) \<le> card (clean a)" using a(3) by (intro card_mono) (simp_all add: clean_def)
    ultimately have "dirty_block a (bs ! k) \<or> 2 \<le> card (clean a)" using a(1,4) assms(5) nth_mem by fastforce
    then show ?thesis using install_block_ok [OF assms(1) a(2) h(1), of k] a(1,3) assms(4) h(4,5) t(2) [OF a(1)] t(5) [OF a(1)] t(7) [of k k]
      by (auto simp: log_block_def)
  qed
  have fr: "?src k \<notin> (\<lambda>k. bs ! k) ` {..<k}" if "k < length bs" for k
    using t(7) [OF that] that less_trans by (auto simp: image_iff dest: sym)
  have "\<exists>c'. each install_block [0..<length bs] (with_core c s) = Ret () (with_core c' s)
     \<and> copies (pid_of p s) (\<lambda>k. bs ! k) (\<lambda>k. view c (?src k)) (length bs) c c'"
    unfolding copies_def
    by (rule copy_loop [where src = ?src and n = "length bs"]) (use assms(2) st fr in blast)+
  then show ?thesis using h(2) by (simp add: install_trans_def)
qed

section \<open>Recovery\<close>

text \<open>The contents of the disk while the transaction is written to its blocks, and the transaction as the disk has it in its log.\<close>

definition installed :: "u32 \<Rightarrow> u32 list \<Rightarrow> (nat \<Rightarrow> block) \<Rightarrow> nat \<Rightarrow> nat \<Rightarrow> block" where
  "installed st bs X = upd_seq (\<lambda>k. unat (bs ! k)) (\<lambda>k. X (unat (log_block st k))) X"

definition on_disk :: "u32 \<Rightarrow> u32 list \<Rightarrow> (nat \<Rightarrow> block) \<Rightarrow> bool" where
  "on_disk st bs X \<longleftrightarrow> word_at (X (unat st)) 0 = of_nat (length bs)
     \<and> (\<forall>k < length bs. word_at (X (unat st)) (4 + 4 * k) = bs ! k)"

lemma put_word_0: "head_data bs 0 d = put_word 0 0 d"
  by (simp add: head_data_def)

lemma upd_seq_cong: "(\<And>k. k < n \<Longrightarrow> v k = v' k) \<Longrightarrow> m \<le> n \<Longrightarrow> upd_seq a v D m = upd_seq a v' D m"
  by (induction m) simp_all

lemma copies_cong: "(\<And>k. k < n \<Longrightarrow> v k = v' k) \<Longrightarrow> copies pid dst v n c c' = copies pid dst v' n c c'"
proof -
  assume a: "\<And>k. k < n \<Longrightarrow> v k = v' k"
  have u: "upd_seq x v D m = upd_seq x v' D m" if "m \<le> n" for x D m using upd_seq_cong [OF a that] .
  have w: "map (upd_seq x v D) (rev [0..<n]) = map (upd_seq x v' D) (rev [0..<n])" for x D using u [of _ x D] by (intro map_cong refl) simp
  show ?thesis unfolding copies_def by (simp only: u [OF order_refl] w)
qed

text \<open>\<^verbatim>\<open>write_head\<close> once the transaction is installed.\<close>

lemma clear_head_ok:
  assumes "calm p s" "core_ok (pid_of p s) {} c" "l_dev (the_log s) = 1" "l_start (the_log s) < disksize s" "clean c \<noteq> {}"
  shows "\<exists>c'. write_head (upd_log (\<lambda>l. l\<lparr>lh_n := 0\<rparr>) (with_core c s)) = Ret () (with_core c' (upd_log (\<lambda>l. l\<lparr>lh_n := 0\<rparr>) s))
     \<and> stored (pid_of p s) (put_word 0 0 (view c (l_start (the_log s)))) (l_start (the_log s)) c c'"
  using write_head_ok [of p "upd_log (\<lambda>l. l\<lparr>lh_n := 0\<rparr>) s" c 0] assms by (simp add: put_word_0)

lemma recover_ok:
  assumes "calm p s" "core_ok (pid_of p s) {} c" "\<And>b. \<not> dirty_block c b" "2 \<le> card (clean c)"
    and "l_dev (the_log s) = 1" "length (lh_block (the_log s)) = LOGSIZE"
  defines "st \<equiv> l_start (the_log s)"
  assumes "on_disk st bs (k_disk c)" "trans_ok st (disksize s) bs"
  shows "\<exists>c' l. recover_from_log (with_core c s) = Ret () (with_core c' (s\<lparr>the_log := l\<rparr>)) \<and> core_ok (pid_of p s) {} c'
     \<and> k_disk c' = (installed st bs (k_disk c) (length bs))(unat st := put_word 0 0 (k_disk c (unat st)))
     \<and> lh_n l = 0 \<and> l_start l = st \<and> (\<forall>b. \<not> dirty_block c' b)"
proof -
  note t = trans_okD [OF assms(9)]
  have v: "view c b = k_disk c (unat b)" for b using clean_view [OF assms(2,3)] .
  have cl: "clean c \<noteq> {}" using assms(4) by auto
  have n: "length bs < LOGSIZE" using assms(9) by (simp add: trans_ok_def)
  obtain c1 l where r1: "read_head (with_core c s) = Ret () (with_core c1 (s\<lparr>the_log := l\<rparr>))" "looked (pid_of p s) c c1"
    "log_holds bs (s\<lparr>the_log := l\<rparr>)" "l_start l = st" "l_dev l = 1" "lh_n l = int (length bs)"
  proof -
    obtain c1 ws where w: "read_head (with_core c s) = Ret () (with_core c1 (s\<lparr>the_log := (the_log s)\<lparr>lh_n := int (length bs), lh_block := ws\<rparr>\<rparr>))"
      "looked (pid_of p s) c c1" "length ws = LOGSIZE" "\<forall>i < length bs. ws ! i = word_at (view c st) (4 + 4 * i)"
      using read_head_ok [OF assms(1,2,5), of "length bs"] t(1) assms(6,8) cl n v
      by (auto simp: st_def [symmetric] on_disk_def LOGSIZE_def MAXOPBLOCKS_def)
    have "take (length bs) ws = bs"
      using w(3,4) n assms(8) by (intro nth_equalityI) (simp_all add: v on_disk_def)
    then show ?thesis
      using that [OF w(1,2)] w(3) assms(5,9) by (simp add: log_holds_def st_def [symmetric])
  qed
  let ?s = "s\<lparr>the_log := l\<rparr>"
  have k1: "core_ok (pid_of p ?s) {} c1" "view c1 = view c" "k_disk c1 = k_disk c" "dirty_block c1 = dirty_block c" "clean c1 = clean c"
    using r1(2) by (simp_all add: looked_def)
  obtain c2 where r2: "install_trans (with_core c1 ?s) = Ret () (with_core c2 ?s)"
    "copies (pid_of p ?s) (\<lambda>k. bs ! k) (\<lambda>k. view c1 (log_block (l_start (the_log ?s)) k)) (length bs) c1 c2"
    using install_trans_ok [OF _ k1(1) r1(3)] assms(1,4) cl k1(5) by auto
  have k2: "core_ok (pid_of p ?s) {} c2" "clean c2 \<noteq> {}" "\<And>b. \<not> dirty_block c2 b"
    "k_disk c2 = installed st bs (k_disk c) (length bs)" "view c2 st = k_disk c (unat st)"
  proof -
    have "st \<notin> (!) bs ` {..<length bs}" using t(6) by (force simp: image_iff)
    then show "view c2 st = k_disk c (unat st)" using r2(2) by (simp add: copies_def upd_seq_other k1 v)
  qed (use r2(2) assms(3) k1 cl in \<open>auto simp: copies_def v installed_def r1(4)\<close>)
  obtain c3 where r3: "write_head (upd_log (\<lambda>l. l\<lparr>lh_n := 0\<rparr>) (with_core c2 ?s)) = Ret () (with_core c3 (upd_log (\<lambda>l. l\<lparr>lh_n := 0\<rparr>) ?s))"
    "stored (pid_of p ?s) (put_word 0 0 (view c2 st)) st c2 c3"
    using clear_head_ok [of p ?s c2] assms(1) k2(1,2) r1(4,5) t(1) by auto
  show ?thesis
    by (intro exI [of _ c3] exI [of _ "l\<lparr>lh_n := 0\<rparr>"])
      (use r1(1,4) r2(1) r3 k2(3-5) in \<open>simp add: recover_from_log_def Let_def stored_def\<close>)
qed

section \<open>Commit\<close>

text \<open>The contents of the disk while the log is written, and with the header of the log in place.\<close>

definition logging :: "u32 \<Rightarrow> (nat \<Rightarrow> block) \<Rightarrow> (nat \<Rightarrow> block) \<Rightarrow> nat \<Rightarrow> nat \<Rightarrow> block" where
  "logging st v D = upd_seq (\<lambda>k. unat (log_block st k)) v D"

definition marked :: "u32 \<Rightarrow> (nat \<Rightarrow> block) \<Rightarrow> block \<Rightarrow> (nat \<Rightarrow> block) \<Rightarrow> nat \<Rightarrow> nat \<Rightarrow> block" where
  "marked st v h D n = (logging st v D n)(unat st := h)"

lemma logging_at:
  assumes "trans_ok st sz bs" "m \<le> length bs"
  shows "k < m \<Longrightarrow> logging st v D m (unat (log_block st k)) = v k" "logging st v D m (unat st) = D (unat st)"
    "a \<notin> log_area st \<Longrightarrow> logging st v D m a = D a"
proof -
  note t = trans_okD [OF assms(1)]
  have i: "inj_on (\<lambda>k. unat (log_block st k)) {..<length bs}"
    using t(4) by (simp add: inj_on_def word_unat_eq_iff)
  show "logging st v D m (unat (log_block st k)) = v k" if "k < m" unfolding logging_def by (rule upd_seq_at [OF i assms(2) that])
  have o: "x \<notin> (\<lambda>k. unat (log_block st k)) ` {..<m}" if "\<And>k. k < length bs \<Longrightarrow> x \<noteq> unat (log_block st k)" for x
    using that less_le_trans [OF _ assms(2)] by auto
  show "logging st v D m (unat st) = D (unat st)" unfolding logging_def
    by (rule upd_seq_other, rule o) (use t(3) word_unat_eq_iff in metis)
  show "logging st v D m a = D a" if "a \<notin> log_area st" unfolding logging_def
    by (rule upd_seq_other, rule o) (use that t(9) in metis)
qed

lemma commit_ok:
  assumes "calm p s" "core_ok (pid_of p s) {} c" "log_holds bs s" "bs \<noteq> []" "clean c \<noteq> {}" "\<And>b. b \<in> set bs \<Longrightarrow> dirty_block c b"
  defines "st \<equiv> l_start (the_log s)" and "n \<equiv> length bs" and "v \<equiv> \<lambda>k. view c (bs ! k)"
  defines "h \<equiv> head_data (lh_block (the_log s)) n (view c st)"
  defines "M \<equiv> marked st v h (k_disk c) n"
  shows "\<exists>c'. commit (with_core c s) = Ret () (with_core c' (upd_log (\<lambda>l. l\<lparr>lh_n := 0\<rparr>) s)) \<and> core_ok (pid_of p s) {} c'
     \<and> k_disk c' = (installed st bs M n)(unat st := put_word 0 0 h)
     \<and> k_hist c' = map (installed st bs M) (rev [0..<Suc n]) @ map (logging st v (k_disk c)) (rev [0..<Suc n]) @ k_hist c
     \<and> (\<forall>b. b \<notin> set bs \<and> unat b \<notin> log_area st \<longrightarrow> view c' b = view c b)
     \<and> (\<forall>b. dirty_block c' b \<longrightarrow> dirty_block c b \<and> b \<notin> set bs)"
proof -
  note g = log_holdsD [OF assms(3)] and t = trans_okD [OF log_holdsD(3) [OF assms(3)], folded st_def n_def]
  obtain c1 where r1: "write_log (with_core c s) = Ret () (with_core c1 s)" "copies (pid_of p s) (log_block st) v n c c1"
    using write_log_ok [OF assms(1-3,5,6)] by (auto simp: st_def n_def v_def)
  have st1: "st \<notin> log_block st ` {..<n}" using t(3) by (force simp: image_iff)
  have k1: "core_ok (pid_of p s) {} c1" "clean c1 \<noteq> {}" "view c1 st = view c st" "k_disk c1 = logging st v (k_disk c) n"
    "k_hist c1 = map (logging st v (k_disk c)) (rev [0..<n]) @ k_hist c" "view c1 = upd_seq (log_block st) v (view c) n"
    "\<And>b. dirty_block c1 b \<longleftrightarrow> b \<notin> log_block st ` {..<n} \<and> dirty_block c b"
    using r1(2) assms(5) st1 by (auto simp: copies_def logging_def upd_seq_other)
  obtain c2 where r2: "write_head (with_core c1 s) = Ret () (with_core c2 s)" "stored (pid_of p s) h st c1 c2"
    using write_head_ok [OF assms(1) k1(1) g(1,2) less_imp_le [OF g(4)] _ k1(2)] t(1) by (auto simp: st_def [symmetric] h_def n_def k1(3))
  have k2: "core_ok (pid_of p s) {} c2" "clean c2 \<noteq> {}" "k_disk c2 = M" "k_hist c2 = k_disk c1 # k_hist c1" "view c2 st = h"
    "view c2 = (view c1)(st := h)" "\<And>b. dirty_block c2 b \<longleftrightarrow> b \<noteq> st \<and> dirty_block c1 b"
    using r2(2) k1(2,4) by (auto simp: stored_def M_def marked_def)
  have "b \<noteq> st" "b \<notin> log_block st ` {..<n}" if "b \<in> set bs" for b
    using t(6,7) that by (fastforce simp: in_set_conv_nth n_def [symmetric])+
  then have d2: "\<forall>b \<in> set bs. dirty_block c2 b" using assms(6) by (simp add: k2(7) k1(7))
  obtain c3 where r3: "install_trans (with_core c2 s) = Ret () (with_core c3 s)"
    "copies (pid_of p s) (\<lambda>k. bs ! k) (\<lambda>k. view c2 (log_block st k)) n c2 c3"
    using install_trans_ok [OF assms(1) k2(1) assms(3) k2(2) disjI1 [OF d2]] by (auto simp: st_def n_def)
  have e: "view c2 (log_block st k) = M (unat (log_block st k))" if "k < n" for k
  proof -
    have "unat (log_block st k) \<noteq> unat st" using t(3) [OF that] by (simp add: word_unat_eq_iff)
    then have "M (unat (log_block st k)) = v k"
      using logging_at(1) [OF g(3), folded st_def n_def, of n k v "k_disk c"] that by (simp add: M_def marked_def)
    then show ?thesis using t(3) [OF that] upd_seq_at [OF t(4) order_refl that] by (simp add: k2(6) k1(6))
  qed
  have r3': "copies (pid_of p s) (\<lambda>k. bs ! k) (\<lambda>k. M (unat (log_block st k))) n c2 c3"
    using r3(2) copies_cong [of n, OF e] by simp
  have st3: "st \<notin> (!) bs ` {..<n}" using t(6) by (force simp: image_iff)
  have k3: "core_ok (pid_of p s) {} c3" "clean c3 \<noteq> {}" "k_disk c3 = installed st bs M n" "view c3 st = h"
    "k_hist c3 = map (installed st bs M) (rev [0..<n]) @ k_hist c2"
    using r3' k2(2,3,5) st3 by (auto simp: copies_def installed_def upd_seq_other)
  obtain c4 where r4: "write_head (upd_log (\<lambda>l. l\<lparr>lh_n := 0\<rparr>) (with_core c3 s)) = Ret () (with_core c4 (upd_log (\<lambda>l. l\<lparr>lh_n := 0\<rparr>) s))"
    "stored (pid_of p s) (put_word 0 0 h) st c3 c4"
    using clear_head_ok [OF assms(1) k3(1) g(1) _ k3(2)] t(1) k3(4) by (auto simp: st_def [symmetric])
  have n0: "0 < n" using assms(4) by (simp add: n_def)
  have "commit (with_core c s) = Ret () (with_core c4 (upd_log (\<lambda>l. l\<lparr>lh_n := 0\<rparr>) s))"
    using r1(1) r2(1) r3(1) r4(1) g(2) n0 by (simp add: commit_def Let_def n_def)
  moreover have "k_disk c4 = (installed st bs M n)(unat st := put_word 0 0 h)" "core_ok (pid_of p s) {} c4"
    using r4(2) k3(3) by (simp_all add: stored_def)
  moreover have "k_hist c4 = map (installed st bs M) (rev [0..<Suc n]) @ map (logging st v (k_disk c)) (rev [0..<Suc n]) @ k_hist c"
    using r4(2) by (simp add: stored_def k3(3,5) k2(4) k1(4,5))
  moreover have "view c4 b = view c b" if "b \<notin> set bs" "unat b \<notin> log_area st" for b
  proof -
    have "b \<notin> (!) bs ` {..<n}" using that(1) by (auto simp: n_def)
    moreover have "b \<notin> log_block st ` {..<n}" "b \<noteq> st" using that(2) t(9,10) by auto
    ultimately show ?thesis using r4(2) r3(2) by (simp add: stored_def copies_def upd_seq_other k2(6) k1(6))
  qed
  moreover have "dirty_block c b \<and> b \<notin> set bs" if "dirty_block c4 b" for b
    using that r4(2) r3(2) by (auto simp: stored_def copies_def k2(7) k1(7) in_set_conv_nth n_def)
  ultimately show ?thesis by (intro exI [of _ c4]) simp
qed

section \<open>A crash during the commit\<close>

text \<open>Two disks hold the same outside of the log, and the disk with the blocks of the transaction replaced.\<close>

definition agree :: "u32 \<Rightarrow> (nat \<Rightarrow> block) \<Rightarrow> (nat \<Rightarrow> block) \<Rightarrow> bool" where
  "agree st X Y \<longleftrightarrow> (\<forall>a. a \<notin> log_area st \<longrightarrow> X a = Y a)"

definition updated :: "u32 list \<Rightarrow> (u32 \<Rightarrow> block) \<Rightarrow> (nat \<Rightarrow> block) \<Rightarrow> nat \<Rightarrow> block" where
  "updated bs w D a = (if a \<in> unat ` set bs then w (of_nat a) else D a)"

lemma installed_at:
  assumes "trans_ok st sz bs" "m \<le> length bs"
  shows "k < m \<Longrightarrow> installed st bs X m (unat (bs ! k)) = X (unat (log_block st k))"
    "a \<notin> (\<lambda>k. unat (bs ! k)) ` {..<m} \<Longrightarrow> installed st bs X m a = X a" "a \<in> log_area st \<Longrightarrow> installed st bs X m a = X a"
proof -
  note t = trans_okD [OF assms(1)]
  have i: "inj_on (\<lambda>k. unat (bs ! k)) {..<length bs}" using t(8) by (simp add: inj_on_def word_unat_eq_iff)
  show "installed st bs X m (unat (bs ! k)) = X (unat (log_block st k))" if "k < m"
    unfolding installed_def by (rule upd_seq_at [OF i assms(2) that])
  show o: "installed st bs X m a = X a" if "a \<notin> (\<lambda>k. unat (bs ! k)) ` {..<m}" for a
    unfolding installed_def by (rule upd_seq_other [OF that])
  show "installed st bs X m a = X a" if "a \<in> log_area st"
    by (rule o) (use t(11) that less_le_trans [OF _ assms(2)] in auto)
qed

text \<open>The log is not changed by the installation, which may be repeated.\<close>

lemma installed_again:
  assumes "trans_ok st sz bs" "m \<le> length bs"
  shows "installed st bs (installed st bs X m) (length bs) = installed st bs X (length bs)"
proof
  fix a
  note t = trans_okD [OF assms(1)] and i = installed_at [OF assms(1)]
  show "installed st bs (installed st bs X m) (length bs) a = installed st bs X (length bs) a"
  proof (cases "a \<in> (\<lambda>k. unat (bs ! k)) ` {..<length bs}")
    case True
    then obtain k where "k < length bs" "a = unat (bs ! k)" by auto
    then show ?thesis using i(3) [OF assms(2)] t(9) by (simp add: i(1))
  next
    case False
    moreover have "a \<notin> (\<lambda>k. unat (bs ! k)) ` {..<m}" using False assms(2) by auto
    ultimately show ?thesis using i(2) [OF assms(2)] by (simp add: i(2))
  qed
qed

lemma installed_updated:
  assumes "trans_ok st sz bs" "\<And>k. k < length bs \<Longrightarrow> X (unat (log_block st k)) = w (bs ! k)" "agree st X D"
  shows "agree st (installed st bs X (length bs)) (updated bs w D)"
  unfolding agree_def
proof (intro allI impI)
  fix a
  assume a: "a \<notin> log_area st"
  note i = installed_at [OF assms(1) order_refl]
  show "installed st bs X (length bs) a = updated bs w D a"
  proof (cases "a \<in> (\<lambda>k. unat (bs ! k)) ` {..<length bs}")
    case True
    then obtain k where k: "k < length bs" "a = unat (bs ! k)" by auto
    then show ?thesis using assms(2) by (simp add: i(1) updated_def)
  next
    case False
    then have "a \<notin> unat ` set bs" by (auto simp: in_set_conv_nth)
    then show ?thesis using i(2) [OF False] assms(3) a by (simp add: updated_def agree_def)
  qed
qed

lemma crash_disks:
  fixes w :: "u32 \<Rightarrow> block"
  assumes "trans_ok st sz bs" "word_at (D (unat st)) 0 = 0" "\<And>a. length (D a) = BSIZE" "length h = BSIZE"
    and "word_at h 0 = of_nat (length bs)" "\<forall>k < length bs. word_at h (4 + 4 * k) = bs ! k"
  defines "M \<equiv> marked st (\<lambda>k. w (bs ! k)) h D (length bs)"
  shows "m \<le> length bs \<Longrightarrow> X = logging st (\<lambda>k. w (bs ! k)) D m \<Longrightarrow> on_disk st [] X \<and> agree st X D"
    "m \<le> length bs \<Longrightarrow> X = installed st bs M m \<Longrightarrow> on_disk st bs X \<and> agree st (installed st bs X (length bs)) (updated bs w D)"
    "X = (installed st bs M (length bs))(unat st := put_word 0 0 h) \<Longrightarrow> on_disk st [] X \<and> agree st X (updated bs w D)"
proof -
  note t = trans_okD [OF assms(1)] and l = logging_at [OF assms(1)] and i = installed_at [OF assms(1)]
  have "unat (log_block st k) \<noteq> unat st" if "k < length bs" for k using t(3) [OF that] by (simp add: word_unat_eq_iff)
  then have M: "M (unat (log_block st k)) = w (bs ! k)" if "k < length bs" for k
    using that l(1) [OF order_refl] by (simp add: M_def marked_def)
  have A: "agree st M D" using l(3) [OF order_refl] t(10) by (auto simp: agree_def M_def marked_def)
  have N: "agree st (installed st bs M (length bs)) (updated bs w D)" using installed_updated [OF assms(1) M A] .
  have S: "M (unat st) = h" by (simp add: M_def marked_def)
  show "on_disk st [] X \<and> agree st X D" if "m \<le> length bs" "X = logging st (\<lambda>k. w (bs ! k)) D m"
    using l(2,3) [OF that(1)] assms(2) that(2) by (simp add: on_disk_def agree_def)
  show "on_disk st bs X \<and> agree st (installed st bs X (length bs)) (updated bs w D)" if "m \<le> length bs" "X = installed st bs M m"
    using i(3) [OF that(1) t(10)] assms(5,6) N that(2) installed_again [OF assms(1) that(1)] by (simp add: on_disk_def S)
  show "on_disk st [] X \<and> agree st X (updated bs w D)" if "X = (installed st bs M (length bs))(unat st := put_word 0 0 h)"
    using that N t(10) assms(4) word_at_put [of 0 h 0] by (auto simp: on_disk_def agree_def BSIZE_def)
qed

section \<open>Ending an operation, and starting up\<close>

lemma log_mach: "s\<lparr>the_log := l\<rparr>\<lparr>mach := m\<rparr> = s\<lparr>mach := m, the_log := l\<rparr>"
  by (cases s) simp

lemma acquire_log:
  "calm p s \<Longrightarrow> kacquire lk (with_core c (s\<lparr>the_log := l\<rparr>)) = Ret () (with_core c (s\<lparr>mach := taken lk (mach s), the_log := l\<rparr>))"
  using kacquire_core [of p "s\<lparr>the_log := l\<rparr>" lk c] by (simp add: log_mach)

lemma release_log:
  assumes "calm p s"
  shows "krelease lk (with_core c (s\<lparr>mach := taken lk (mach s), the_log := l\<rparr>)) = Ret () (with_core c (s\<lparr>the_log := l\<rparr>))"
proof -
  have "(s\<lparr>mach := taken lk (mach s), the_log := l\<rparr>)\<lparr>mach := mach s\<rparr> = s\<lparr>the_log := l\<rparr>" by (cases s) simp
  then show ?thesis
    using calm_release [OF assms, of "with_core c (s\<lparr>mach := taken lk (mach s), the_log := l\<rparr>)" lk] by (simp add: with_core_mach)
qed

lemma wakeup_log:
  assumes "calm p s"
  shows "wakeup LogChan (with_core c (s\<lparr>mach := taken LogLock (mach s), the_log := l\<rparr>))
    = Ret () (with_core c (s\<lparr>mach := taken LogLock (mach s), the_log := l\<rparr>))"
  by (rule wakeup_none)
    (use calm_taken [OF assms, of "with_core c (s\<lparr>mach := taken LogLock (mach s), the_log := l\<rparr>)" LogLock]
      calm_no_sleepers [OF assms, of LogChan] in auto)

lemma end_op_commit:
  assumes "calm p s" "l_outstanding (the_log s) = 1" "\<not> l_committing (the_log s)"
    and "commit (with_core c (s\<lparr>the_log := (the_log s)\<lparr>l_outstanding := 0, l_committing := True\<rparr>\<rparr>)) = Ret () (with_core c' (s\<lparr>the_log := l\<rparr>))"
  shows "end_op (with_core c s) = Ret () (with_core c' (s\<lparr>the_log := l\<lparr>l_committing := False\<rparr>\<rparr>))"
  using assms acquire_log [OF assms(1), of LogLock c "the_log s"] acquire_log [OF assms(1), of LogLock c']
  by (simp add: end_op_def Let_def release_log wakeup_log)

text \<open>The machine is started with an empty cache, or one that holds nothing that is not on the disk.\<close>

definition restarted :: "nat \<Rightarrow> (nat \<Rightarrow> block) \<Rightarrow> u32 \<Rightarrow> 'x log_state_scheme \<Rightarrow> bool" where
  "restarted p X sz s \<longleftrightarrow> calm p s \<and> core_ok (pid_of p s) {} (core s) \<and> memdisk s = X \<and> disksize s = sz
     \<and> (\<forall>x \<in> set (bufs s). \<not> b_dirty x) \<and> 2 \<le> length (bufs s) \<and> length (lh_block (the_log s)) = LOGSIZE"

lemma restarted_clean:
  assumes "restarted p X sz s"
  shows "clean (core s) = {..<length (bufs s)}" "\<not> dirty_block (core s) b"
  using assms slot_SomeD [of b "core s"] by (auto simp: restarted_def clean_def dirty_block_def)

lemma readsb_ok:
  assumes "calm p s" "core_ok (pid_of p s) {} c" "1 < disksize s" "clean c \<noteq> {}"
  shows "\<exists>c' sb. readsb 1 (with_core c s) = Ret sb (with_core c' s) \<and> looked (pid_of p s) c c' \<and> sb_logstart sb = word_at (view c 1) 16"
proof -
  obtain i c1 where r: "bread 1 1 (with_core c s) = Ret i (with_core c1 s)" "core_ok (pid_of p s) {i} c1" "i < length (k_bufs c1)"
    "b_blockno (k_bufs c1 ! i) = 1" "b_data (k_bufs c1 ! i) = view c 1" "b_dirty (k_bufs c1 ! i) = dirty_block c 1" "view c1 = view c"
    "dirty_block c1 = dirty_block c" "k_disk c1 = k_disk c" "k_hist c1 = k_hist c" "clean c1 = clean c" "length (k_bufs c1) = length (k_bufs c)"
    using single_read [OF assms] .
  note e = look_rest [OF assms(1,2) r(2,4-12)]
  show ?thesis using r(1,5) e by (intro exI [of _ "released i c1"]) (simp add: readsb_def Let_def)
qed

lemma initlock_calm: "calm p s \<Longrightarrow> initlock lk (mach s) = mach s"
  using calmD(1) [of p s lk] by (simp add: initlock_def lockable_def free_lock_def fun_upd_idem)

lemma initlog_ok:
  assumes "restarted p X sz s" "1 < sz" "word_at (X 1) 16 = st" "on_disk st bs X" "trans_ok st sz bs"
  shows "\<exists>s'. initlog 1 s = Ret () s' \<and> memdisk s' = (installed st bs X (length bs))(unat st := put_word 0 0 (X (unat st)))"
proof -
  have a: "calm p s" "core_ok (pid_of p s) {} (core s)" "memdisk s = X" "disksize s = sz" "length (lh_block (the_log s)) = LOGSIZE"
    "2 \<le> length (bufs s)" using assms(1) by (simp_all add: restarted_def)
  note d = restarted_clean [OF assms(1)]
  have cl: "2 \<le> card (clean (core s))" "clean (core s) \<noteq> {}" using a(6) by (auto simp: d(1) lessThan_empty_iff)
  obtain c b where r: "readsb 1 (with_core (core s) s) = Ret b (with_core c s)" "looked (pid_of p s) (core s) c"
    "sb_logstart b = word_at (view (core s) 1) 16"
    using readsb_ok [OF a(1,2) _ cl(2)] assms(2) a(4) by auto
  have st: "sb_logstart b = st" using r(3) clean_view [OF a(2) d(2), of 1] a(3) assms(3) by simp
  have k: "core_ok (pid_of p s) {} c" "\<And>b. \<not> dirty_block c b" "2 \<le> card (clean c)" "k_disk c = X"
    using r(2) cl d(2) a(3) by (simp_all add: looked_def)
  define l where "l = (the_log s)\<lparr>l_start := st, l_size := sint (sb_nlog b), l_dev := 1\<rparr>"
  obtain c' l' where e: "recover_from_log (with_core c (s\<lparr>the_log := l\<rparr>)) = Ret () (with_core c' (s\<lparr>the_log := l\<rparr>\<lparr>the_log := l'\<rparr>))"
    "k_disk c' = (installed st bs X (length bs))(unat st := put_word 0 0 (X (unat st)))"
    using recover_ok [of p "s\<lparr>the_log := l\<rparr>" c bs] a(1,4,5) k assms(4,5) by (auto simp: l_def)
  have "initlog 1 s = Ret () (with_core c' (s\<lparr>the_log := l'\<rparr>))"
    using r(1) e(1) st initlock_calm [OF a(1), of LogLock] by (simp add: initlog_def Let_def l_def LOGSIZE_def BSIZE_def MAXOPBLOCKS_def)
  then show ?thesis using e(2) by (intro exI [of _ "with_core c' (s\<lparr>the_log := l'\<rparr>)"]) simp
qed

text \<open>A thread is about to end the only operation that is under way; its transaction is \<open>bs\<close>.\<close>

definition about_to_commit :: "nat \<Rightarrow> u32 list \<Rightarrow> 'x log_state_scheme \<Rightarrow> bool" where
  "about_to_commit p bs s \<longleftrightarrow> calm p s \<and> core_ok (pid_of p s) {} (core s) \<and> log_holds bs s \<and> bs \<noteq> []
     \<and> l_outstanding (the_log s) = 1 \<and> \<not> l_committing (the_log s)
     \<and> word_at (memdisk s (unat (l_start (the_log s)))) 0 = 0 \<and> \<not> dirty_block (core s) (l_start (the_log s))
     \<and> word_at (memdisk s 1) 16 = l_start (the_log s) \<and> 1 < disksize s \<and> 1 \<notin> set bs \<and> 1 \<notin> log_area (l_start (the_log s))
     \<and> (\<exists>x \<in> set (bufs s). \<not> b_dirty x) \<and> (\<forall>b \<in> set bs. dirty_block (core s) b)"

lemma end_op_ok:
  assumes "about_to_commit p bs s"
  defines "st \<equiv> l_start (the_log s)" and "n \<equiv> length bs" and "v \<equiv> \<lambda>k. view (core s) (bs ! k)"
  defines "h \<equiv> head_data (lh_block (the_log s)) n (memdisk s (unat st))"
  defines "M \<equiv> marked st v h (memdisk s) n"
  shows "\<exists>s'. end_op s = Ret () s' \<and> memdisk s' = (installed st bs M n)(unat st := put_word 0 0 h)
     \<and> disk_hist s' = map (installed st bs M) (rev [0..<Suc n]) @ map (logging st v (memdisk s)) (rev [0..<Suc n]) @ disk_hist s"
proof -
  have a: "calm p s" "core_ok (pid_of p s) {} (core s)" "log_holds bs s" "bs \<noteq> []" "l_outstanding (the_log s) = 1"
    "\<not> l_committing (the_log s)" "\<not> dirty_block (core s) st" "\<And>b. b \<in> set bs \<Longrightarrow> dirty_block (core s) b" "\<exists>x \<in> set (bufs s). \<not> b_dirty x"
    using assms(1) by (auto simp: about_to_commit_def st_def)
  define l where "l = (the_log s)\<lparr>l_outstanding := 0, l_committing := True\<rparr>"
  have l: "log_holds bs (s\<lparr>the_log := l\<rparr>)" "l_start l = st" "lh_block l = lh_block (the_log s)"
    using a(3) by (simp_all add: log_holds_def l_def st_def)
  have cl: "clean (core s) \<noteq> {}" using a(9) by (auto simp: clean_def in_set_conv_nth)
  have vst: "view (core s) st = memdisk s (unat st)" using clean_view [OF a(2,7)] by simp
  obtain c' where c': "commit (with_core (core s) (s\<lparr>the_log := l\<rparr>)) = Ret () (with_core c' (s\<lparr>the_log := l\<lparr>lh_n := 0\<rparr>\<rparr>))"
    "k_disk c' = (installed st bs M n)(unat st := put_word 0 0 h)"
    "k_hist c' = map (installed st bs M) (rev [0..<Suc n]) @ map (logging st v (memdisk s)) (rev [0..<Suc n]) @ disk_hist s"
    using commit_ok [of p "s\<lparr>the_log := l\<rparr>" "core s" bs] a(1,2,4,8) l cl
    by (auto simp: v_def n_def M_def h_def vst)
  from end_op_commit [OF a(1,5,6) c'(1) [unfolded l_def]] c'(2,3) show ?thesis by auto
qed

lemma restart_ok:
  assumes "on_disk st bs X" "trans_ok st sz bs" "agree st (installed st bs X (length bs)) Y" "word_at (Y 1) 16 = st"
    and "1 \<notin> log_area st" "1 \<notin> set bs" "1 < sz" "restarted q X sz r"
  shows "\<exists>r'. initlog 1 r = Ret () r' \<and> agree st (memdisk r') Y"
proof -
  have "(1 :: nat) \<noteq> unat (bs ! k)" if "k < length bs" for k
  proof
    assume "1 = unat (bs ! k)"
    then have "bs ! k = 1" by (simp add: word_unat_eq_iff)
    then show False using assms(6) nth_mem [OF that] by simp
  qed
  then have "installed st bs X (length bs) 1 = X 1" by (intro installed_at(2) [OF assms(2) order_refl]) auto
  then have "word_at (X 1) 16 = st" using assms(3-5) by (simp add: agree_def)
  from initlog_ok [OF assms(8,7) this assms(1,2)] obtain r' where
    "initlog 1 r = Ret () r'" "memdisk r' = (installed st bs X (length bs))(unat st := put_word 0 0 (X (unat st)))" by blast
  then show ?thesis using assms(3) trans_okD(10) [OF assms(2)] by (intro exI [of _ r']) (auto simp: agree_def)
qed

lemma trans_ok_Nil: "trans_ok st sz bs \<Longrightarrow> trans_ok st sz []"
  by (simp add: trans_ok_def)

lemma installed_Nil [simp]: "installed st [] X 0 = X"
  by (simp add: installed_def)

text \<open>C1. The commit of a transaction is atomic with respect to crashes. \<^verbatim>\<open>end_op\<close> of the last operation
  returns, and the blocks of the transaction are then on the disk. Whatever write the machine stops
  after, \<^verbatim>\<open>initlog\<close> at the next start returns and leaves, outside of the log, the disk of before the
  commit or the disk with all blocks of the transaction replaced; once \<^verbatim>\<open>end_op\<close> has returned, the latter.\<close>

theorem crash_atomic:
  assumes "about_to_commit p bs s"
  defines "st \<equiv> l_start (the_log s)" and "old \<equiv> memdisk s" and "new \<equiv> updated bs (view (core s)) (memdisk s)"
  shows "\<exists>s' hs. end_op s = Ret () s' \<and> disk_hist s' = hs @ disk_hist s \<and> agree st (memdisk s') new
     \<and> (\<forall>X \<in> set hs. \<forall>q r. restarted q X (disksize s) r \<longrightarrow>
          (\<exists>r'. initlog 1 r = Ret () r' \<and> (agree st (memdisk r') old \<or> agree st (memdisk r') new)))
     \<and> (\<forall>q r. restarted q (memdisk s') (disksize s) r \<longrightarrow> (\<exists>r'. initlog 1 r = Ret () r' \<and> agree st (memdisk r') new))"
proof -
  let ?n = "length bs" and ?v = "\<lambda>k. view (core s) (bs ! k)"
  define h where "h = head_data (lh_block (the_log s)) ?n (memdisk s (unat st))"
  define M where "M = marked st ?v h (memdisk s) ?n"
  define I where "I = map (installed st bs M) (rev [0..<Suc ?n])"
  define L where "L = map (logging st ?v (memdisk s)) (rev [0..<Suc ?n])"
  have sets: "set I = installed st bs M ` {..?n}" "set L = logging st ?v (memdisk s) ` {..?n}"
    unfolding I_def L_def set_map set_rev set_upt by auto
  have a: "core_ok (pid_of p s) {} (core s)" "log_holds bs s" "word_at (memdisk s (unat st)) 0 = 0" "word_at (memdisk s 1) 16 = st"
    "1 < disksize s" "1 \<notin> set bs" "1 \<notin> log_area st" using assms(1) by (simp_all add: about_to_commit_def st_def)
  have t: "trans_ok st (disksize s) bs" and n: "?n \<le> 127"
    using a(2) by (simp_all add: log_holds_def st_def trans_ok_def LOGSIZE_def MAXOPBLOCKS_def)
  have D: "length (memdisk s x) = BSIZE" for x using a(1) by (simp add: core_ok_def)
  have H: "length h = BSIZE" "word_at h 0 = of_nat ?n" "\<forall>k < ?n. word_at h (4 + 4 * k) = bs ! k"
    using head_data_words [OF D n] log_holdsD(5) [OF a(2)] by (simp_all add: h_def D)
  note c = crash_disks [of st "disksize s" bs "memdisk s" h, OF t a(3) D H, where w = "view (core s)", folded M_def]
  obtain s' where e: "end_op s = Ret () s'" "memdisk s' = (installed st bs M ?n)(unat st := put_word 0 0 h)" "disk_hist s' = (I @ L) @ disk_hist s"
    using end_op_ok [OF assms(1)] by (auto simp: st_def h_def M_def I_def L_def)
  have "1 \<notin> unat ` set bs"
  proof
    assume "1 \<in> unat ` set bs"
    then obtain b where "b \<in> set bs" "unat b = 1" by auto
    then have "b = 1" by (simp add: word_unat_eq_iff)
    then show False using a(6) \<open>b \<in> set bs\<close> by simp
  qed
  then have s1: "word_at (new 1) 16 = st" "word_at (old 1) 16 = st" using a(4) by (simp_all add: new_def old_def updated_def)
  have fin: "on_disk st [] (memdisk s')" "agree st (memdisk s') new" using c(3) [OF e(2)] by (simp_all add: new_def)
  have "\<exists>r'. initlog 1 r = Ret () r' \<and> agree st (memdisk r') new" if "restarted q (memdisk s') (disksize s) r" for q r
    by (rule restart_ok [OF fin(1) trans_ok_Nil [OF t]]) (use fin s1 a(5,7) that in auto)
  moreover have "\<exists>r'. initlog 1 r = Ret () r' \<and> agree st (memdisk r') old" if X: "X \<in> set L" "restarted q X (disksize s) r" for X q r
  proof -
    obtain m where "m \<le> ?n" "X = logging st ?v (memdisk s) m" using X(1) by (auto simp: sets)
    from c(1) [OF this] show ?thesis
      by (intro restart_ok [OF _ trans_ok_Nil [OF t]]) (use s1 a(5,7) X(2) in \<open>auto simp: old_def\<close>)
  qed
  moreover have "\<exists>r'. initlog 1 r = Ret () r' \<and> agree st (memdisk r') new" if X: "X \<in> set I" "restarted q X (disksize s) r" for X q r
  proof -
    obtain m where "m \<le> ?n" "X = installed st bs M m" using X(1) by (auto simp: sets)
    from c(2) [OF this] show ?thesis
      by (intro restart_ok [OF _ t]) (use s1 a(5-7) X(2) in \<open>auto simp: new_def\<close>)
  qed
  ultimately show ?thesis using e(1,3) fin(2) by (intro exI [of _ s'] exI [of _ "I @ L"]) (simp, blast)
qed

text \<open>A disk with a super block that places the log at block 2, a transaction with block 40, and the same
  machine after a restart.\<close>

definition log_demo_disk :: "nat \<Rightarrow> block" where
  "log_demo_disk = (\<lambda>_. replicate BSIZE 0)(1 := put_word 16 2 (replicate BSIZE 0))"

definition log_demo :: "buf list \<Rightarrow> log_rec \<Rightarrow> log_state" where
  "log_demo xs l = with_core (demo_core xs log_demo_disk)
     \<lparr>mach = running_machine, mem = mem demo, kmem_use_lock = True, kmem_freelist = kmem_freelist demo, k_end = k_end demo, k_data = k_data demo,
      procs = procs demo, threads = threads demo, initproc = Some 0, nextpid = 3, nexttid = 4, mlfq = boot_mlfq, ticks = 0, kpgdir = kpgdir demo,
      k_forkret = k_forkret demo, k_trapret = k_trapret demo, sleeplocks = \<lambda>_. \<lparr>sl_locked = False, sl_pid = 0\<rparr>,
      bufs = [], lru = [], memdisk = log_demo_disk, disksize = 40000, disk_hist = [], the_log = l\<rparr>"

definition log_demo_rec :: log_rec where
  "log_demo_rec = \<lparr>l_start = 2, l_size = 30, l_outstanding = 1, l_committing = False, l_dev = 1, lh_n = 1, lh_block = replicate LOGSIZE 40\<rparr>"

definition log_demo_buf :: buf where
  "log_demo_buf = \<lparr>b_valid = True, b_dirty = True, b_dev = 1, b_blockno = 40, b_refcnt = 0, b_data = replicate BSIZE 7\<rparr>"

lemma log_demo_sel [simp]:
  "memdisk (log_demo xs l) = log_demo_disk" "disksize (log_demo xs l) = 40000" "the_log (log_demo xs l) = l"
  "bufs (log_demo xs l) = xs @ replicate (NBUF - length xs) empty_buf" "core (log_demo xs l) = demo_core xs log_demo_disk"
  "calm (Suc 0) (log_demo xs l)"
  by (simp_all add: log_demo_def demo_core_def calm_demo [simplified])

lemma log_demo_disk_length: "length (log_demo_disk n) = BSIZE"
  by (simp add: log_demo_disk_def byte_of_put)

lemma log_demo_restarted: "restarted 1 log_demo_disk 40000 (log_demo [] log_demo_rec)"
  using demo_core_0 [of log_demo_disk] log_demo_disk_length
  by (simp add: restarted_def log_demo_rec_def NBUF_def MAXOPBLOCKS_def empty_buf_def)

lemma log_demo_slot: "slot b (demo_core [log_demo_buf] X) = (if b = 40 then Some 0 else None)"
proof (cases "b = 40")
  case True
  then show ?thesis
    by (simp add: slot_def first_such_def demo_core_def holds_block_def log_demo_buf_def)
next
  case False
  then show ?thesis
    by (auto simp: slot_None demo_core_def holds_block_def log_demo_buf_def empty_buf_def nth_Cons')
qed

lemma log_demo_about: "about_to_commit 1 [40] (log_demo [log_demo_buf] log_demo_rec)"
proof -
  have "word_at (put_word 16 2 (replicate BSIZE 0)) 16 = 2" by (simp add: word_at_put BSIZE_def)
  moreover have "word_at (replicate BSIZE 0) 0 = 0" by (simp add: word_at_def BSIZE_def join4_def)
  moreover have "dirty_block (demo_core [log_demo_buf] X) b \<longleftrightarrow> b = 40" for X b
    by (simp add: dirty_block_def log_demo_slot) (simp add: demo_core_def log_demo_buf_def)
  ultimately show ?thesis
    using demo_core_1 [of log_demo_disk "replicate BSIZE 7" _ 40, folded log_demo_buf_def] log_demo_disk_length
    by (simp add: about_to_commit_def log_holds_def trans_ok_def log_area_def log_demo_rec_def LOGSIZE_def MAXOPBLOCKS_def
        log_demo_disk_def NBUF_def) (simp add: empty_buf_def)
qed

theorem crash_atomic_witness:
  "\<exists>s'. end_op (log_demo [log_demo_buf] log_demo_rec) = Ret () s' \<and> memdisk s' 40 = replicate BSIZE 7
     \<and> about_to_commit 1 [40] (log_demo [log_demo_buf] log_demo_rec) \<and> restarted 1 log_demo_disk 40000 (log_demo [] log_demo_rec)"
proof -
  obtain s' where e: "end_op (log_demo [log_demo_buf] log_demo_rec) = Ret () s'"
    and g: "agree 2 (memdisk s') (updated [40] (view (demo_core [log_demo_buf] log_demo_disk)) log_demo_disk)"
    using crash_atomic [OF log_demo_about] by (auto simp: log_demo_rec_def)
  have "view (demo_core [log_demo_buf] log_demo_disk) 40 = replicate BSIZE 7"
    by (simp add: view_def log_demo_slot) (simp add: demo_core_def log_demo_buf_def)
  then have "memdisk s' 40 = replicate BSIZE 7"
    using g [unfolded agree_def, rule_format, of 40] by (simp add: log_area_def LOGSIZE_def MAXOPBLOCKS_def updated_def)
  then show ?thesis using e log_demo_about log_demo_restarted by blast
qed

end
