(* ===== verification/Sample.thy ===== *)
theory Sample
  imports Syscall Recovery
begin

text \<open>
  A whole kernel state, for examples: two CPUs of which one runs thread 1 of process 1, no lock held, an empty cache over
  a small disk, no open file and an empty pipe at every address.
\<close>

definition empty_pipe :: pipe where
  "empty_pipe = \<lparr>pi_data = replicate PIPESIZE 0, pi_nread = 0, pi_nwrite = 0, pi_readopen = True, pi_writeopen = True\<rparr>"

definition sample :: trap_state where
  "sample = \<lparr>mach = running_machine, mem = mem demo, kmem_use_lock = True, kmem_freelist = kmem_freelist demo, k_end = k_end demo, k_data = k_data demo,
     procs = procs demo, threads = threads demo, initproc = Some 0, nextpid = 3, nexttid = 4, mlfq = boot_mlfq, ticks = 0, kpgdir = kpgdir demo,
     k_forkret = k_forkret demo, k_trapret = k_trapret demo, sleeplocks = \<lambda>_. \<lparr>sl_locked = False, sl_pid = 0\<rparr>,
     bufs = replicate NBUF empty_buf, lru = [0..<NBUF], memdisk = log_demo_disk, disksize = 40000, disk_hist = [], the_log = log_demo_rec,
     inodes = [], sb = \<lparr>sb_size = 40000, sb_nblocks = 39800, sb_ninodes = 200, sb_nlog = 30, sb_logstart = 2, sb_inodestart = 32, sb_bmapstart = 58\<rparr>,
     panicked = False, cons_locking = True, input_buf = replicate INPUT_BUF 0, input_r = 0, input_w = 0, input_e = 0,
     crt = \<lambda>_. 0, crt_pos = 0, uart = True, serial = [], devsw = [], pipes = \<lambda>_. empty_pipe, files = [], forkret_first = False,
     kbd_data = [], kbd_shift = 0, uart_in = [], idt = []\<rparr>"

lemma sample_sel [simp]:
  "mach sample = running_machine" "procs sample = procs demo" "threads sample = threads demo" "pipes sample = (\<lambda>_. empty_pipe)"
  "mem sample = mem demo" "bufs sample = replicate NBUF empty_buf" "lru sample = [0..<NBUF]" "memdisk sample = log_demo_disk"
  "disksize sample = 40000" "disk_hist sample = []" "the_log sample = log_demo_rec" "files sample = []" "inodes sample = []"
  by (simp_all add: sample_def)

lemma sample_calm: "calm (Suc 0) sample"
  by (simp add: calm_demo [simplified])

lemma sample_owned: "owned_sleepers sample"
  using demo_owned by (simp add: owned_sleepers_def)

lemma sample_core: "core sample = demo_core [] log_demo_disk"
  by (simp add: core_def demo_core_def) (simp add: sample_def)

end
