(* ===== verification/Pipequeue.thy ===== *)
theory Pipequeue
  imports Ring Frame Sample
begin

text \<open>
  Correctness of pipes. A pipe is a bounded queue of bytes, whose content is \<open>pipe_queue\<close>; the counters may
  wrap around. \<open>pipe_run\<close> are the runs of any number of readers and writers on a
  pipe, interleaved wherever one of them sleeps, with what was written to and read from it so far.
\<close>

section \<open>A pipe as a queue\<close>

interpretation pipe_ring: ring PIPESIZE
  by unfold_locales (simp_all add: PIPESIZE_def)

definition pipe_queue :: "pipe \<Rightarrow> u8 list" where
  "pipe_queue x = ring_contents PIPESIZE (pi_data x) (pi_nread x) (pi_nwrite x)"

definition pipe_ok :: "pipe \<Rightarrow> bool" where
  "pipe_ok x \<longleftrightarrow> length (pi_data x) = PIPESIZE \<and> length (pipe_queue x) \<le> PIPESIZE"

lemma pipe_full: "pi_nwrite x = pi_nread x + of_nat PIPESIZE \<longleftrightarrow> length (pipe_queue x) = PIPESIZE"
  by (simp add: pipe_queue_def pipe_ring.full_iff)

lemma pipe_empty: "pi_nread x = pi_nwrite x \<longleftrightarrow> pipe_queue x = []"
  by (auto simp: pipe_queue_def ring_contents_Nil)

text \<open>The assignments that write and read one byte.\<close>

abbreviation put_byte :: "u8 \<Rightarrow> pipe \<Rightarrow> pipe" where
  "put_byte c x \<equiv> x\<lparr>pi_data := (pi_data x)[unat (pi_nwrite x) mod PIPESIZE := c], pi_nwrite := pi_nwrite x + 1\<rparr>"

abbreviation drop_byte :: "pipe \<Rightarrow> pipe" where
  "drop_byte x \<equiv> x\<lparr>pi_nread := pi_nread x + 1\<rparr>"

lemma put_byte_ok:
  assumes "pipe_ok x" "length (pipe_queue x) < PIPESIZE"
  shows "pipe_ok (put_byte c x)" "pipe_queue (put_byte c x) = pipe_queue x @ [c]"
proof -
  show q: "pipe_queue (put_byte c x) = pipe_queue x @ [c]"
    using assms pipe_ring.put_contents [of "pi_data x" "pi_nwrite x" "pi_nread x" c] by (simp add: pipe_queue_def pipe_ok_def)
  show "pipe_ok (put_byte c x)" using assms q by (simp add: pipe_ok_def)
qed

lemma drop_byte_ok:
  assumes "pipe_ok x" "pipe_queue x \<noteq> []"
  shows "pipe_queue x = pi_data x ! (unat (pi_nread x) mod PIPESIZE) # pipe_queue (drop_byte x)" "pipe_ok (drop_byte x)"
proof -
  show q: "pipe_queue x = pi_data x ! (unat (pi_nread x) mod PIPESIZE) # pipe_queue (drop_byte x)"
    using assms(2) pipe_ring.take_contents [of "pi_nread x" "pi_nwrite x" "pi_data x"] pipe_empty [of x] by (simp add: pipe_queue_def)
  show "pipe_ok (drop_byte x)" using assms q by (simp add: pipe_ok_def)
qed

section \<open>What the operations do to the queue\<close>

lemma pipes_rest: "proc_state.more t = proc_state.more s \<Longrightarrow> pipes t = pipes s"
  by (cases s; cases t) simp

lemma keeps_pipes: "keeps proc_state.more (proc_state.more s) r \<Longrightarrow> pipes s = v \<Longrightarrow> keeps pipes v r"
  by (cases r) (auto dest: pipes_rest)

lemmas pipes_kept [keeps_intro] =
  on_mach_rest [OF refl, THEN keeps_pipes] wakeup_rest [OF refl, THEN keeps_pipes] go_to_sleep_rest [OF refl, THEN keeps_pipes]
  sleep_resume_rest [OF refl, THEN keeps_pipes]

lemma proc_dying_pipes [keeps_intro]: "pipes s = v \<Longrightarrow> keeps pipes v (proc_dying s)"
  unfolding proc_dying_def by (intro keeps_intro) simp_all

text \<open>The state in which a call returns or leaves its thread sleeping.\<close>

definition end_state :: "('s, 'a) outcome \<Rightarrow> 's option" where
  "end_state r = (case r of Ret v s \<Rightarrow> Some s | Pause (Sleeping c) s \<Rightarrow> Some s | _ \<Rightarrow> None)"

lemma end_state_simps [simp]:
  "end_state (Ret v s) = Some s" "end_state (Panic m) = None" "end_state (Undef m) = None" "end_state Hang = None"
  "end_state (Pause (Sleeping c) s) = Some s" "end_state (Pause (Spinning lk) s) = None" "end_state (Pause Switching s) = None"
  by (simp_all add: end_state_def)

lemma end_state_Pause: "end_state (Pause w s) = Some t \<Longrightarrow> s = t"
  by (cases w) simp_all

lemma keeps_end: "keeps g v r \<Longrightarrow> end_state r = Some t \<Longrightarrow> g t = v"
  by (cases r) (auto dest: end_state_Pause)

text \<open>\<open>k\<close> bytes of \<open>cs\<close> were appended to the pipe, and it is full if these are not all.\<close>

definition wrote :: "u32 \<Rightarrow> u8 list \<Rightarrow> nat \<Rightarrow> (u32 \<Rightarrow> pipe) \<Rightarrow> (u32 \<Rightarrow> pipe) \<Rightarrow> bool" where
  "wrote p cs k f g \<longleftrightarrow> k \<le> length cs \<and> pipe_ok (g p) \<and> pipe_queue (g p) = pipe_queue (f p) @ take k cs
     \<and> pi_nwrite (g p) = pi_nwrite (f p) + of_nat k \<and> pi_nread (g p) = pi_nread (f p) \<and> (\<forall>q. q \<noteq> p \<longrightarrow> g q = f q)
     \<and> (k < length cs \<longrightarrow> length (pipe_queue (g p)) = PIPESIZE)"

lemma wrote_Cons:
  assumes "pipe_ok (f p)" "length (pipe_queue (f p)) < PIPESIZE" "wrote p cs k (f(p := put_byte c (f p))) g"
  shows "wrote p (c # cs) (Suc k) f g"
  using assms put_byte_ok [OF assms(1,2), of c] by (auto simp: wrote_def)

lemma pipewrite_loop_end:
  "pipe_ok (pipes s p) \<Longrightarrow> end_state (pipewrite_loop p cs s) = Some t \<Longrightarrow>
     \<exists>k. wrote p cs k (pipes s) (pipes t) \<and> (pipewrite_loop p cs s = Ret True t \<longrightarrow> k = length cs)"
proof (induction cs arbitrary: s)
  case Nil
  then show ?case by (auto simp: wrote_def)
next
  case (Cons c cs)
  show ?case
  proof (cases "length (pipe_queue (pipes s p)) = PIPESIZE")
    case True
    let ?r = "andthen (if \<not> pi_readopen (pipes s p) then Ret True s else proc_dying s) (\<lambda>d s.
          if d then Ret False s
          else andthen (wakeup (PipeReadChan p) s) (\<lambda>_ s. go_to_sleep (PipeWriteChan p) (PipeLock p) s))"
    have r: "pipewrite_loop p (c # cs) s = ?r" using True by (simp add: pipe_full)
    have "keeps pipes (pipes s) ?r" by (intro keeps_intro) simp_all
    then have "pipes t = pipes s" using Cons.prems(2) unfolding r by (rule keeps_end)
    moreover have "?r \<noteq> Ret True t"
      by (auto simp: andthen_eq_Ret go_to_sleep_def split: if_splits)
    ultimately show ?thesis using Cons.prems(1) True r by (intro exI [of _ 0]) (simp add: wrote_def)
  next
    case False
    let ?s = "upd_pipe p (put_byte c) s"
    have r: "pipewrite_loop p (c # cs) s = pipewrite_loop p cs ?s" using False by (simp add: pipe_full)
    have l: "length (pipe_queue (pipes s p)) < PIPESIZE" using False Cons.prems(1) by (simp add: pipe_ok_def)
    have o: "pipe_ok (pipes ?s p)" using put_byte_ok(1) [OF Cons.prems(1) l] by simp
    have e: "end_state (pipewrite_loop p cs ?s) = Some t" using Cons.prems(2) unfolding r .
    from Cons.IH [OF o e] obtain k where "wrote p cs k (pipes ?s) (pipes t)" "pipewrite_loop p cs ?s = Ret True t \<longrightarrow> k = length cs"
      by blast
    then show ?thesis using wrote_Cons [of "pipes s" p cs k c "pipes t", OF Cons.prems(1) l] r by (intro exI [of _ "Suc k"]) simp
  qed
qed

lemma pipewrite_rest_end:
  assumes "pipe_ok (pipes s p)" "end_state (pipewrite_rest p n cs s) = Some t"
  shows "\<exists>k. wrote p cs k (pipes s) (pipes t) \<and> (pipewrite_rest p n cs s = Ret r t \<longrightarrow> r = - 1 \<or> r = int n \<and> k = length cs)"
proof (cases "pipewrite_loop p cs s")
  case (Ret b u)
  obtain k where k: "wrote p cs k (pipes s) (pipes u)" "b \<longrightarrow> k = length cs"
    using pipewrite_loop_end [OF assms(1), of cs u] Ret by auto
  let ?r = "if \<not> b then andthen (krelease (PipeLock p) u) (\<lambda>_ s. Ret (- 1) s)
       else andthen (wakeup (PipeReadChan p) u) (\<lambda>_ s. andthen (krelease (PipeLock p) s) (\<lambda>_ s. Ret (int n) s))"
  have e: "pipewrite_rest p n cs s = ?r" using Ret by (simp add: pipewrite_rest_def)
  have "keeps pipes (pipes u) ?r" by (intro keeps_intro) simp_all
  then have "pipes t = pipes u" using assms(2) unfolding e by (rule keeps_end)
  moreover have "?r = Ret r t \<longrightarrow> r = - 1 \<or> r = int n \<and> b" by (auto simp: andthen_eq_Ret split: if_splits)
  ultimately show ?thesis using k unfolding e by auto
next
  case (Pause w u)
  then have "end_state (pipewrite_loop p cs s) = Some t" using assms(2) by (simp add: pipewrite_rest_def end_state_def)
  from pipewrite_loop_end [OF assms(1) this] Pause show ?thesis by (auto simp: pipewrite_rest_def)
qed (use assms(2) in \<open>simp_all add: pipewrite_rest_def\<close>)

text \<open>The first \<open>k\<close> bytes of the queue, \<open>cs\<close>, were removed.\<close>

definition took :: "u32 \<Rightarrow> u8 list \<Rightarrow> (u32 \<Rightarrow> pipe) \<Rightarrow> (u32 \<Rightarrow> pipe) \<Rightarrow> bool" where
  "took p cs f g \<longleftrightarrow> pipe_ok (g p) \<and> pipe_queue (f p) = cs @ pipe_queue (g p) \<and> pi_nwrite (g p) = pi_nwrite (f p) \<and> (\<forall>q. q \<noteq> p \<longrightarrow> g q = f q)"

lemma piperead_copy_ok:
  assumes "pipe_ok (pipes s p)" "piperead_copy p n s = (cs, t)"
  shows "took p cs (pipes s) (pipes t) \<and> cs = take n (pipe_queue (pipes s p)) \<and> (\<exists>f. t = s\<lparr>pipes := f\<rparr>)"
  using assms
proof (induction n arbitrary: s cs)
  case 0
  then show ?case by (auto simp: took_def intro: exI [of _ "pipes s"])
next
  case (Suc n)
  show ?case
  proof (cases "pipe_queue (pipes s p) = []")
    case True
    then show ?thesis using Suc.prems by (auto simp: took_def pipe_empty intro: exI [of _ "pipes s"])
  next
    case False
    let ?s = "upd_pipe p drop_byte s"
    obtain ds where ds: "piperead_copy p n ?s = (ds, t)" "cs = pi_data (pipes s p) ! (unat (pi_nread (pipes s p)) mod PIPESIZE) # ds"
      using Suc.prems(2) False by (auto simp: pipe_empty Let_def split: prod.splits)
    have o: "pipe_ok (pipes ?s p)" using drop_byte_ok(2) [OF Suc.prems(1) False] by simp
    have i: "took p ds (pipes ?s) (pipes t)" "ds = take n (pipe_queue (pipes ?s p))" "\<exists>f. t = ?s\<lparr>pipes := f\<rparr>"
      using Suc.IH [OF o ds(1)] by blast+
    have q: "pipe_queue (pipes s p) = pi_data (pipes s p) ! (unat (pi_nread (pipes s p)) mod PIPESIZE) # pipe_queue (pipes ?s p)"
      using drop_byte_ok(1) [OF Suc.prems(1) False] by simp
    have "took p cs (pipes s) (pipes t)" using i(1) unfolding took_def q ds(2) by simp
    moreover have "cs = take (Suc n) (pipe_queue (pipes s p))" unfolding q ds(2) using i(2) by simp
    moreover have "\<exists>f. t = s\<lparr>pipes := f\<rparr>" using i(3) by auto
    ultimately show ?thesis by blast
  qed
qed

lemma piperead_rest_Ret:
  assumes "pipe_ok (pipes s p)" "piperead_rest p n s = Ret (r, cs) t"
  shows "took p cs (pipes s) (pipes t)" "r = - 1 \<and> cs = [] \<or> r = int (length cs) \<and> cs = take n (pipe_queue (pipes s p))"
proof -
  have "took p cs (pipes s) (pipes t) \<and> (r = - 1 \<and> cs = [] \<or> r = int (length cs) \<and> cs = take n (pipe_queue (pipes s p)))"
  proof (cases "pi_nread (pipes s p) = pi_nwrite (pipes s p) \<and> pi_writeopen (pipes s p)")
    case True
    then obtain d u where u: "proc_dying s = Ret d u" "(if d then andthen (krelease (PipeLock p) u) (\<lambda>_ s. Ret (- 1, []) s)
        else go_to_sleep (PipeReadChan p) (PipeLock p) u) = Ret (r, cs) t"
      using assms(2) by (auto simp: piperead_rest_def andthen_eq_Ret)
    have "keeps pipes (pipes s) (andthen (proc_dying s) (\<lambda>d s. if d then andthen (krelease (PipeLock p) s) (\<lambda>_ s. Ret (- 1 :: int, [] :: u8 list) s)
        else go_to_sleep (PipeReadChan p) (PipeLock p) s))" by (intro keeps_intro) simp_all
    then have "pipes t = pipes s" using u by simp
    then show ?thesis using u(2) assms(1) by (auto simp: took_def andthen_eq_Ret go_to_sleep_def split: if_splits)
  next
    case False
    obtain ds u where d: "piperead_copy p n s = (ds, u)" by (cases "piperead_copy p n s")
    have e: "andthen (wakeup (PipeWriteChan p) u) (\<lambda>_ s. andthen (krelease (PipeLock p) s) (\<lambda>_ s. Ret (int (length ds), ds) s)) = Ret (r, cs) t"
      using assms(2) False d by (auto simp: piperead_rest_def)
    have "keeps pipes (pipes u) (andthen (wakeup (PipeWriteChan p) u) (\<lambda>_ s. andthen (krelease (PipeLock p) s) (\<lambda>_ s. Ret (int (length ds), ds) s)))"
      by (intro keeps_intro) simp_all
    then have "pipes t = pipes u" using e by simp
    then show ?thesis using piperead_copy_ok [OF assms(1) d] e by (auto simp: andthen_eq_Ret)
  qed
  then show "took p cs (pipes s) (pipes t)" "r = - 1 \<and> cs = [] \<or> r = int (length cs) \<and> cs = take n (pipe_queue (pipes s p))" by blast+
qed

lemma piperead_rest_Sleeping:
  assumes "piperead_rest p n s = Pause (Sleeping c) t"
  shows "pipes t = pipes s"
proof (cases "pi_nread (pipes s p) = pi_nwrite (pipes s p) \<and> pi_writeopen (pipes s p)")
  case True
  have "keeps pipes (pipes s) (andthen (proc_dying s) (\<lambda>d s. if d then andthen (krelease (PipeLock p) s) (\<lambda>_ s. Ret (- 1 :: int, [] :: u8 list) s)
      else go_to_sleep (PipeReadChan p) (PipeLock p) s))" by (intro keeps_intro) simp_all
  then show ?thesis using True assms by (simp add: piperead_rest_def)
next
  case False
  have "awake (let (cs, s) = piperead_copy p n s in
        andthen (wakeup (PipeWriteChan p) s) (\<lambda>_ s.
        andthen (krelease (PipeLock p) s) (\<lambda>_ s. Ret (int (length cs), cs) s)))"
    by (simp split: prod.splits) (intro allI impI awake_intro, simp)
  moreover have "piperead_rest p n s = (let (cs, s) = piperead_copy p n s in
        andthen (wakeup (PipeWriteChan p) s) (\<lambda>_ s.
        andthen (krelease (PipeLock p) s) (\<lambda>_ s. Ret (int (length cs), cs) s)))"
    unfolding piperead_rest_def if_not_P [OF False] by (rule refl)
  ultimately have "awake (piperead_rest p n s)" by (simp only:)
  then show ?thesis using assms by simp
qed

section \<open>Readers and writers\<close>

text \<open>\<open>pipe_run p s i o\<close>: from an empty pipe \<open>p\<close>, the state \<open>s\<close> can be reached with the bytes \<open>i\<close> put into the pipe
  and the bytes \<open>o\<close> delivered to readers. A call may return or leave its thread asleep, a sleeping
  call goes on later with what it has not written, and between two steps any other code may run that does not touch the pipe.
  The counter \<^verbatim>\<open>nwrite\<close> tells how much of its bytes a call has put into the pipe.\<close>

abbreviation grown :: "u32 \<Rightarrow> 'x pipe_state_scheme \<Rightarrow> 'x pipe_state_scheme \<Rightarrow> nat" where
  "grown p s s' \<equiv> unat (pi_nwrite (pipes s' p) - pi_nwrite (pipes s p))"

inductive pipe_run :: "u32 \<Rightarrow> 'x pipe_state_scheme \<Rightarrow> u8 list \<Rightarrow> u8 list \<Rightarrow> bool" for p :: u32 where
  start: "length (pi_data (pipes s p)) = PIPESIZE \<Longrightarrow> pi_nread (pipes s p) = pi_nwrite (pipes s p) \<Longrightarrow> pipe_run p s [] []"
| writes: "pipe_run p s i out \<Longrightarrow> end_state (pipewrite p cs s) = Some s' \<Longrightarrow> pipe_run p s' (i @ take (grown p s s') cs) out"
| writes_on: "pipe_run p s i out \<Longrightarrow> end_state (pipewrite_resume p n cs t sw s) = Some s' \<Longrightarrow>
    pipe_run p s' (i @ take (grown p s s') cs) out"
| reads: "pipe_run p s i out \<Longrightarrow> piperead p n s = Ret (r, cs) s' \<Longrightarrow> pipe_run p s' i (out @ cs)"
| reads_wait: "pipe_run p s i out \<Longrightarrow> piperead p n s = Pause (Sleeping c) s' \<Longrightarrow> pipe_run p s' i out"
| reads_on: "pipe_run p s i out \<Longrightarrow> piperead_resume p n t sw s = Ret (r, cs) s' \<Longrightarrow> pipe_run p s' i (out @ cs)"
| reads_on_wait: "pipe_run p s i out \<Longrightarrow> piperead_resume p n t sw s = Pause (Sleeping c) s' \<Longrightarrow> pipe_run p s' i out"
| other: "pipe_run p s i out \<Longrightarrow> pipes s' p = pipes s p \<Longrightarrow> pipe_run p s' i out"

lemma wrote_grown: "wrote p cs k (pipes s) (pipes s') \<Longrightarrow> grown p s s' = k"
proof -
  assume a: "wrote p cs k (pipes s) (pipes s')"
  then have "length (pipe_queue (pipes s' p)) = length (pipe_queue (pipes s p)) + k" "length (pipe_queue (pipes s' p)) \<le> PIPESIZE"
    by (auto simp: wrote_def pipe_ok_def)
  then have "k < 2 ^ 32" by (simp add: PIPESIZE_def)
  then show ?thesis using a by (simp add: wrote_def unat_of_nat_small)
qed

lemma pipewrite_end:
  assumes "pipe_ok (pipes s p)" "end_state (pipewrite p cs s) = Some t"
  shows "wrote p cs (grown p s t) (pipes s) (pipes t)"
proof (cases "kacquire (PipeLock p) s")
  case (Ret x u)
  have "keeps pipes (pipes s) (kacquire (PipeLock p) s)" by (intro keeps_intro) simp_all
  then have u: "pipes u = pipes s" using Ret by simp
  have "end_state (pipewrite_rest p (length cs) cs u) = Some t" using assms(2) Ret by (simp add: pipewrite_def)
  then obtain k where "wrote p cs k (pipes s) (pipes t)" using pipewrite_rest_end [of u p "length cs" cs t] assms(1) u by auto
  then show ?thesis using wrote_grown by metis
next
  case (Pause w u)
  have "awake (kacquire (PipeLock p) s)" by (intro awake_intro)
  then show ?thesis using Pause assms(2) by (cases w) (simp_all add: pipewrite_def)
qed (use assms(2) in \<open>simp_all add: pipewrite_def\<close>)

lemma resume_lock:
  assumes "sleep_resume t (PipeLock p) sw s = r"
  shows "keeps pipes (pipes s) r" "awake r"
proof -
  show "keeps pipes (pipes s) r" unfolding assms [symmetric] by (intro keeps_intro) simp_all
  show "awake r" unfolding assms [symmetric] sleep_resume_def sched_resume_def
    by (cases sw) (auto intro!: awake_intro)
qed

lemma pipewrite_resume_end:
  assumes "pipe_ok (pipes s p)" "end_state (pipewrite_resume p n cs t sw s) = Some s'"
  shows "wrote p cs (grown p s s') (pipes s) (pipes s')"
proof (cases "sleep_resume t (PipeLock p) sw s")
  case (Ret x u)
  have u: "pipes u = pipes s" using resume_lock(1) [OF Ret] by simp
  have "end_state (pipewrite_rest p n cs u) = Some s'" using assms(2) Ret by (simp add: pipewrite_resume_def)
  then obtain k where "wrote p cs k (pipes s) (pipes s')" using pipewrite_rest_end [of u p n cs s'] assms(1) u by auto
  then show ?thesis using wrote_grown by metis
next
  case (Pause w u)
  show ?thesis using resume_lock(2) [OF Pause] Pause assms(2) by (cases w) (simp_all add: pipewrite_resume_def)
qed (use assms(2) in \<open>simp_all add: pipewrite_resume_def\<close>)

lemma acquire_then_read:
  assumes "keeps pipes (pipes s) r" "awake r" "pipe_ok (pipes s p)"
  shows "andthen r (\<lambda>_ s. piperead_rest p n s) = Ret (v, cs) t \<Longrightarrow> took p cs (pipes s) (pipes t)"
    "andthen r (\<lambda>_ s. piperead_rest p n s) = Pause (Sleeping c) t \<Longrightarrow> pipes t = pipes s"
proof -
  assume a: "andthen r (\<lambda>_ s. piperead_rest p n s) = Ret (v, cs) t"
  then obtain x u where u: "r = Ret x u" "piperead_rest p n u = Ret (v, cs) t" by (auto simp: andthen_eq_Ret)
  show "took p cs (pipes s) (pipes t)" using piperead_rest_Ret(1) [OF _ u(2)] assms(1,3) u(1) by simp
next
  assume a: "andthen r (\<lambda>_ s. piperead_rest p n s) = Pause (Sleeping c) t"
  show "pipes t = pipes s" using a assms(1,2) by (cases r) (auto dest: piperead_rest_Sleeping)
qed

lemma acquire_pipe: "keeps pipes (pipes s) (kacquire (PipeLock p) s)" "awake (kacquire (PipeLock p) s)"
  by (intro keeps_intro refl) (intro awake_intro)

lemmas pipe_reads = acquire_then_read [where p = p and r = "kacquire (PipeLock p) s" for p s, OF acquire_pipe, folded piperead_def]
  acquire_then_read [where p = p and r = "sleep_resume t (PipeLock p) sw s" for p t sw s, OF resume_lock [OF refl], folded piperead_resume_def]

lemma pipe_run_queue: "pipe_run p s i out \<Longrightarrow> pipe_ok (pipes s p) \<and> i = out @ pipe_queue (pipes s p)"
proof (induction rule: pipe_run.induct)
  case (start s)
  then show ?case using pipe_empty [of "pipes s p"] by (simp add: pipe_ok_def)
next
  case (writes s i out cs s')
  then show ?case using pipewrite_end [of s p cs s'] by (simp add: wrote_def)
next
  case (writes_on s i out n cs t sw s')
  then show ?case using pipewrite_resume_end [of s p n cs t sw s'] by (simp add: wrote_def)
next
  case (reads s i out n r cs s')
  then show ?case using pipe_reads(1) [OF conjunct1 [OF reads.IH] reads.hyps(2)] by (simp add: took_def)
next
  case (reads_wait s i out n c s')
  then show ?case using pipe_reads(2) [OF conjunct1 [OF reads_wait.IH] reads_wait.hyps(2)] by simp
next
  case (reads_on s i out n t sw r cs s')
  then show ?case using pipe_reads(3) [OF conjunct1 [OF reads_on.IH] reads_on.hyps(2)] by (simp add: took_def)
next
  case (reads_on_wait s i out n t sw c s')
  then show ?case using pipe_reads(4) [OF conjunct1 [OF reads_on_wait.IH] reads_on_wait.hyps(2)] by simp
next
  case (other s i out s')
  then show ?case by simp
qed

section \<open>Calls that need not wait\<close>

text \<open>Waking the threads on a channel and giving the pipe's lock back.\<close>

lemma wake_and_release:
  assumes "lockable PtableLock m" "lockable (PipeLock p) m" "mach s = taken (PipeLock p) m" "owned_sleepers s"
  shows "\<exists>s'. andthen (wakeup ch s) (\<lambda>_ s. andthen (krelease (PipeLock p) s) (\<lambda>_ s. Ret v s)) = Ret v s'
     \<and> pipes s' = pipes s \<and> threads s' = woken (sleeping_on ch) (threads s) \<and> mach s' = settle m"
proof -
  let ?u = "s\<lparr>threads := woken (sleeping_on ch) (threads s), procs := woken_procs (sleeping_on ch) (threads s) (procs s)\<rparr>"
  have l: "lockable PtableLock (mach s)" using assms(1,3) by simp
  have "settle (mach s) = mach s" using settle_taken [of m] assms(1,3) by simp
  then have w: "wakeup ch s = Ret () ?u" using wakeup_closed [OF l assms(4)] by simp
  have "krelease (PipeLock p) ?u = Ret () (?u\<lparr>mach := settle m\<rparr>)" using assms(2,3) by simp
  then show ?thesis using w by simp
qed

lemma pipewrite_loop_room:
  "pipe_ok (pipes s p) \<Longrightarrow> length (pipe_queue (pipes s p)) + length cs \<le> PIPESIZE \<Longrightarrow>
     \<exists>f. pipewrite_loop p cs s = Ret True (s\<lparr>pipes := f\<rparr>)"
proof (induction cs arbitrary: s)
  case Nil
  show ?case by (rule exI [of _ "pipes s"]) simp
next
  case (Cons c cs)
  let ?s = "upd_pipe p (put_byte c) s"
  have l: "length (pipe_queue (pipes s p)) < PIPESIZE" using Cons.prems(2) by simp
  note b = put_byte_ok [OF Cons.prems(1) l, of c]
  have "pipewrite_loop p (c # cs) s = pipewrite_loop p cs ?s" using l by (simp add: pipe_full)
  moreover have "\<exists>f. pipewrite_loop p cs ?s = Ret True (?s\<lparr>pipes := f\<rparr>)"
    using b Cons.prems(2) by (intro Cons.IH) simp_all
  ultimately show ?case by simp
qed

lemma pipewrite_room:
  assumes "lockable PtableLock (mach s)" "lockable (PipeLock p) (mach s)" "owned_sleepers s" "pipe_ok (pipes s p)"
    and "length (pipe_queue (pipes s p)) + length cs \<le> PIPESIZE"
  shows "\<exists>s'. pipewrite p cs s = Ret (int (length cs)) s' \<and> pipe_queue (pipes s' p) = pipe_queue (pipes s p) @ cs \<and> pipe_ok (pipes s' p)
     \<and> threads s' = woken (sleeping_on (PipeReadChan p)) (threads s) \<and> mach s' = settle (mach s)"
proof -
  let ?u = "s\<lparr>mach := taken (PipeLock p) (mach s)\<rparr>"
  obtain f where f: "pipewrite_loop p cs ?u = Ret True (?u\<lparr>pipes := f\<rparr>)"
    using pipewrite_loop_room [of ?u p cs] assms(4,5) by auto
  have w: "pipe_queue (f p) = pipe_queue (pipes s p) @ cs" "pipe_ok (f p)"
    using pipewrite_loop_end [of ?u p cs "?u\<lparr>pipes := f\<rparr>"] f assms(4) by (auto simp: wrote_def)
  have "owned_sleepers (?u\<lparr>pipes := f\<rparr>)" using assms(3) by (simp add: owned_sleepers_def)
  from wake_and_release [OF assms(1,2) _ this, of "PipeReadChan p" "int (length cs)"]
  obtain s' where "andthen (wakeup (PipeReadChan p) (?u\<lparr>pipes := f\<rparr>)) (\<lambda>_ s. andthen (krelease (PipeLock p) s) (\<lambda>_ s. Ret (int (length cs)) s)) = Ret (int (length cs)) s'"
    "pipes s' = f" "threads s' = woken (sleeping_on (PipeReadChan p)) (threads s)" "mach s' = settle (mach s)" by auto
  then show ?thesis using f w assms(2) by (intro exI [of _ s']) (simp add: pipewrite_def pipewrite_rest_def)
qed

lemma piperead_some:
  assumes "lockable PtableLock (mach s)" "lockable (PipeLock p) (mach s)" "owned_sleepers s" "pipe_ok (pipes s p)"
    and "pipe_queue (pipes s p) \<noteq> [] \<or> \<not> pi_writeopen (pipes s p)"
  defines "q \<equiv> pipe_queue (pipes s p)"
  shows "\<exists>s'. piperead p n s = Ret (int (min n (length q)), take n q) s' \<and> pipe_queue (pipes s' p) = drop n q \<and> pipe_ok (pipes s' p)
     \<and> threads s' = woken (sleeping_on (PipeWriteChan p)) (threads s) \<and> mach s' = settle (mach s)"
proof -
  let ?u = "s\<lparr>mach := taken (PipeLock p) (mach s)\<rparr>"
  obtain cs u where d: "piperead_copy p n ?u = (cs, u)" by (cases "piperead_copy p n ?u")
  have k: "took p cs (pipes s) (pipes u)" "cs = take n q" "\<exists>f. u = ?u\<lparr>pipes := f\<rparr>"
    using piperead_copy_ok [OF _ d] assms(4) by (auto simp: q_def)
  then obtain f where f: "u = ?u\<lparr>pipes := f\<rparr>" by blast
  have l: "int (length cs) = int (min n (length q))" by (simp add: k(2) min.commute)
  have "owned_sleepers u" using assms(3) by (simp add: f owned_sleepers_def)
  from wake_and_release [OF assms(1,2) _ this, of "PipeWriteChan p" "(int (length cs), cs)"] f
  obtain s' where "andthen (wakeup (PipeWriteChan p) u) (\<lambda>_ s. andthen (krelease (PipeLock p) s) (\<lambda>_ s. Ret (int (length cs), cs) s)) = Ret (int (length cs), cs) s'"
    "pipes s' = pipes u" "threads s' = woken (sleeping_on (PipeWriteChan p)) (threads s)" "mach s' = settle (mach s)" by auto
  moreover have "pipe_queue (pipes u p) = drop n q" "pipe_ok (pipes u p)"
    using k(1) unfolding took_def k(2) q_def [symmetric] by (metis append_take_drop_id same_append_eq, blast)
  moreover have "\<not> (pi_nread (pipes s p) = pi_nwrite (pipes s p) \<and> pi_writeopen (pipes s p))" using assms(5) pipe_empty by blast
  ultimately show ?thesis using d assms(2) l k(2) by (intro exI [of _ s']) (auto simp: piperead_def piperead_rest_def)
qed

section \<open>Properties\<close>

text \<open>C3. A pipe is a first-in first-out queue of at most 512 bytes: in every run of readers and writers, however
  they are interleaved, the bytes put into the pipe are the bytes delivered so far, in order, followed
  by the bytes in the buffer. No byte is lost, repeated or overtaken, also when the counters wrap around.\<close>

theorem pipe_fifo:
  assumes "pipe_run p s i out"
  shows "i = out @ pipe_queue (pipes s p) \<and> length (pipe_queue (pipes s p)) \<le> PIPESIZE"
  using pipe_run_queue [OF assms] by (simp add: pipe_ok_def)

text \<open>C28. A write of bytes that fit returns their number, with the bytes at the end of the queue and every waiting reader made
  runnable; a read of a pipe that has data, or that nobody can write to any more, returns the first bytes of
  the queue, as many as there are up to the number asked for, and makes every waiting writer runnable.\<close>

theorem pipe_calls_return:
  assumes "lockable PtableLock (mach s)" "lockable (PipeLock p) (mach s)" "owned_sleepers s" "pipe_ok (pipes s p)"
  defines "q \<equiv> pipe_queue (pipes s p)"
  shows "(length q + length cs \<le> PIPESIZE \<longrightarrow> (\<exists>s'. pipewrite p cs s = Ret (int (length cs)) s' \<and> pipe_queue (pipes s' p) = q @ cs
         \<and> (\<forall>t < length (threads s). sleeping_on (PipeReadChan p) (threads s ! t) \<longrightarrow> t_state (threads s' ! t) = RUNNABLE)))
     \<and> (q \<noteq> [] \<or> \<not> pi_writeopen (pipes s p) \<longrightarrow>
         (\<exists>s'. piperead p n s = Ret (int (min n (length q)), take n q) s' \<and> pipe_queue (pipes s' p) = drop n q
         \<and> (\<forall>t < length (threads s). sleeping_on (PipeWriteChan p) (threads s ! t) \<longrightarrow> t_state (threads s' ! t) = RUNNABLE)))"
proof (intro conjI impI)
  assume "length q + length cs \<le> PIPESIZE"
  then show "\<exists>s'. pipewrite p cs s = Ret (int (length cs)) s' \<and> pipe_queue (pipes s' p) = q @ cs
         \<and> (\<forall>t < length (threads s). sleeping_on (PipeReadChan p) (threads s ! t) \<longrightarrow> t_state (threads s' ! t) = RUNNABLE)"
    using pipewrite_room [OF assms(1-4), of cs] by (auto simp: q_def nth_woken)
next
  assume "q \<noteq> [] \<or> \<not> pi_writeopen (pipes s p)"
  then show "\<exists>s'. piperead p n s = Ret (int (min n (length q)), take n q) s' \<and> pipe_queue (pipes s' p) = drop n q
         \<and> (\<forall>t < length (threads s). sleeping_on (PipeWriteChan p) (threads s ! t) \<longrightarrow> t_state (threads s' ! t) = RUNNABLE)"
    using piperead_some [OF assms(1-4), of n] by (auto simp: q_def nth_woken)
qed

section \<open>Examples\<close>

lemma sample_lockable: "lockable lk (mach sample)"
  by (simp add: running_machine_ok)

lemma empty_pipe_ok: "pipe_ok empty_pipe" "pipe_queue empty_pipe = []"
  by (simp_all add: pipe_ok_def pipe_queue_def empty_pipe_def)

theorem pipe_fifo_witness: "\<exists>s :: trap_state. pipe_run 0x80400000 s [1, 2, 3] [1, 2] \<and> pipe_queue (pipes s 0x80400000) = [3]"
proof -
  let ?p = "0x80400000 :: u32"
  obtain s1 where s1: "pipewrite ?p [1, 2, 3] sample = Ret 3 s1" "pipe_queue (pipes s1 ?p) = [1, 2, 3]" "pipe_ok (pipes s1 ?p)"
    "threads s1 = woken (sleeping_on (PipeReadChan ?p)) (threads sample)" "mach s1 = settle (mach sample)"
    using pipewrite_room [of sample ?p "[1, 2, 3]"] sample_lockable sample_owned empty_pipe_ok by (auto simp: PIPESIZE_def)
  have "pipe_run ?p sample [] []" by (rule pipe_run.start) (simp_all add: empty_pipe_def)
  then have r: "pipe_run ?p s1 ([] @ take (grown ?p sample s1) [1, 2, 3]) []" using s1(1) by (intro pipe_run.writes) simp_all
  have "wrote ?p [1, 2, 3] (grown ?p sample s1) (pipes sample) (pipes s1)"
    using pipewrite_end [of sample ?p "[1, 2, 3]" s1] s1(1) empty_pipe_ok by simp
  then have "take (grown ?p sample s1) [1, 2, 3] = pipe_queue (pipes s1 ?p)" using empty_pipe_ok by (simp add: wrote_def)
  then have r: "pipe_run ?p s1 [1, 2, 3] []" using r s1(2) by simp
  have o: "owned_sleepers s1" using sample_owned by (auto simp: owned_sleepers_def s1(4) woken_def)
  obtain s2 where "piperead ?p 2 s1 = Ret (2, [1, 2]) s2"
    using piperead_some [of s1 ?p 2] s1(2,3,5) o sample_lockable by (auto simp: running_machine_ok)
  then have "pipe_run ?p s2 [1, 2, 3] ([] @ [1, 2])" using r by (intro pipe_run.reads)
  then have "pipe_run ?p s2 [1, 2, 3] [1, 2]" by simp
  with pipe_fifo [OF this] show ?thesis by auto
qed

theorem pipe_calls_return_witness:
  "\<exists>s'. pipewrite 0x80400000 [1, 2, 3] sample = Ret 3 s' \<and> pipe_queue (pipes s' 0x80400000) = [1, 2, 3]"
  using pipe_calls_return [where s = sample and p = "0x80400000" and cs = "[1, 2, 3]" and n = 0] sample_lockable sample_owned empty_pipe_ok by (auto simp: PIPESIZE_def)

end
