(* ===== verification/Terminal.thy ===== *)
theory Terminal
  imports Ring Frame Sample
begin

unbundle bit_operations_syntax

text \<open>
  Correctness of the console: the cursor stays on the screen, numbers are printed within the buffer of \<^verbatim>\<open>printint\<close>,
  and the input buffer with its three counters is a line editor.
\<close>

section \<open>The screen\<close>

definition screen_ok :: "'x cons_state_scheme \<Rightarrow> bool" where
  "screen_ok s \<longleftrightarrow> \<not> panicked s \<and> crt_pos s \<le> 24 * 80"

lemma uartputc_serial: "\<exists>x. uartputc c s = s\<lparr>serial := x\<rparr>"
  by (auto simp: uartputc_def intro: exI [of _ "serial s"])

lemma next_row:
  assumes "pos \<le> 24 * 80"
  shows "pos + (80 - pos mod 80) \<le> (25 * 80 :: nat)"
proof -
  have "80 * (pos div 80) + pos mod 80 = pos" "pos mod 80 < 80" by simp_all
  moreover have "pos div 80 \<le> 24" using assms by simp
  ultimately show ?thesis by linarith
qed

text \<open>\<^verbatim>\<open>cgaputc\<close> once the character is written and the cursor has moved.\<close>

definition cga_scroll :: "nat \<Rightarrow> 'x cons_state_scheme \<Rightarrow> ('x cons_state_scheme, unit) outcome" where
  "cga_scroll pos s =
     (if pos > 25 * 80 then Panic ''pos under/overflow''
      else
        let (pos, s) =
              (if pos div 80 \<ge> 24 then
                 let s = s\<lparr>crt := (\<lambda>i. if i < 23 * 80 then crt s (i + 80) else crt s i)\<rparr>;
                     pos = pos - 80 in
                 (pos, s\<lparr>crt := (\<lambda>i. if pos \<le> i \<and> i < 24 * 80 then 0 else crt s i)\<rparr>)
               else (pos, s));
            s = s\<lparr>crt_pos := pos mod 65536\<rparr> in
        Ret () (s\<lparr>crt := (crt s)(pos := 0x20 OR 0x700)\<rparr>))"

text \<open>The state without what was put out.\<close>

definition quiet :: "'x cons_state_scheme \<Rightarrow> 'x cons_state_scheme" where
  "quiet s = s\<lparr>crt := \<lambda>_. 0, crt_pos := 0, serial := []\<rparr>"

lemma quiet_upd [simp]: "quiet (s\<lparr>crt := g\<rparr>) = quiet s" "quiet (s\<lparr>crt_pos := p\<rparr>) = quiet s" "quiet (s\<lparr>serial := x\<rparr>) = quiet s"
  by (cases s; simp add: quiet_def)+

lemma cgaputc_scroll:
  "\<exists>pos t. cgaputc c s = cga_scroll pos t \<and> quiet t = quiet s \<and> (crt_pos s \<le> 24 * 80 \<longrightarrow> pos \<le> 25 * 80)"
proof -
  consider "c = 10" | "c = BACKSPACE" | "c \<noteq> 10" "c \<noteq> BACKSPACE" by blast
  then show ?thesis
  proof cases
    case 1
    have "cgaputc c s = cga_scroll (crt_pos s + (80 - crt_pos s mod 80)) s"
      unfolding cgaputc_def cga_scroll_def Let_def 1 by (simp only: if_True prod.case refl)
    then show ?thesis using next_row by blast
  next
    case 2
    then have "c \<noteq> 10" by (simp add: BACKSPACE_def)
    then have "cgaputc c s = cga_scroll (if crt_pos s > 0 then crt_pos s - 1 else crt_pos s) s"
      unfolding cgaputc_def cga_scroll_def Let_def using 2 by (simp only: if_True if_False prod.case refl)
    then show ?thesis by (intro exI conjI, assumption) (auto simp: )
  next
    case 3
    then have "cgaputc c s = cga_scroll (crt_pos s + 1) (s\<lparr>crt := (crt s)(crt_pos s := (of_int c AND 0xFF) OR 0x700)\<rparr>)"
      unfolding cgaputc_def cga_scroll_def Let_def by (simp only: if_False prod.case refl)
    then show ?thesis by (intro exI conjI, assumption) auto
  qed
qed

lemma cga_scroll_ok:
  assumes "pos \<le> 25 * 80"
  shows "\<exists>t. cga_scroll pos s = Ret () t \<and> quiet t = quiet s \<and> crt_pos t \<le> 24 * 80"
proof (cases "pos div 80 \<ge> 24")
  case True
  then show ?thesis using assms by (simp add: cga_scroll_def Let_def)
next
  case False
  then have "pos \<le> 24 * 80" by linarith
  then show ?thesis using False by (simp add: cga_scroll_def Let_def)
qed

lemma quiet_sel:
  assumes "quiet t = quiet s"
  shows "panicked t = panicked s" "mach t = mach s" "procs t = procs s" "threads t = threads s" "input_buf t = input_buf s"
    "input_r t = input_r s" "input_w t = input_w s" "input_e t = input_e s" "uart t = uart s" "cons_state.more t = cons_state.more s"
  using arg_cong [OF assms, of panicked] arg_cong [OF assms, of mach] arg_cong [OF assms, of procs] arg_cong [OF assms, of threads]
    arg_cong [OF assms, of input_buf] arg_cong [OF assms, of input_r] arg_cong [OF assms, of input_w] arg_cong [OF assms, of input_e]
    arg_cong [OF assms, of uart] arg_cong [OF assms, of cons_state.more]
  by (simp_all add: quiet_def)

lemma consputc_ok:
  assumes "screen_ok s"
  shows "\<exists>t. consputc c s = Ret () t \<and> quiet t = quiet s \<and> screen_ok t"
proof -
  obtain u where u: "quiet u = quiet s" "crt_pos u = crt_pos s" "consputc c s = cgaputc c u"
  proof (cases "c = BACKSPACE")
    case True
    then show ?thesis using assms by (intro that [of "uartputc 8 (uartputc 32 (uartputc 8 s))"]) (simp_all add: screen_ok_def consputc_def uartputc_def)
  next
    case False
    then show ?thesis using assms by (intro that [of "uartputc c s"]) (simp_all add: screen_ok_def consputc_def uartputc_def)
  qed
  obtain pos t where t: "cgaputc c u = cga_scroll pos t" "quiet t = quiet u" "pos \<le> 25 * 80"
    using cgaputc_scroll [of c u] assms u(2) by (auto simp: screen_ok_def)
  obtain v where v: "cga_scroll pos t = Ret () v" "quiet v = quiet t" "crt_pos v \<le> 24 * 80" using cga_scroll_ok [OF t(3)] by blast
  have q: "quiet v = quiet s" using u(1) t(2) v(2) by simp
  then show ?thesis using assms quiet_sel(1) [OF q] u(3) t(1) v by (intro exI [of _ v]) (simp add: screen_ok_def)
qed

lemma serial_cga: "cgaputc c s = Ret () t \<Longrightarrow> serial t = serial s \<and> uart t = uart s"
  by (auto simp: cgaputc_def Let_def split: if_splits)

lemma consputc_serial:
  assumes "consputc c s = Ret () t" "c \<noteq> BACKSPACE" "uart s"
  shows "serial t = serial s @ [of_int c]" "uart t"
  using assms serial_cga [of c "uartputc c s" t] by (auto simp: consputc_def uartputc_def split: if_splits)

lemma putstr_serial:
  "screen_ok s \<Longrightarrow> uart s \<Longrightarrow> \<exists>t. each (\<lambda>c s. consputc (uint c) s) cs s = Ret () t \<and> quiet t = quiet s \<and> screen_ok t
     \<and> serial t = serial s @ cs \<and> uart t"
proof (induction cs arbitrary: s)
  case (Cons c cs)
  obtain u where u: "consputc (uint c) s = Ret () u" "quiet u = quiet s" "screen_ok u" using consputc_ok [OF Cons.prems(1)] by blast
  have "uint c < 256" using uint_lt2p [of c] by simp
  then have "uint c \<noteq> BACKSPACE" by (simp add: BACKSPACE_def)
  from consputc_serial [OF u(1) this Cons.prems(2)] have s: "serial u = serial s @ [c]" "uart u" by simp_all
  from Cons.IH [OF u(3) s(2)] show ?case using u(1,2) s(1) by auto
qed simp

section \<open>Numbers\<close>

text \<open>The digits of a number, lowest first, and the number that digits stand for.\<close>

fun digits_of :: "nat \<Rightarrow> nat \<Rightarrow> nat \<Rightarrow> nat list" where
  "digits_of 0 b n = []"
| "digits_of (Suc k) b n = n mod b # (if n div b = 0 then [] else digits_of k b (n div b))"

definition value_of :: "nat \<Rightarrow> nat list \<Rightarrow> nat" where
  "value_of b ds = foldr (\<lambda>d v. d + b * v) ds 0"

lemma value_of_simps [simp]: "value_of b [] = 0" "value_of b (d # ds) = d + b * value_of b ds"
  by (simp_all add: value_of_def)

lemma digits_of_value: "n < b ^ k \<Longrightarrow> value_of b (digits_of k b n) = n"
proof (induction k arbitrary: n)
  case (Suc k)
  then have "n div b < b ^ k" by (simp add: less_mult_imp_div_less mult.commute)
  then show ?case using Suc.IH by (simp add: mod_eq_self_iff_div_eq_0)
qed simp

lemma digits_of_less: "0 < b \<Longrightarrow> d \<in> set (digits_of k b n) \<Longrightarrow> d < b"
  by (induction k b n rule: digits_of.induct) (auto split: if_splits)

lemma length_digits_of: "length (digits_of k b n) \<le> k"
  by (induction k b n rule: digits_of.induct) auto

lemma int_digits_digits:
  assumes "1 < unat base"
  shows "unat x < unat base ^ k \<Longrightarrow> k \<le> m \<Longrightarrow> 0 < k \<Longrightarrow>
     int_digits m x base acc = Some (acc @ map (\<lambda>d. hexdigits ! d) (digits_of k (unat base) (unat x)))"
proof (induction k arbitrary: m x acc)
  case (Suc k)
  obtain m' where m: "m = Suc m'" using Suc.prems(2) by (cases m) simp_all
  have d: "unat (x div base) = unat x div unat base" "unat (x mod base) = unat x mod unat base"
    by (simp_all add: unat_div unat_mod)
  show ?case
  proof (cases "x div base = 0")
    case True
    then have "unat x div unat base = 0" using d(1) by simp
    then show ?thesis using True d(2) by (simp add: m Let_def)
  next
    case False
    then have n0: "unat x div unat base \<noteq> 0" using d(1) unat_eq_zero [of "x div base"] by simp
    have "unat x div unat base < unat base ^ k" using Suc.prems(1) by (simp add: less_mult_imp_div_less mult.commute)
    moreover from this n0 have "0 < k" by (cases k) simp_all
    ultimately show ?thesis
      using Suc.IH [of "x div base" m'] Suc.prems(2) False n0 d by (simp add: m Let_def)
  qed
qed simp

text \<open>The number that a printed text stands for; \<^verbatim>\<open>-\<close> is character 45.\<close>

definition digit_value :: "u8 \<Rightarrow> nat" where
  "digit_value c = (if c < 58 then unat c - 48 else unat c - 87)"

definition text_value :: "nat \<Rightarrow> u8 list \<Rightarrow> int" where
  "text_value b cs = (case cs of
       [] \<Rightarrow> 0
     | c # ds \<Rightarrow> if c = 45 then - int (value_of b (rev (map digit_value ds))) else int (value_of b (rev (map digit_value cs))))"

lemma digit_value_hex: "d < 16 \<Longrightarrow> digit_value (hexdigits ! d) = d \<and> hexdigits ! d \<noteq> 45"
proof -
  assume "d < 16"
  moreover have "\<forall>d \<in> set [0..<16]. digit_value (hexdigits ! d) = d \<and> hexdigits ! d \<noteq> 45"
    unfolding hexdigits_def str8_def digit_value_def by code_simp
  ultimately show ?thesis by simp
qed

lemma digit_values: "\<forall>d \<in> set ds. d < 16 \<Longrightarrow> map digit_value (map (\<lambda>d. hexdigits ! d) ds) = ds"
  by (induction ds) (simp_all add: digit_value_hex)

lemma text_value_digits:
  assumes "\<forall>d \<in> set ds. d < 16" "ds \<noteq> []"
  shows "text_value b (rev (map (\<lambda>d. hexdigits ! d) ds)) = int (value_of b ds)"
    "text_value b (45 # rev (map (\<lambda>d. hexdigits ! d) ds)) = - int (value_of b ds)"
proof -
  let ?cs = "rev (map (\<lambda>d. hexdigits ! d) ds)"
  have m: "rev (map digit_value ?cs) = ds" using digit_values [OF assms(1)] by (simp add: rev_map)
  show "text_value b (45 # ?cs) = - int (value_of b ds)" using m by (simp add: text_value_def)
  obtain c cs where c: "?cs = c # cs" using assms(2) by (cases ?cs) auto
  then have "c \<in> set ?cs" by simp
  then have "c \<noteq> 45" using assms(1) digit_value_hex by auto
  then show "text_value b ?cs = int (value_of b ds)" using m unfolding c by (simp add: text_value_def)
qed

lemma int_text_ok:
  assumes "base = 10 \<or> base = 16" "- (2 ^ 31) \<le> xx" "xx < 2 ^ 32" "sign \<Longrightarrow> xx < 2 ^ 31"
  shows "\<exists>ds. int_text xx base sign = Some ds \<and> length ds \<le> 11 \<and> text_value (unat base) (rev ds) = (if sign then xx else xx mod 2 ^ 32)"
proof -
  define neg where "neg = (sign \<and> xx < 0)"
  define x :: u32 where "x = (if neg then - of_int xx else of_int xx)"
  let ?ds = "digits_of 10 (unat base) (unat x)"
  have b: "1 < unat base" "unat base \<le> 16" "unat x < unat base ^ 10" using assms(1) unat_less_4G [of x] by auto
  have d: "int_digits 16 x base [] = Some (map (\<lambda>d. hexdigits ! d) ?ds)" using int_digits_digits [OF b(1,3), of 16 "[]"] by simp
  have l: "\<forall>d \<in> set ?ds. d < 16" using digits_of_less [of "unat base"] b by fastforce
  have ne: "?ds \<noteq> []" by (simp add: numeral_eq_Suc)
  have v: "value_of (unat base) ?ds = unat x" by (rule digits_of_value [OF b(3)])
  have n: "length ?ds \<le> 10" by (rule length_digits_of)
  have ux: "int (unat x) = (if neg then - xx else xx mod 2 ^ 32)"
  proof (cases neg)
    case True
    then have "x = word_of_int (- xx)" by (simp add: x_def)
    then show ?thesis using True assms(2) int_unat_word_of_int [of "- xx"] by (simp add: neg_def)
  next
    case False
    then show ?thesis by (simp add: x_def unsigned_of_int take_bit_eq_mod flip: uint_nat)
  qed
  have e: "int_text xx base sign = (if neg then Some (map (\<lambda>d. hexdigits ! d) ?ds @ [45]) else Some (map (\<lambda>d. hexdigits ! d) ?ds))"
    using d n by (simp add: int_text_def neg_def [symmetric] x_def [symmetric] Let_def)
  show ?thesis
  proof (cases neg)
    case True
    then show ?thesis using e n text_value_digits(2) [OF l ne, of "unat base"] v ux by (simp add: neg_def)
  next
    case False
    then have "sign \<longrightarrow> xx mod 2 ^ 32 = xx" using assms(3) by (auto simp: neg_def)
    then show ?thesis using False e n text_value_digits(1) [OF l ne, of "unat base"] v ux by simp
  qed
qed

section \<open>Line editing\<close>

interpretation input_ring: ring INPUT_BUF
  by unfold_locales (simp_all add: INPUT_BUF_def)

text \<open>The completed lines that wait for a reader, and the line that is being typed.\<close>

definition pending :: "'x cons_state_scheme \<Rightarrow> u8 list" where
  "pending s = ring_contents INPUT_BUF (input_buf s) (input_r s) (input_w s)"

definition editing :: "'x cons_state_scheme \<Rightarrow> u8 list" where
  "editing s = ring_contents INPUT_BUF (input_buf s) (input_w s) (input_e s)"

definition input_ok :: "'x cons_state_scheme \<Rightarrow> bool" where
  "input_ok s \<longleftrightarrow> length (input_buf s) = INPUT_BUF \<and> length (pending s) + length (editing s) \<le> INPUT_BUF \<and> 10 \<notin> set (editing s)"

text \<open>The editor as a function of the character typed.\<close>

definition editor :: "int \<Rightarrow> u8 list \<times> u8 list \<Rightarrow> u8 list \<times> u8 list" where
  "editor c = (\<lambda>(ls, ed).
     if c = 16 \<or> c = 0 then (ls, ed)
     else if c = 21 then (ls, [])
     else if c = 8 \<or> c = 127 then (ls, butlast ed)
     else if length ls + length ed = INPUT_BUF then (ls, ed)
     else
       let ed = ed @ [if c = 13 then 10 else of_int c] in
       if c = 13 \<or> c = 10 \<or> c = 4 \<or> length ls + length ed = INPUT_BUF then (ls @ ed, []) else (ls, ed))"

lemma pending_cong: "input_buf t = input_buf s \<Longrightarrow> input_r t = input_r s \<Longrightarrow> input_w t = input_w s \<Longrightarrow> pending t = pending s"
  by (simp add: pending_def)

lemma editing_cong: "input_buf t = input_buf s \<Longrightarrow> input_w t = input_w s \<Longrightarrow> input_e t = input_e s \<Longrightarrow> editing t = editing s"
  by (simp add: editing_def)

lemma input_quiet: "quiet t = quiet s \<Longrightarrow> pending t = pending s \<and> editing t = editing s \<and> input_ok t = input_ok s"
  using quiet_sel(5-8) [of t s] by (simp add: input_ok_def pending_def editing_def)

lemma editing_Nil: "editing s = [] \<longleftrightarrow> input_e s = input_w s"
  by (auto simp: editing_def ring_contents_Nil)

lemma length_editing: "length (editing s) = unat (input_e s - input_w s)" "length (pending s) = unat (input_w s - input_r s)"
  by (simp_all add: editing_def pending_def)

lemma input_total:
  assumes "input_ok s"
  shows "ring_contents INPUT_BUF (input_buf s) (input_r s) (input_e s) = pending s @ editing s"
  using assms input_ring.split_contents [of "input_w s" "input_r s" "input_e s" "input_buf s"]
  by (simp add: input_ok_def pending_def editing_def)

lemma input_room: "input_ok s \<Longrightarrow> unat (input_e s - input_r s) = length (pending s) + length (editing s)"
  using arg_cong [OF input_total, of s length] by simp

text \<open>Erasing the last character of the line.\<close>

abbreviation erase_char :: "'x cons_state_scheme \<Rightarrow> 'x cons_state_scheme" where
  "erase_char s \<equiv> s\<lparr>input_e := input_e s - 1\<rparr>"

lemma erase_char_ok:
  assumes "input_ok s" "editing s \<noteq> []"
  shows "pending (erase_char s) = pending s" "editing (erase_char s) = butlast (editing s)" "input_ok (erase_char s)"
proof -
  show p: "pending (erase_char s) = pending s" by (simp add: pending_def)
  show e: "editing (erase_char s) = butlast (editing s)"
    using assms(2) input_ring.back_contents [of "input_w s" "input_e s" "input_buf s"] editing_Nil [of s] by (simp add: editing_def)
  show "input_ok (erase_char s)" using assms(1) p e by (auto simp: input_ok_def dest: in_set_butlastD)
qed

lemma last_edited: "editing s \<noteq> [] \<Longrightarrow> input_buf s ! (unat (input_e s - 1) mod INPUT_BUF) = last (editing s)"
proof -
  assume a: "editing s \<noteq> []"
  then have n: "unat (input_e s - input_w s) \<noteq> 0" by (simp add: editing_Nil unat_eq_zero)
  then have u: "unat (input_e s - 1 - input_w s) = unat (input_e s - input_w s) - 1"
    using unat_dec [of "input_e s - input_w s"] by (simp add: unat_eq_zero algebra_simps)
  have "unat (input_e s - 1) mod INPUT_BUF = (unat (input_w s) + (unat (input_e s - input_w s) - 1)) mod INPUT_BUF"
    using input_ring.writer_slot [of "input_e s - 1" "input_w s"] u by simp
  moreover have "last (editing s) = editing s ! (unat (input_e s - input_w s) - 1)" using a last_conv_nth [of "editing s"] by (simp add: length_editing)
  ultimately show ?thesis using n by (simp add: editing_def ring_contents_def)
qed

text \<open>What the editor leaves alone.\<close>

definition aside :: "'x cons_state_scheme \<Rightarrow> machine \<times> thread list \<times> bool \<times> 'x" where
  "aside s = (mach s, threads s, uart s, cons_state.more s)"

lemma aside_quiet: "quiet t = quiet s \<Longrightarrow> aside t = aside s"
  using quiet_sel [of t s] by (simp add: aside_def)

lemma kill_line_ok:
  "screen_ok s \<Longrightarrow> input_ok s \<Longrightarrow> k = length (editing s) \<Longrightarrow> \<exists>t. kill_line k s = Ret () t \<and> screen_ok t \<and> input_ok t
     \<and> pending t = pending s \<and> editing t = [] \<and> aside t = aside s"
proof (induction k arbitrary: s)
  case 0
  then show ?case by simp
next
  case (Suc k)
  then have ne: "editing s \<noteq> []" by auto
  have "last (editing s) \<noteq> 10" using ne Suc.prems(2) last_in_set [of "editing s"] by (metis input_ok_def)
  then have l: "input_buf s ! (unat (input_e s - 1) mod INPUT_BUF) \<noteq> 10" using last_edited [OF ne] by simp
  note e = erase_char_ok [OF Suc.prems(2) ne]
  have "screen_ok (erase_char s)" using Suc.prems(1) by (simp add: screen_ok_def)
  from consputc_ok [OF this, of BACKSPACE] obtain u where u: "consputc BACKSPACE (erase_char s) = Ret () u" "quiet u = quiet (erase_char s)" "screen_ok u" by blast
  note q = input_quiet [OF u(2)]
  have "k = length (editing u)" using q e Suc.prems(3) by simp
  from Suc.IH [OF u(3) _ this] q e obtain t where t: "kill_line k u = Ret () t" "screen_ok t" "input_ok t" "pending t = pending s" "editing t = []" "aside t = aside u" by auto
  moreover have "aside u = aside s" using aside_quiet [OF u(2)] by (simp add: aside_def)
  ultimately show ?case using l u(1) by simp
qed

text \<open>Putting a character at the end of the line.\<close>

abbreviation type_char :: "u8 \<Rightarrow> 'x cons_state_scheme \<Rightarrow> 'x cons_state_scheme" where
  "type_char c s \<equiv> s\<lparr>input_buf := (input_buf s)[unat (input_e s) mod INPUT_BUF := c], input_e := input_e s + 1\<rparr>"

lemma type_char_ok:
  assumes "input_ok s" "length (pending s) + length (editing s) < INPUT_BUF"
  shows "pending (type_char c s) = pending s" "editing (type_char c s) = editing s @ [c]"
    "ring_contents INPUT_BUF (input_buf (type_char c s)) (input_r s) (input_e s + 1) = pending s @ editing s @ [c]"
proof -
  let ?b = "(input_buf s)[unat (input_e s) mod INPUT_BUF := c]"
  have lb: "length (input_buf s) = INPUT_BUF" using assms(1) by (simp add: input_ok_def)
  have r: "unat (input_e s - input_r s) < INPUT_BUF" using input_room [OF assms(1)] assms(2) by simp
  show t: "ring_contents INPUT_BUF (input_buf (type_char c s)) (input_r s) (input_e s + 1) = pending s @ editing s @ [c]"
    using input_ring.put_contents [OF lb r, of c] input_total [OF assms(1)] by simp
  have w: "unat (input_e s - input_w s) < INPUT_BUF" using assms(2) by (simp add: length_editing)
  show e: "editing (type_char c s) = editing s @ [c]" using input_ring.put_contents [OF lb w, of c] by (simp add: editing_def)
  have "unat (input_w s - input_r s) + unat (input_e s + 1 - input_w s) \<le> INPUT_BUF"
    using assms(2) input_ring.put_length [OF w] by (simp add: length_editing)
  from input_ring.split_contents [OF this, of ?b] t e
  show "pending (type_char c s) = pending s" by (simp add: pending_def editing_def)
qed

text \<open>The editor runs without waiting.\<close>

definition steady :: "machine \<Rightarrow> 'x cons_state_scheme \<Rightarrow> bool" where
  "steady m s \<longleftrightarrow> screen_ok s \<and> mach s = m \<and> settle m = m \<and> lockable PtableLock m \<and> owned_sleepers s \<and> uart s"

lemma steady_aside: "steady m s \<Longrightarrow> screen_ok t \<Longrightarrow> aside t = aside s \<Longrightarrow> steady m t \<and> cons_state.more t = cons_state.more s"
  by (simp add: steady_def aside_def owned_sleepers_def)

lemma console_char_ok:
  assumes "steady m s" "input_ok s" "0 \<le> c" "c < 256"
  shows "\<exists>t. console_char c s = Ret () t \<and> input_ok t \<and> (pending t, editing t) = editor c (pending s, editing s)
     \<and> steady m t \<and> cons_state.more t = cons_state.more s"
proof -
  have sc: "screen_ok s" and lk: "lockable PtableLock m" "mach s = m" "settle m = m" and ow: "owned_sleepers s" using assms(1) by (simp_all add: steady_def)
  consider "c = 16 \<or> c = 0" | "c = 21" | "c = 8 \<or> c = 127" | "c \<notin> {0, 8, 16, 21, 127}" by auto
  then show ?thesis
  proof cases
    case 1
    then show ?thesis using assms(1,2) by (auto simp: console_char_def editor_def)
  next
    case 2
    obtain t where "kill_line (length (editing s)) s = Ret () t" "screen_ok t" "input_ok t" "pending t = pending s" "editing t = []" "aside t = aside s"
      using kill_line_ok [OF sc assms(2) refl] by blast
    then show ?thesis using 2 steady_aside [OF assms(1), of t] by (auto simp: console_char_def editor_def length_editing)
  next
    case 3
    show ?thesis
    proof (cases "editing s = []")
      case True
      then show ?thesis using 3 assms(1,2) editing_Nil [of s] by (auto simp: console_char_def editor_def)
    next
      case False
      have "screen_ok (erase_char s)" using sc by (simp add: screen_ok_def)
      from consputc_ok [OF this, of BACKSPACE] obtain u where u: "consputc BACKSPACE (erase_char s) = Ret () u" "quiet u = quiet (erase_char s)" "screen_ok u" by blast
      have "aside u = aside s" using aside_quiet [OF u(2)] by (simp add: aside_def)
      then show ?thesis using 3 False u(1) input_quiet [OF u(2)] erase_char_ok [OF assms(2) False] steady_aside [OF assms(1) u(3)]
        by (auto simp: console_char_def editor_def editing_Nil)
    qed
  next
    case 4
    show ?thesis
    proof (cases "length (pending s) + length (editing s) < INPUT_BUF")
      case False
      then have "length (pending s) + length (editing s) = INPUT_BUF" using assms(2) by (simp add: input_ok_def)
      then show ?thesis using 4 assms(1,2) input_room [OF assms(2)] by (auto simp: console_char_def editor_def)
    next
      case room: True
      define d where "d = (if c = 13 then 10 else c)"
      let ?s = "type_char (of_int d) s"
      note tc = type_char_ok [OF assms(2) room, of "of_int d"]
      have "screen_ok ?s" using sc by (simp add: screen_ok_def)
      from consputc_ok [OF this, of d] obtain u where u: "consputc d ?s = Ret () u" "quiet u = quiet ?s" "screen_ok u" by blast
      have "aside u = aside s" using aside_quiet [OF u(2)] by (simp add: aside_def)
      note su = steady_aside [OF assms(1) u(3) this]
      note q = quiet_sel [OF u(2)] and iq = input_quiet [OF u(2)]
      let ?full = "input_e u = input_r u + of_nat INPUT_BUF"
      have e: "console_char c s = (if d = 10 \<or> d = 4 \<or> ?full then wakeup InputChan (u\<lparr>input_w := input_e u\<rparr>) else Ret () u)"
        using 4 room input_room [OF assms(2)] u(1) by (simp add: console_char_def d_def Let_def)
      have all: "ring_contents INPUT_BUF (input_buf u) (input_r u) (input_e u) = pending s @ editing s @ [of_int d]"
        using tc(3) q by simp
      have full: "?full \<longleftrightarrow> length (pending s) + length (editing s) + 1 = INPUT_BUF"
        using arg_cong [OF all, of length] by (simp add: input_ring.full_iff)
      have d10: "of_int d \<noteq> (10 :: u8)" if "d \<noteq> 10"
      proof
        assume "of_int d = (10 :: u8)"
        moreover have "uint (of_int d :: u8) = d" using assms(3,4) by (simp add: d_def unsigned_of_int take_bit_eq_mod)
        ultimately show False using that by simp
      qed
      have ed: "editor c (pending s, editing s) = (if d = 10 \<or> d = 4 \<or> ?full then (pending s @ editing s @ [of_int d], []) else (pending s, editing s @ [of_int d]))"
        using 4 room full by (auto simp: editor_def d_def Let_def)
      show ?thesis
      proof (cases "d = 10 \<or> d = 4 \<or> ?full")
        case True
        let ?v = "u\<lparr>input_w := input_e u\<rparr>"
        have "lockable PtableLock (mach ?v)" "owned_sleepers ?v" using su by (simp_all add: owned_sleepers_def steady_def)
        note w = wakeup_closed [OF this, of InputChan]
        obtain t where t: "wakeup InputChan ?v = Ret () t" "pending t = pending s @ editing s @ [of_int d]" "editing t = []" "input_buf t = input_buf u"
          "threads t = woken (sleeping_on InputChan) (threads u)" "mach t = settle (mach u)" "uart t = uart u" "screen_ok t = screen_ok u"
          "cons_state.more t = cons_state.more u"
          using all unfolding w by (auto simp: pending_def editing_def screen_ok_def)
        have "input_ok t" using t room q assms(2) by (simp add: input_ok_def)
        moreover have "owned_sleepers t" using su t(5) by (auto simp: steady_def owned_sleepers_def woken_def)
        then have "steady m t" using su t by (simp add: steady_def)
        ultimately show ?thesis using True e ed t su by auto
      next
        case False
        have "input_ok u" using False full room q iq tc d10 assms(2) by (auto simp: input_ok_def)
        then show ?thesis using False e ed iq tc su by auto
      qed
    qed
  qed
qed

lemma uart_in_more: "cons_state.more t = cons_state.more s \<Longrightarrow> uart_in t = uart_in s"
  by (cases s; cases t) simp

lemma steady_uart [simp]: "steady m (s\<lparr>uart_in := cs\<rparr>) = steady m s" "input_ok (s\<lparr>uart_in := cs\<rparr>) = input_ok s"
  "pending (s\<lparr>uart_in := cs\<rparr>) = pending s" "editing (s\<lparr>uart_in := cs\<rparr>) = editing s"
  by (simp_all add: steady_def screen_ok_def owned_sleepers_def input_ok_def pending_def editing_def)

lemma uart_loop_ok:
  "steady m s \<Longrightarrow> input_ok s \<Longrightarrow> uart_in s = cs \<Longrightarrow> 16 \<notin> set cs \<Longrightarrow> length cs < k \<Longrightarrow>
     \<exists>t. consoleintr_loop k uartgetc dump s = Ret dump t \<and> steady m t \<and> input_ok t \<and> uart_in t = []
       \<and> (pending t, editing t) = fold (\<lambda>c. editor (uint c)) cs (pending s, editing s)"
proof (induction cs arbitrary: s k)
  case Nil
  then show ?case by (cases k) (auto simp: uartgetc_def)
next
  case (Cons c cs)
  obtain k' where k: "k = Suc k'" using Cons.prems(5) by (cases k) auto
  let ?s = "s\<lparr>uart_in := cs\<rparr>"
  have "uint c < 256" using uint_lt2p [of c] by simp
  then obtain t where t: "console_char (uint c) ?s = Ret () t" "input_ok t" "(pending t, editing t) = editor (uint c) (pending s, editing s)"
    "steady m t" "cons_state.more t = cons_state.more ?s"
    using console_char_ok [of m ?s "uint c"] Cons.prems(1,2) by auto
  have "uart_in t = cs" using uart_in_more [OF t(5)] by simp
  from Cons.IH [OF t(4,2) this, of k'] Cons.prems(4,5) obtain u where u: "consoleintr_loop k' uartgetc dump t = Ret dump u"
    "steady m u" "input_ok u" "uart_in u = []" "(pending u, editing u) = fold (\<lambda>c. editor (uint c)) cs (pending t, editing t)"
    by (auto simp: k)
  have "c \<noteq> 16" using Cons.prems(4) by auto
  then have "uint c \<noteq> 16" using word_uint_eq_iff [of c 16] by simp
  then have "consoleintr_loop k uartgetc dump s = consoleintr_loop k' uartgetc dump t"
    using Cons.prems(1,3) t(1) by (simp add: k uartgetc_def steady_def)
  then show ?case using u t(3) by auto
qed

lemma uartintr_ok:
  assumes "steady m s" "input_ok s" "lockable ConsLock m" "16 \<notin> set (uart_in s)"
  shows "\<exists>t. uartintr s = Ret () t \<and> input_ok t \<and> uart_in t = [] \<and> steady m t
     \<and> (pending t, editing t) = fold (\<lambda>c. editor (uint c)) (uart_in s) (pending s, editing s)"
proof -
  let ?s = "s\<lparr>mach := taken ConsLock m\<rparr>"
  have m: "mach s = m" "settle m = m" "lockable PtableLock m" "screen_ok s" "owned_sleepers s" "uart s" using assms(1) by (simp_all add: steady_def)
  have "settle (taken ConsLock m) = taken ConsLock m" using m(3) by (intro settle_taken) simp
  then have "steady (taken ConsLock m) ?s" using m by (simp add: steady_def screen_ok_def owned_sleepers_def)
  moreover have "input_ok ?s" "pending ?s = pending s" "editing ?s = editing s" "uart_in ?s = uart_in s"
    using assms(2) by (simp_all add: input_ok_def pending_def editing_def)
  ultimately obtain t where t: "consoleintr_loop (Suc (length (uart_in s))) uartgetc False ?s = Ret False t" "steady (taken ConsLock m) t"
    "input_ok t" "uart_in t = []" "(pending t, editing t) = fold (\<lambda>c. editor (uint c)) (uart_in s) (pending s, editing s)"
    using uart_loop_ok [of "taken ConsLock m" ?s "uart_in s" "Suc (length (uart_in s))" False] assms(4) by auto
  let ?t = "t\<lparr>mach := m\<rparr>"
  have "krelease ConsLock t = Ret () ?t" using t(2) assms(3) m(2) krelease_taken [of t ConsLock m] by (simp add: steady_def)
  then have "uartintr s = Ret () ?t" using t(1) assms(3) m(1) by (simp add: uartintr_def consoleintr_def)
  moreover have "steady m ?t" using t(2) m by (simp add: steady_def screen_ok_def owned_sleepers_def)
  moreover have "input_ok ?t" "pending ?t = pending t" "editing ?t = editing t" "uart_in ?t = []"
    using t(3,4) by (simp_all add: input_ok_def pending_def editing_def)
  ultimately show ?thesis using t(5) by (intro exI [of _ ?t]) simp
qed

section \<open>Reading lines\<close>

text \<open>What a read of up to \<open>n\<close> bytes takes from the completed lines, where \<open>first\<close> says that nothing was
  taken before: it stops after a line feed, and before a control-D (character 4), which it removes only if that comes first;
  \<open>None\<close> if it has to wait for more input.\<close>

fun read_line :: "nat \<Rightarrow> bool \<Rightarrow> u8 list \<Rightarrow> (u8 list \<times> u8 list) option" where
  "read_line 0 first ls = Some ([], ls)"
| "read_line (Suc n) first [] = None"
| "read_line (Suc n) first (c # cs) =
     (if c = 4 then Some ([], if first then cs else c # cs)
      else if c = 10 then Some ([c], cs)
      else map_option (\<lambda>(a, b). (c # a, b)) (read_line n False cs))"

lemma next_pending:
  assumes "pending s \<noteq> []"
  shows "pending s = input_buf s ! (unat (input_r s) mod INPUT_BUF) # pending (s\<lparr>input_r := input_r s + 1\<rparr>)" "input_r s \<noteq> input_w s"
proof -
  show ne: "input_r s \<noteq> input_w s" using assms by (auto simp: pending_def)
  show "pending s = input_buf s ! (unat (input_r s) mod INPUT_BUF) # pending (s\<lparr>input_r := input_r s + 1\<rparr>)"
    using input_ring.take_contents [OF ne, of "input_buf s"] by (simp add: pending_def)
qed

lemma consoleread_loop_ok:
  "int n \<le> target \<Longrightarrow> read_line n (int n = target) (pending s) = Some (bs, rest) \<Longrightarrow>
     \<exists>t. consoleread_loop target n acc s = Ret (Some (n - length bs, acc @ bs)) t \<and> pending t = rest \<and> editing t = editing s \<and> length bs \<le> n"
proof (induction n arbitrary: s bs rest acc)
  case 0
  then show ?case by auto
next
  case (Suc n)
  then have ne: "pending s \<noteq> []" by auto
  let ?c = "input_buf s ! (unat (input_r s) mod INPUT_BUF)" and ?s = "s\<lparr>input_r := input_r s + 1\<rparr>"
  note nx = next_pending [OF ne]
  have ed: "editing ?s = editing s" by (simp add: editing_def)
  show ?case
  proof (cases "?c = 4")
    case True
    have r: "bs = []" "rest = (if int (Suc n) = target then pending ?s else pending s)"
      using Suc.prems(2) True nx(1) by (auto split: if_splits)
    have "consoleread_loop target (Suc n) acc s = Ret (Some (Suc n, acc)) (if int (Suc n) < target then s else ?s)"
      using nx(2) True by (simp add: Let_def)
    then show ?thesis using r Suc.prems(1) ed by auto
  next
    case False
    show ?thesis
    proof (cases "?c = 10")
      case True
      then have r: "bs = [10]" "rest = pending ?s" using Suc.prems(2) unfolding nx(1) by auto
      have "consoleread_loop target (Suc n) acc s = Ret (Some (n, acc @ [10])) ?s" using nx(2) True by (simp add: Let_def)
      then show ?thesis using r ed by auto
    next
      case c: False
      then obtain a where a: "read_line n False (pending ?s) = Some (a, rest)" "bs = ?c # a"
        using Suc.prems(2) False unfolding nx(1) by auto
      have "int n \<le> target" "(int n = target) = False" using Suc.prems(1) by auto
      from Suc.IH [of ?s a rest "acc @ [?c]"] this a(1) obtain t where
        "consoleread_loop target n (acc @ [?c]) ?s = Ret (Some (n - length a, (acc @ [?c]) @ a)) t" "pending t = rest" "editing t = editing ?s" "length a \<le> n"
        by auto
      moreover have "consoleread_loop target (Suc n) acc s = consoleread_loop target n (acc @ [?c]) ?s" using nx(2) False c by (simp add: Let_def)
      ultimately show ?thesis using a(2) ed by auto
    qed
  qed
qed

section \<open>Properties\<close>

text \<open>C29. \<^verbatim>\<open>printint\<close> in base 10 or 16 never overruns its buffer of 16 bytes: it returns for every
  32 bit number, the text it puts out has at most 11 characters and stands for the number, signed or
  taken modulo \<open>2 ^ 32\<close>, and the cursor stays on the screen, so that the panic of \<^verbatim>\<open>cgaputc\<close> is never reached.\<close>

theorem printint_prints:
  assumes "base = 10 \<or> base = 16" "- (2 ^ 31) \<le> xx" "xx < 2 ^ 31" "screen_ok s" "uart s"
  shows "\<exists>t cs. printint xx base sign s = Ret () t \<and> serial t = serial s @ cs \<and> length cs \<le> 11
     \<and> text_value (unat base) cs = (if sign then xx else xx mod 2 ^ 32) \<and> screen_ok t"
proof -
  obtain ds where d: "int_text xx base sign = Some ds" "length ds \<le> 11" "text_value (unat base) (rev ds) = (if sign then xx else xx mod 2 ^ 32)"
    using int_text_ok [OF assms(1,2), of sign] assms(3) by auto
  obtain t where "each (\<lambda>c s. consputc (uint c) s) (rev ds) s = Ret () t" "serial t = serial s @ rev ds" "screen_ok t"
    using putstr_serial [OF assms(4,5), of "rev ds"] by blast
  then show ?thesis using d by (intro exI [of _ t] exI [of _ "rev ds"]) (simp add: printint_def)
qed

text \<open>C6. The input buffer and its three wrapping counters are a line editor: the interrupt handler of the
  serial line returns, with the completed lines and the line being typed changed by the bytes received, one after
  the other, as the function \<open>editor\<close> says, and with the buffer well formed. The bytes received are any but 16 (control-P), which lists the processes.\<close>

theorem console_editor:
  assumes "steady m s" "input_ok s" "lockable ConsLock m" "16 \<notin> set (uart_in s)"
  shows "\<exists>t. uartintr s = Ret () t \<and> input_ok t \<and> uart_in t = []
     \<and> (pending t, editing t) = fold (\<lambda>c. editor (uint c)) (uart_in s) (pending s, editing s)"
  using uartintr_ok [OF assms] by blast

text \<open>C30. A read from the console takes from the completed lines what \<open>read_line\<close> says, no more than asked for and
  never beyond the end of a line, and leaves the line being typed alone.\<close>

theorem console_read_line:
  assumes "read_line n True (pending s) = Some (bs, rest)"
  shows "\<exists>t. consoleread_loop (int n) n [] s = Ret (Some (n - length bs, bs)) t \<and> pending t = rest \<and> editing t = editing s \<and> length bs \<le> n"
  using consoleread_loop_ok [of n "int n" s bs rest "[]"] assms by simp

section \<open>Examples\<close>

lemma sample_screen: "screen_ok sample" "uart sample" "serial sample = []"
  by (simp_all add: screen_ok_def sample_def)

lemma sample_input: "input_ok (sample\<lparr>uart_in := cs\<rparr>)" "pending (sample\<lparr>uart_in := cs\<rparr>) = []" "editing (sample\<lparr>uart_in := cs\<rparr>) = []"
  by (simp_all add: input_ok_def pending_def editing_def) (simp_all add: sample_def)

lemma sample_steady: "steady running_machine (sample\<lparr>uart_in := cs\<rparr>)"
  using sample_screen sample_owned running_machine_ok by (simp add: steady_def screen_ok_def owned_sleepers_def)

theorem printint_prints_witness:
  "\<exists>t cs. printint (- 42) 10 True sample = Ret () t \<and> serial t = cs \<and> text_value 10 cs = - 42 \<and> length cs \<le> 11"
  using printint_prints [of 10 "- 42" sample True] sample_screen by auto

theorem console_editor_witness:
  "\<exists>t. uartintr (sample\<lparr>uart_in := [97, 98, 8, 99, 13, 100]\<rparr>) = Ret () t \<and> pending t = [97, 99, 10] \<and> editing t = [100]"
proof -
  have "fold (\<lambda>c. editor (uint c)) [97, 98, 8, 99, 13, 100 :: u8] ([], []) = ([97, 99, 10], [100])"
    by (simp add: editor_def INPUT_BUF_def)
  then show ?thesis
    using console_editor [OF sample_steady sample_input(1) running_machine_ok(1), of "[97, 98, 8, 99, 13, 100]"] sample_input(2,3) by auto
qed

theorem console_read_line_witness:
  "\<exists>t. consoleread_loop 5 5 [] (sample\<lparr>input_buf := [97, 10, 98, 10] @ replicate 124 0, input_w := 4, input_e := 4\<rparr>) = Ret (Some (3, [97, 10])) t
     \<and> pending t = [98, 10]"
proof -
  let ?s = "sample\<lparr>input_buf := [97, 10, 98, 10] @ replicate 124 0, input_w := 4, input_e := 4\<rparr>"
  have "pending ?s = [97, 10, 98, 10]" by (simp add: pending_def ring_contents_def INPUT_BUF_def) (simp add: sample_def upt_rec)
  moreover have "read_line 5 True [97, 10, 98, 10] = Some ([97, 10], [98, 10])" by code_simp
  ultimately have "read_line 5 True (pending ?s) = Some ([97, 10], [98, 10])" by (simp only:)
  from console_read_line [OF this] show ?thesis by auto
qed

end
