(* ===== verification/Paging.thy ===== *)
theory Paging
  imports Vm
begin

text \<open>
  What \<^verbatim>\<open>vm.c\<close> does to an address space. \<open>pte_of\<close> reads the page table entry of a virtual
  address from memory; \<open>vm_inv\<close> is the invariant of a page directory: the directory and its page
  tables are different good pages, none of them free. The lemmas give the effect of
  \<^verbatim>\<open>walkpgdir\<close> and \<^verbatim>\<open>mappages\<close> on the entries of all addresses, the termination of the loops over pages,
  and the behaviour of the list of free thread stacks.
\<close>

section \<open>Words in pages\<close>

lemma and_3FF: "x AND 0x3FF = take_bit 10 (x :: u32)"
  by (simp add: take_bit_eq_mask mask_eq_exp_minus_1)

lemma PDX_less: "unat (PDX va) < 1024" and PTX_less: "unat (PTX va) < 1024"
  unfolding PDX_def PTX_def and_3FF by (simp_all add: take_bit_eq_mod unat_mod)

lemma mask12: "(0xFFF :: u32) = mask 12" by (simp add: mask_eq_exp_minus_1)

lemma bit_PTE_ADDR: "bit (PTE_ADDR x) n \<longleftrightarrow> 12 \<le> n \<and> bit x n"
  unfolding PTE_ADDR_def mask12 by (auto simp: bit_and_iff bit_not_iff bit_mask_iff dest: bit_imp_le_length)

lemma bit_PTE_FLAGS: "bit (PTE_FLAGS x) n \<longleftrightarrow> n < 12 \<and> bit x n"
  unfolding PTE_FLAGS_def mask12 by (auto simp: bit_and_iff bit_mask_iff)

lemma aligned_bits: "a mod PGSIZE = 0 \<Longrightarrow> bit (a::u32) n \<Longrightarrow> 12 \<le> n"
proof (rule ccontr)
  assume a: "a mod PGSIZE = 0" "bit a n" "\<not> 12 \<le> n"
  then have "bit (take_bit 12 a) n" by (simp add: bit_take_bit_iff)
  then show False using a(1) by (simp add: mod_PGSIZE)
qed

lemma small_bits: "unat (f::u32) < 4096 \<Longrightarrow> bit f n \<Longrightarrow> n < 12"
proof -
  assume a: "unat f < 4096" "bit f n"
  then have "take_bit 12 f = f" by (simp add: take_bit_eq_mod word_unat_eq_iff unat_mod)
  then show ?thesis using a(2) by (metis bit_take_bit_iff)
qed

lemma PTE_split:
  assumes "a mod PGSIZE = 0" "unat (f::u32) < 4096"
  shows "PTE_ADDR (a OR f) = a" "PTE_FLAGS (a OR f) = f"
proof -
  show "PTE_ADDR (a OR f) = a"
    by (rule bit_word_eqI) (auto simp: bit_PTE_ADDR bit_or_iff dest: aligned_bits [OF assms(1)] small_bits [OF assms(2)])
  show "PTE_FLAGS (a OR f) = f"
    by (rule bit_word_eqI) (auto simp: bit_PTE_FLAGS bit_or_iff dest: aligned_bits [OF assms(1)] small_bits [OF assms(2)])
qed

lemma V2P_aligned: "v mod PGSIZE = 0 \<Longrightarrow> V2P v mod PGSIZE = 0"
proof -
  assume "v mod PGSIZE = 0"
  then obtain q where q: "unat v = 4096 * q" by (auto simp: aligned_iff)
  have "unat (V2P v) = (if 524288 \<le> q then 4096 * (q - 524288) else 4096 * (q + 524288))"
    by (simp add: V2P_def KERNBASE_def unat_sub_if' q diff_mult_distrib2)
  then show ?thesis by (simp add: aligned_iff)
qed

lemma PTE_P_bit: "x AND PTE_P \<noteq> 0 \<longleftrightarrow> bit x 0"
  by (simp add: PTE_P_def and_one_eq odd_iff_mod_2_eq_one bit_0)

lemma same_page: "PDX a = PDX b \<and> PTX a = PTX b \<longleftrightarrow> PGROUNDDOWN a = PGROUNDDOWN b"
proof -
  have m: "(0x3FF :: u32) = mask 10" by (simp add: mask_eq_exp_minus_1)
  have d: "bit (PDX x) n \<longleftrightarrow> n < 10 \<and> bit x (n + 22)" "bit (PTX x) n \<longleftrightarrow> n < 10 \<and> bit x (n + 12)" for x n
    unfolding PDX_def PTX_def m by (auto simp: bit_and_iff bit_mask_iff bit_drop_bit_eq add.commute)
  have g: "bit (PGROUNDDOWN x) n \<longleftrightarrow> 12 \<le> n \<and> bit x n" for x n
    unfolding PGROUNDDOWN_def PGMASK by (auto simp: bit_and_iff bit_not_iff bit_mask_iff dest: bit_imp_le_length)
  show ?thesis
  proof
    assume l: "PDX a = PDX b \<and> PTX a = PTX b"
    show "PGROUNDDOWN a = PGROUNDDOWN b"
    proof (rule bit_word_eqI)
      fix n
      assume n: "n < LENGTH(32)"
      have "bit a n = bit b n" if "12 \<le> n" "n < 22"
        using d(2) [of a "n - 12"] d(2) [of b "n - 12"] l that by (simp add: less_diff_conv2)
      moreover have "bit a n = bit b n" if "22 \<le> n"
        using d(1) [of a "n - 22"] d(1) [of b "n - 22"] l that n by (simp add: less_diff_conv2)
      ultimately show "bit (PGROUNDDOWN a) n = bit (PGROUNDDOWN b) n"
        unfolding g by (cases "n < 22") auto
    qed
  next
    assume r: "PGROUNDDOWN a = PGROUNDDOWN b"
    then have "bit a n = bit b n" if "12 \<le> n" for n using g [of a n] g [of b n] that by simp
    then show "PDX a = PDX b \<and> PTX a = PTX b"
      by (intro conjI bit_word_eqI) (simp_all add: d)
  qed
qed
lemma load32_frame: "(\<And>k. unat k < 4 \<Longrightarrow> m' (a + k) = m (a + k)) \<Longrightarrow> load32 m' a = load32 m a"
proof -
  assume f: "\<And>k. unat k < 4 \<Longrightarrow> m' (a + k) = m (a + k)"
  from f [of 0] f [of 1] f [of 2] f [of 3] show "load32 m' a = load32 m a" by (simp add: load32_def)
qed

lemma load_store32_other:
  assumes "a mod 4 = 0" "b mod 4 = 0" "a \<noteq> b"
  shows "load32 (store32 m a v) b = load32 m b"
proof (rule load32_frame)
  fix k :: u32
  assume k: "unat k < 4"
  have "(b - a) mod 4 = 0" using assms(1,2) by (auto simp: word_unat_eq_iff unat_mod unat_sub_if')
  then have "unat ((b - a) mod 4) = 0" by (simp only: unat_0)
  then have "unat (b - a) mod 4 = 0" by (simp add: unat_mod)
  then obtain q where q: "unat (b - a) = 4 * q" by auto
  have "unat (b - a) \<noteq> 0" using assms(3) by (simp add: unat_eq_0)
  then have "4 \<le> unat (b - a)" "unat (b - a) \<le> 2 ^ 32 - 4" using q unat_less_4G [of "b - a"] by simp_all
  then have "unat (b - a + k) = unat (b - a) + unat k" using k by (intro unat_plus_small) simp
  then have "\<not> unat (b + k - a) < 4" using \<open>4 \<le> unat (b - a)\<close> by (simp add: algebra_simps)
  then show "store32 m a v (b + k) = m (b + k)" by (simp add: store32_apply)
qed

lemma table_slot:
  assumes "unat i < 1024"
  shows "unat (4 * i :: u32) = 4 * unat i" "unat k < 4 \<Longrightarrow> in_page d (d + 4 * i + k)"
proof -
  have m: "unat (4 * i) = 4 * unat i" using assms by (simp add: unat_word_ariths)
  then show "unat (4 * i :: u32) = 4 * unat i" .
  assume "unat k < 4"
  then have "unat (4 * i + k) = 4 * unat i + unat k" using m assms by (subst unat_plus_small) simp_all
  then show "in_page d (d + 4 * i + k)" using assms \<open>unat k < 4\<close> by (simp add: in_page_def)
qed

lemma slot_aligned: "v mod PGSIZE = 0 \<Longrightarrow> (v + 4 * i) mod 4 = (0 :: u32)"
proof -
  assume "v mod PGSIZE = 0"
  then have "unat v mod 4096 = 0" by (simp add: aligned_iff)
  then have v: "unat v mod 4 = 0" using mod_mod_cancel [of 4 4096 "unat v"] by simp
  have i: "unat (4 * i) mod 4 = 0" by (simp add: unat_word_ariths mod_mod_cancel)
  have "unat (v + 4 * i) mod 4 = (unat v + unat (4 * i)) mod 4" by (simp add: unat_word_ariths(1) mod_mod_cancel)
  also have "\<dots> = 0" using v i by (simp add: mod_add_eq [symmetric])
  finally show ?thesis by (simp add: word_unat_eq_iff unat_mod)
qed
lemma slot_inject:
  assumes "unat i < 1024" "unat j < 1024" "d + 4 * i = d + 4 * (j :: u32)"
  shows "i = j"
proof -
  have "4 * i = 4 * j" using assms(3) by simp
  then have "4 * unat i = 4 * unat j" using table_slot(1) [OF assms(1)] table_slot(1) [OF assms(2)] by simp
  then show ?thesis by (simp add: word_unat_eq_iff)
qed

lemma load32_page:
  assumes "unat i < 1024" "\<And>a. in_page d a \<Longrightarrow> m' a = m a"
  shows "load32 m' (d + 4 * i) = load32 m (d + 4 * i)"
  by (rule load32_frame) (use assms(2) table_slot(2) [OF assms(1)] in blast)

section \<open>The entries of an address space\<close>

definition dirent :: "memory \<Rightarrow> u32 \<Rightarrow> u32 \<Rightarrow> u32" where
  "dirent m d i = load32 m (d + 4 * i)"

definition table_of :: "u32 \<Rightarrow> u32" where
  "table_of pde = P2V (PTE_ADDR pde)"

definition pte_of :: "memory \<Rightarrow> u32 \<Rightarrow> u32 \<Rightarrow> u32" where
  "pte_of m d va =
     (if dirent m d (PDX va) AND PTE_P = 0 then 0
      else load32 m (table_of (dirent m d (PDX va)) + 4 * PTX va))"

definition tables :: "memory \<Rightarrow> u32 \<Rightarrow> u32 set" where
  "tables m d = {table_of (dirent m d i) | i. unat i < 1024 \<and> dirent m d i AND PTE_P \<noteq> 0}"

definition pt_inv :: "u32 \<Rightarrow> memory \<Rightarrow> u32 \<Rightarrow> bool" where
  "pt_inv e m d \<longleftrightarrow> good_page e d \<and> (\<forall>t \<in> tables m d. good_page e t \<and> t \<noteq> d)
     \<and> (\<forall>i j. unat i < 1024 \<longrightarrow> unat j < 1024 \<longrightarrow> dirent m d i AND PTE_P \<noteq> 0 \<longrightarrow> dirent m d j AND PTE_P \<noteq> 0
          \<longrightarrow> table_of (dirent m d i) = table_of (dirent m d j) \<longrightarrow> i = j)"

definition vm_inv :: "'x kmem_state_scheme \<Rightarrow> u32 \<Rightarrow> u32 list \<Rightarrow> bool" where
  "vm_inv s d pages \<longleftrightarrow> kmem_inv s pages \<and> pt_inv (k_end s) (mem s) d \<and> d \<notin> set pages \<and> tables (mem s) d \<inter> set pages = {}"

lemma pt_inv_inj:
  "pt_inv e m d \<Longrightarrow> unat i < 1024 \<Longrightarrow> unat j < 1024 \<Longrightarrow> dirent m d i AND PTE_P \<noteq> 0 \<Longrightarrow> dirent m d j AND PTE_P \<noteq> 0
     \<Longrightarrow> table_of (dirent m d i) = table_of (dirent m d j) \<Longrightarrow> i = j"
  unfolding pt_inv_def by (elim conjE, drule spec [of _ i], drule spec [of _ j]) iprover

lemma dirent_frame: "unat i < 1024 \<Longrightarrow> (\<And>a. in_page d a \<Longrightarrow> m' a = m a) \<Longrightarrow> dirent m' d i = dirent m d i"
  unfolding dirent_def by (rule load32_page)

lemma tables_frame: "(\<And>a. in_page d a \<Longrightarrow> m' a = m a) \<Longrightarrow> tables m' d = tables m d"
  unfolding tables_def using dirent_frame [of _ d m' m] by (metis (no_types, opaque_lifting))

lemma pt_inv_frame: "(\<And>a. in_page d a \<Longrightarrow> m' a = m a) \<Longrightarrow> pt_inv e m' d = pt_inv e m d"
proof -
  assume f: "\<And>a. in_page d a \<Longrightarrow> m' a = m a"
  have e: "dirent m' d i = dirent m d i" if "unat i < 1024" for i using that f by (rule dirent_frame)
  have t: "tables m' d = tables m d" by (rule tables_frame) (rule f)
  show ?thesis unfolding pt_inv_def t by (simp add: e)
qed

lemma pte_of_frame:
  assumes "\<And>a. in_page d a \<or> (\<exists>t \<in> tables m d. in_page t a) \<Longrightarrow> m' a = m a"
  shows "pte_of m' d va = pte_of m d va"
proof -
  have e: "dirent m' d (PDX va) = dirent m d (PDX va)"
    by (rule dirent_frame [OF PDX_less]) (use assms in blast)
  show ?thesis
  proof (cases "dirent m d (PDX va) AND PTE_P = 0")
    case False
    then have "table_of (dirent m d (PDX va)) \<in> tables m d" unfolding tables_def using PDX_less by blast
    then have "load32 m' (table_of (dirent m d (PDX va)) + 4 * PTX va) = load32 m (table_of (dirent m d (PDX va)) + 4 * PTX va)"
      by (intro load32_page [OF PTX_less]) (use assms in blast)
    then show ?thesis using e by (simp add: pte_of_def)
  qed (use e in \<open>simp add: pte_of_def\<close>)
qed

lemma store32_outside:
  assumes "unat i < 1024" "in_page v a" "v mod PGSIZE = 0" "w mod PGSIZE = 0" "v \<noteq> w"
  shows "store32 m (w + 4 * i) x a = m a"
proof -
  have "\<not> unat (a - (w + 4 * i)) < 4"
  proof
    assume k: "unat (a - (w + 4 * i)) < 4"
    have "in_page w (w + 4 * i + (a - (w + 4 * i)))" by (rule table_slot(2) [OF assms(1) k])
    then have "in_page w a" by simp
    then show False using in_page_unique [OF assms(3,4,2)] assms(5) by simp
  qed
  then show ?thesis by (simp add: store32_apply)
qed

text \<open>Storing into a slot of a page table changes the entry of the pages of that slot only.\<close>

lemma pte_of_store:
  assumes inv: "pt_inv e m d" and pr: "dirent m d (PDX va) AND PTE_P \<noteq> 0"
  defines "slot \<equiv> table_of (dirent m d (PDX va)) + 4 * PTX va"
  shows "pte_of (store32 m slot x) d va' = (if PGROUNDDOWN va' = PGROUNDDOWN va then x else pte_of m d va')"
    "pt_inv e (store32 m slot x) d" "tables (store32 m slot x) d = tables m d"
proof -
  let ?t = "table_of (dirent m d (PDX va))"
  have t: "?t \<in> tables m d" unfolding tables_def using PDX_less pr by blast
  have g: "d mod PGSIZE = 0" "?t mod PGSIZE = 0" "?t \<noteq> d"
    using inv t by (auto simp: pt_inv_def good_page_def)
  have d: "store32 m slot x a = m a" if "in_page d a" for a
    unfolding slot_def by (rule store32_outside [OF PTX_less that g(1,2)]) (use g(3) in simp)
  show "tables (store32 m slot x) d = tables m d" by (rule tables_frame) (rule d)
  show "pt_inv e (store32 m slot x) d" using inv pt_inv_frame [of d "store32 m slot x" m e] d by blast
  have e: "dirent (store32 m slot x) d (PDX va') = dirent m d (PDX va')" by (rule dirent_frame [OF PDX_less]) (rule d)
  show "pte_of (store32 m slot x) d va' = (if PGROUNDDOWN va' = PGROUNDDOWN va then x else pte_of m d va')"
  proof (cases "PDX va' = PDX va")
    case True
    show ?thesis
    proof (cases "PTX va' = PTX va")
      case True
      then show ?thesis using e pr \<open>PDX va' = PDX va\<close> same_page [of va' va] by (simp add: pte_of_def slot_def)
    next
      case False
      have "load32 (store32 m slot x) (?t + 4 * PTX va') = load32 m (?t + 4 * PTX va')"
        unfolding slot_def
        by (rule load_store32_other) (use slot_aligned [OF g(2)] slot_inject [OF PTX_less PTX_less] False in auto)
      then show ?thesis using e pr \<open>PDX va' = PDX va\<close> same_page [of va' va] False by (simp add: pte_of_def)
    qed
  next
    case False
    show ?thesis
    proof (cases "dirent m d (PDX va') AND PTE_P = 0")
      case True
      then show ?thesis using e same_page [of va' va] False by (simp add: pte_of_def)
    next
      case pr': False
      let ?u = "table_of (dirent m d (PDX va'))"
      have u: "?u \<in> tables m d" unfolding tables_def using PDX_less pr' by blast
      have "?u \<noteq> ?t" using pt_inv_inj [OF inv PDX_less PDX_less pr' pr] False by blast
      moreover have "?u mod PGSIZE = 0" using inv u by (auto simp: pt_inv_def good_page_def)
      ultimately have "load32 (store32 m slot x) (?u + 4 * PTX va') = load32 m (?u + 4 * PTX va')"
        unfolding slot_def by (intro load32_page [OF PTX_less] store32_outside [OF PTX_less _ _ g(2)])
      then show ?thesis using e same_page [of va' va] False pr' by (simp add: pte_of_def)
    qed
  qed
qed

section \<open>Walking with allocation\<close>

lemma P2V_V2P [simp]: "P2V (V2P v) = v" "V2P (P2V v) = v"
  by (simp_all add: P2V_def V2P_def)

lemma PTE_bits: "PTE_P OR PTE_W OR PTE_U = 7" "unat (7 :: u32) < 4096"
  by (simp_all add: PTE_P_def PTE_W_def PTE_U_def)

lemma new_table:
  assumes "v mod PGSIZE = 0"
  shows "table_of (V2P v OR PTE_P OR PTE_W OR PTE_U) = v" "(V2P v OR PTE_P OR PTE_W OR PTE_U) AND PTE_P \<noteq> 0"
proof -
  have e: "V2P v OR PTE_P OR PTE_W OR PTE_U = V2P v OR 7" by (simp only: PTE_bits(1) or.assoc)
  show "table_of (V2P v OR PTE_P OR PTE_W OR PTE_U) = v"
    unfolding e table_of_def PTE_split(1) [OF V2P_aligned [OF assms] PTE_bits(2)] by simp
  show "(V2P v OR PTE_P OR PTE_W OR PTE_U) AND PTE_P \<noteq> 0"
    unfolding e PTE_P_bit by (simp add: bit_or_iff)
qed

lemma in_page_zero: "v mod PGSIZE = 0 \<Longrightarrow> load32 (memset v 0 PGSIZE m) (v + 4 * i) = 0" if "unat i < 1024" for i
proof -
  have "memset v 0 PGSIZE m (v + 4 * i + k) = 0" if "unat k < 4" for k
    using table_slot(2) [OF \<open>unat i < 1024\<close> that, of v] by (simp add: memset_apply in_page_def PGSIZE_def)
  from this [of 0] this [of 1] this [of 2] this [of 3]
  show ?thesis by (simp add: load32_def join4_def)
qed

lemma memset_outside: "\<not> in_page v a \<Longrightarrow> memset v c PGSIZE m a = m a"
  by (simp add: memset_apply in_page_def PGSIZE_def)

text \<open>A page table that is added for an address whose directory entry was empty: no entry of the
  address space changes, all entries of the new table being 0.\<close>

lemma add_table:
  assumes inv: "pt_inv e m d" and v: "good_page e v" "v \<noteq> d" "v \<notin> tables m d" and i: "unat i < 1024"
    and ab: "dirent m d i AND PTE_P = 0"
  defines "m' \<equiv> store32 (memset v 0 PGSIZE m) (d + 4 * i) (V2P v OR PTE_P OR PTE_W OR PTE_U)"
  shows "pt_inv e m' d" "tables m' d = insert v (tables m d)" "pte_of m' d va = pte_of m d va"
    "dirent m' d i AND PTE_P \<noteq> 0" "table_of (dirent m' d i) = v"
proof -
  have g: "d mod PGSIZE = 0" "v mod PGSIZE = 0" "good_page e d" using inv v(1) by (auto simp: pt_inv_def good_page_def)
  have dp: "memset v 0 PGSIZE m a = m a" if "in_page d a" for a
    using in_page_unique [OF g(1,2) that] v(2) by (intro memset_outside) auto
  have tp: "m' a = m a" if "t \<in> tables m d" "in_page t a" for t a
  proof -
    have t: "t mod PGSIZE = 0" "t \<noteq> d" "t \<noteq> v" using inv that(1) v(3) by (auto simp: pt_inv_def good_page_def)
    have "memset v 0 PGSIZE m a = m a"
      using in_page_unique [OF t(1) g(2) that(2)] t(3) by (intro memset_outside) auto
    then show ?thesis unfolding m'_def using store32_outside [OF i that(2) t(1) g(1) t(2)] by simp
  qed
  have de: "dirent m' d j = (if j = i then V2P v OR PTE_P OR PTE_W OR PTE_U else dirent m d j)" if j: "unat j < 1024" for j
  proof (cases "j = i")
    case False
    have "load32 m' (d + 4 * j) = load32 (memset v 0 PGSIZE m) (d + 4 * j)"
      unfolding m'_def by (rule load_store32_other)
        (use slot_aligned [OF g(1)] slot_inject [OF i j] False in auto)
    also have "\<dots> = load32 m (d + 4 * j)" by (rule load32_page [OF j]) (rule dp)
    finally show ?thesis using False by (simp add: dirent_def)
  qed (simp add: dirent_def m'_def)
  show n: "dirent m' d i AND PTE_P \<noteq> 0" "table_of (dirent m' d i) = v"
    using de [OF i] new_table [OF g(2)] by simp_all
  show tb: "tables m' d = insert v (tables m d)"
  proof (intro set_eqI iffI)
    fix t
    assume "t \<in> tables m' d"
    then obtain j where j: "t = table_of (dirent m' d j)" "unat j < 1024" "dirent m' d j AND PTE_P \<noteq> 0"
      unfolding tables_def by blast
    show "t \<in> insert v (tables m d)"
    proof (cases "j = i")
      case True
      then show ?thesis using j(1) n(2) by simp
    next
      case False
      then have "dirent m' d j = dirent m d j" using de [OF j(2)] by simp
      then show ?thesis using j unfolding tables_def by auto
    qed
  next
    fix t
    assume t: "t \<in> insert v (tables m d)"
    show "t \<in> tables m' d"
    proof (cases "t = v")
      case True
      then show ?thesis using n i unfolding tables_def by blast
    next
      case False
      then obtain j where "t = table_of (dirent m d j)" "unat j < 1024" "dirent m d j AND PTE_P \<noteq> 0"
        using t unfolding tables_def by blast
      moreover from this have "j \<noteq> i" using ab by auto
      ultimately show ?thesis using de [of j] unfolding tables_def by (intro CollectI exI [of _ j]) simp
    qed
  qed
  have mem: "table_of (dirent m d j) \<in> tables m d" if "unat j < 1024" "dirent m d j AND PTE_P \<noteq> 0" for j
    using that unfolding tables_def by blast
  have old: "table_of (dirent m' d j) \<noteq> v" if "unat j < 1024" "j \<noteq> i" "dirent m' d j AND PTE_P \<noteq> 0" for j
  proof -
    have e: "dirent m' d j = dirent m d j" using de [OF that(1)] that(2) by simp
    then have "table_of (dirent m d j) \<in> tables m d" using mem [OF that(1)] that(3) by simp
    then show ?thesis using v(3) e by auto
  qed
  show "pt_inv e m' d"
    unfolding pt_inv_def
  proof (intro conjI ballI allI impI)
    show "good_page e d" by (rule g(3))
    fix t
    assume "t \<in> tables m' d"
    then show "good_page e t" "t \<noteq> d" using tb inv v by (auto simp: pt_inv_def)
  next
    fix j k
    assume jk: "unat j < 1024" "unat k < 1024" "dirent m' d j AND PTE_P \<noteq> 0" "dirent m' d k AND PTE_P \<noteq> 0"
      "table_of (dirent m' d j) = table_of (dirent m' d k)"
    show "j = k"
    proof (cases "j = i \<or> k = i")
      case True
      then show ?thesis using jk(5) n(2) old [OF jk(1) _ jk(3)] old [OF jk(2) _ jk(4)] by metis
    next
      case False
      then have "dirent m' d j = dirent m d j" "dirent m' d k = dirent m d k" using de jk(1,2) by simp_all
      then show ?thesis using pt_inv_inj [OF inv jk(1,2)] jk(3-5) by simp
    qed
  qed
  show "pte_of m' d va = pte_of m d va"
  proof (cases "PDX va = i")
    case True
    have "load32 m' (v + 4 * PTX va) = load32 (memset v 0 PGSIZE m) (v + 4 * PTX va)"
      unfolding m'_def by (rule load32_page [OF PTX_less]) (rule store32_outside [OF i _ g(2,1) v(2)])
    also have "\<dots> = 0" by (rule in_page_zero [OF PTX_less g(2)])
    finally show ?thesis using True n ab by (simp add: pte_of_def)
  next
    case False
    then have e: "dirent m' d (PDX va) = dirent m d (PDX va)" using de [OF PDX_less] by simp
    show ?thesis
    proof (cases "dirent m d (PDX va) AND PTE_P = 0")
      case False
      have "load32 m' (table_of (dirent m d (PDX va)) + 4 * PTX va) = load32 m (table_of (dirent m d (PDX va)) + 4 * PTX va)"
        by (rule load32_page [OF PTX_less]) (rule tp [OF mem [OF PDX_less False]])
      then show ?thesis using e by (simp add: pte_of_def)
    qed (use e in \<open>simp add: pte_of_def\<close>)
  qed
qed

lemma kmem_inv_frame:
  assumes "kmem_inv s pages" "\<And>v a. v \<in> set pages \<Longrightarrow> in_page v a \<Longrightarrow> m' a = mem s a"
  shows "kmem_inv (s\<lparr>mem := m'\<rparr>) pages"
proof -
  have "page_list m' p pages = page_list (mem s) p pages" for p by (rule page_list_frame) (rule assms(2))
  then show ?thesis using assms(1) by (simp add: kmem_inv_def)
qed

lemma vm_inv_pages:
  assumes "vm_inv s d pages"
  shows "v \<in> set pages \<Longrightarrow> good_page (k_end s) v \<and> v \<noteq> d \<and> v \<notin> tables (mem s) d"
  using assms by (auto simp: vm_inv_def kmem_inv_def)

text \<open>\<open>walkpgdir\<close> with allocation: it returns the slot of the address, or 0 when a table is missing and
  there is no free page. It keeps the invariant and every entry.\<close>

lemma walk_alloc:
  assumes "vm_inv s d pages"
  shows "\<exists>pte s' pages'. walkpgdir d va True s = Ret pte s' \<and> vm_inv s' d pages' \<and> k_end s' = k_end s
     \<and> (\<forall>va'. pte_of (mem s') d va' = pte_of (mem s) d va')
     \<and> (if pte = 0 then pages = [] \<and> dirent (mem s) d (PDX va) AND PTE_P = 0
         else dirent (mem s') d (PDX va) AND PTE_P \<noteq> 0 \<and> pte = table_of (dirent (mem s') d (PDX va)) + 4 * PTX va)"
proof (cases "dirent (mem s) d (PDX va) AND PTE_P = 0")
  case False
  let ?t = "table_of (dirent (mem s) d (PDX va))"
  have "?t \<in> tables (mem s) d" unfolding tables_def using PDX_less False by blast
  then have g: "good_page (k_end s) ?t" using assms by (auto simp: vm_inv_def pt_inv_def)
  have nz: "?t + 4 * PTX va \<noteq> 0"
  proof
    assume "?t + 4 * PTX va = 0"
    then have "in_page ?t 0" using table_slot(2) [OF PTX_less, of 0 ?t va] by simp
    then have "?t = 0" using in_page_unique [of ?t 0 0] g by (simp add: good_page_def in_page_def)
    then show False using good_page_nonzero [OF g] by simp
  qed
  have "walkpgdir d va True s = Ret (?t + 4 * PTX va) s"
    using False by (simp add: walkpgdir_def dirent_def table_of_def Let_def)
  then show ?thesis using assms False nz
    by (intro exI [of _ "?t + 4 * PTX va"] exI [of _ s] exI [of _ pages]) simp
next
  case True
  show ?thesis
  proof (cases pages)
    case Nil
    have k: "kmem_inv s []" using assms Nil by (simp add: vm_inv_def)
    have "walkpgdir d va True s = Ret 0 (kmem_after s)"
      using True kalloc_eq [OF k] by (simp add: walkpgdir_def dirent_def Let_def)
    moreover have "vm_inv (kmem_after s) d []"
      using assms Nil lockable_kmem_after [of _ s] by (auto simp: vm_inv_def kmem_inv_def)
    ultimately show ?thesis using True Nil
      by (intro exI [of _ 0] exI [of _ "kmem_after s"] exI [of _ "[]"]) simp
  next
    case (Cons x xs)
    let ?s1 = "(kmem_after s)\<lparr>kmem_freelist := load32 (mem s) x\<rparr>"
    let ?m = "store32 (memset x 0 PGSIZE (mem s)) (d + 4 * PDX va) (V2P x OR PTE_P OR PTE_W OR PTE_U)"
    let ?s2 = "?s1\<lparr>mem := ?m\<rparr>"
    have k: "kmem_inv s (x # xs)" using assms Cons by (simp add: vm_inv_def)
    note al = kalloc_inv [OF k]
    have x: "good_page (k_end s) x" "x \<noteq> d" "x \<notin> tables (mem s) d"
      using vm_inv_pages [OF assms, of x] Cons by auto
    have p: "pt_inv (k_end s) (mem s) d" using assms by (simp add: vm_inv_def)
    note at = add_table [OF p x PDX_less True]
    have xn: "x \<noteq> 0" using good_page_nonzero [OF x(1)] .
    have nz: "x + 4 * PTX va \<noteq> 0"
    proof
      assume "x + 4 * PTX va = 0"
      then have "in_page x 0" using table_slot(2) [OF PTX_less, of 0 x va] by simp
      then show False using in_page_unique [of x 0 0] x(1) xn by (simp add: good_page_def in_page_def)
    qed
    have w: "walkpgdir d va True s = Ret (x + 4 * PTX va) ?s2"
      using True al(1) xn by (simp add: walkpgdir_def dirent_def Let_def)
    have dis: "x \<notin> set xs" using k by (simp add: kmem_inv_def)
    have fr: "?m a = mem s a" if "v \<in> set xs" "in_page v a" for v a
    proof -
      have v: "good_page (k_end s) v" "v \<noteq> d" using vm_inv_pages [OF assms, of v] Cons that(1) by auto
      have vx: "v \<noteq> x" using that(1) dis by auto
      have "memset x 0 PGSIZE (mem s) a = mem s a"
        using good_page_unique [OF v(1) x(1) that(2)] vx by (intro memset_outside) auto
      moreover have "d mod PGSIZE = 0" "v mod PGSIZE = 0" using p v(1) by (auto simp: pt_inv_def good_page_def)
      ultimately show ?thesis using store32_outside [OF PDX_less that(2) _ _ v(2)] by simp
    qed
    have "kmem_inv ?s2 xs"
      using kmem_inv_frame [OF al(2), of ?m] fr by simp
    then have "vm_inv ?s2 d xs" using at(1,2) assms Cons dis x by (auto simp: vm_inv_def)
    then show ?thesis using w at(3,4,5) nz
      by (intro exI [of _ "x + 4 * PTX va"] exI [of _ ?s2] exI [of _ xs]) simp
  qed
qed

section \<open>Mapping a run of pages\<close>

lemma PGROUNDDOWN_same: "a mod PGSIZE = 0 \<Longrightarrow> PGROUNDDOWN a = a"
proof -
  assume "a mod PGSIZE = 0"
  then have "unat a mod 4096 = 0" by (simp add: aligned_iff)
  then have "unat a div 4096 * 4096 = unat a" by auto
  then show ?thesis by (simp add: word_unat_eq_iff unat_PGROUNDDOWN)
qed

lemma vm_inv_store:
  assumes inv: "vm_inv s d pages" and pr: "dirent (mem s) d (PDX va) AND PTE_P \<noteq> 0"
  shows "vm_inv (s\<lparr>mem := store32 (mem s) (table_of (dirent (mem s) d (PDX va)) + 4 * PTX va) x\<rparr>) d pages"
proof -
  let ?t = "table_of (dirent (mem s) d (PDX va))"
  have p: "pt_inv (k_end s) (mem s) d" using inv by (simp add: vm_inv_def)
  have t: "?t \<in> tables (mem s) d" unfolding tables_def using PDX_less pr by blast
  then have tm: "?t mod PGSIZE = 0" using p by (auto simp: pt_inv_def good_page_def)
  note st = pte_of_store(2,3) [OF p pr, of x]
  have "kmem_inv (s\<lparr>mem := store32 (mem s) (?t + 4 * PTX va) x\<rparr>) pages"
  proof (rule kmem_inv_frame)
    show "kmem_inv s pages" using inv by (simp add: vm_inv_def)
    fix v a
    assume v: "v \<in> set pages" "in_page v a"
    have "v mod PGSIZE = 0" "v \<noteq> ?t" using vm_inv_pages [OF inv v(1)] t by (auto simp: good_page_def)
    then show "store32 (mem s) (?t + 4 * PTX va) x a = mem s a" by (intro store32_outside [OF PTX_less v(2) _ tm])
  qed
  then show ?thesis using st inv by (simp add: vm_inv_def)
qed

text \<open>The addresses of the \<open>k + 1\<close> pages from \<open>a\<close>.\<close>

definition page_run :: "u32 \<Rightarrow> nat \<Rightarrow> u32 \<Rightarrow> bool" where
  "page_run a k va \<longleftrightarrow> (\<exists>i \<le> k. PGROUNDDOWN va = a + of_nat (4096 * i))"

lemma page_step:
  assumes "a mod PGSIZE = 0" "unat a + 4096 * Suc k < 2 ^ 32"
  shows "(a + PGSIZE) mod PGSIZE = 0" "unat (a + PGSIZE) = unat a + 4096"
    "a + PGSIZE + of_nat (4096 * i) = a + of_nat (4096 * Suc i)"
    "0 < j \<Longrightarrow> j \<le> Suc k \<Longrightarrow> a + of_nat (4096 * j) \<noteq> a"
proof -
  show u: "unat (a + PGSIZE) = unat a + 4096" using assms(2) by (simp add: PGSIZE_def unat_plus_small)
  then show "(a + PGSIZE) mod PGSIZE = 0" using assms(1) by (simp add: aligned_iff)
  show "a + PGSIZE + of_nat (4096 * i) = a + of_nat (4096 * Suc i)" by (simp add: PGSIZE_def)
  assume j: "0 < j" "j \<le> Suc k"
  have "unat (of_nat (4096 * j) :: u32) = 4096 * j" by (rule unat_of_nat_small) (use j assms(2) in simp)
  then have "of_nat (4096 * j) \<noteq> (0 :: u32)" using j by (metis mult_is_0 neq0_conv unat_0 zero_neq_numeral)
  then show "a + of_nat (4096 * j) \<noteq> a" by simp
qed

lemma page_run_0: "page_run a 0 va \<longleftrightarrow> PGROUNDDOWN va = a"
  by (simp add: page_run_def)

lemma ex_le_Suc: "(\<exists>i \<le> Suc k. P i) \<longleftrightarrow> P 0 \<or> (\<exists>i \<le> k. P (Suc i))"
  by (metis Suc_le_mono le0 not0_implies_Suc)

lemma page_run_Suc: "page_run a (Suc k) va \<longleftrightarrow> PGROUNDDOWN va = a \<or> page_run (a + PGSIZE) k va"
  unfolding page_run_def ex_le_Suc by (simp add: PGSIZE_def add.assoc)

lemma not_page_run:
  assumes "a mod PGSIZE = 0" "unat a + 4096 * Suc k < 2 ^ 32" "PGROUNDDOWN va = a"
  shows "\<not> page_run (a + PGSIZE) k va"
proof
  assume "page_run (a + PGSIZE) k va"
  then obtain i where i: "i \<le> k" "PGROUNDDOWN va = a + PGSIZE + of_nat (4096 * i)" by (auto simp: page_run_def)
  then have "a + of_nat (4096 * Suc i) = a" using page_step(3) [OF assms(1,2), of i] assms(3) by metis
  then show False using page_step(4) [OF assms(1,2), of "Suc i"] i(1) by blast
qed

text \<open>One iteration of the loop of \<^verbatim>\<open>mappages\<close>: either it stops for lack of a page with all entries as
  they were, or it has written the entry of the page at \<open>a\<close>.\<close>

lemma map_one:
  assumes inv: "vm_inv s d pages" and a: "a mod PGSIZE = 0" and ab: "pte_of (mem s) d a AND PTE_P = 0"
  obtains (full) s' where "\<And>n alast pa perm. mappages_from (Suc n) d a alast pa perm s = Ret (- 1) s'" "vm_inv s' d []"
      "k_end s' = k_end s" "\<And>va. pte_of (mem s') d va = pte_of (mem s) d va"
  | (mapped) f pages' where "\<And>n alast pa perm. mappages_from (Suc n) d a alast pa perm s =
        (if a = alast then Ret 0 (f (pa OR perm OR PTE_P)) else mappages_from n d (a + PGSIZE) alast (pa + PGSIZE) perm (f (pa OR perm OR PTE_P)))"
      "\<And>x. vm_inv (f x) d pages'" "\<And>x. k_end (f x) = k_end s"
      "\<And>x va. pte_of (mem (f x)) d va = (if PGROUNDDOWN va = a then x else pte_of (mem s) d va)"
proof -
  obtain pte s1 pages' where w: "walkpgdir d a True s = Ret pte s1" "vm_inv s1 d pages'" "k_end s1 = k_end s"
    "\<And>va'. pte_of (mem s1) d va' = pte_of (mem s) d va'"
    and c: "if pte = 0 then pages = [] \<and> dirent (mem s) d (PDX a) AND PTE_P = 0
         else dirent (mem s1) d (PDX a) AND PTE_P \<noteq> 0 \<and> pte = table_of (dirent (mem s1) d (PDX a)) + 4 * PTX a"
    using walk_alloc [OF inv, of a] by blast
  show ?thesis
  proof (cases "pte = 0")
    case True
    then have "pages = []" using c by simp
    then have "vm_inv s1 d []"
      using inv w(1) True kalloc_eq [of s "[]"] w(2) c
      by (auto simp: walkpgdir_def dirent_def Let_def vm_inv_def kmem_inv_def dest: lockable_kmem_after)
    then show ?thesis using full [of s1] w True by simp
  next
    case False
    then have pr: "dirent (mem s1) d (PDX a) AND PTE_P \<noteq> 0" and pt: "pte = table_of (dirent (mem s1) d (PDX a)) + 4 * PTX a"
      using c by simp_all
    have p: "pt_inv (k_end s1) (mem s1) d" using w(2) by (simp add: vm_inv_def)
    have "load32 (mem s1) pte = pte_of (mem s) d a" using w(4) [of a] pr pt by (simp add: pte_of_def)
    then have l: "load32 (mem s1) pte AND PTE_P = 0" using ab by simp
    let ?f = "\<lambda>x. s1\<lparr>mem := store32 (mem s1) pte x\<rparr>"
    have "vm_inv (?f x) d pages'" for x using vm_inv_store [OF w(2) pr] pt by simp
    moreover have "pte_of (mem (?f x)) d va = (if PGROUNDDOWN va = a then x else pte_of (mem s) d va)" for x va
      using pte_of_store(1) [OF p pr] w(4) pt PGROUNDDOWN_same [OF a] by simp
    ultimately show ?thesis using mapped [of ?f pages'] w(1,3) False l by (simp add: Let_def)
  qed
qed

lemma mappages_from_ok:
  assumes "vm_inv s d pages" "a mod PGSIZE = 0" "unat a + 4096 * k < 2 ^ 32" "alast = a + of_nat (4096 * k)" "k < n"
    and "\<And>va. page_run a k va \<Longrightarrow> pte_of (mem s) d va AND PTE_P = 0"
  shows "\<exists>r s' pages'. mappages_from n d a alast pa perm s = Ret r s' \<and> vm_inv s' d pages' \<and> k_end s' = k_end s
     \<and> (r = 0 \<or> r = - 1 \<and> pages' = [])
     \<and> (\<forall>va. \<not> page_run a k va \<longrightarrow> pte_of (mem s') d va = pte_of (mem s) d va)
     \<and> (r = 0 \<longrightarrow> (\<forall>va. page_run a k va \<longrightarrow> pte_of (mem s') d va = (pa + (PGROUNDDOWN va - a)) OR perm OR PTE_P))"
  using assms
proof (induction k arbitrary: a pa s n pages)
  case 0
  then obtain n' where n: "n = Suc n'" by (cases n) auto
  have ab: "pte_of (mem s) d a AND PTE_P = 0"
    using 0(6) [of a] PGROUNDDOWN_same [OF 0(2)] by (simp add: page_run_0)
  show ?case
  proof (cases rule: map_one [OF 0(1,2) ab])
    case (1 s')
    then show ?thesis unfolding n by (intro exI [of _ "- 1"] exI [of _ s'] exI [of _ "[]"]) simp
  next
    case (2 f pages')
    then show ?thesis unfolding n using 0(4)
      by (intro exI [of _ 0] exI [of _ "f (pa OR perm OR PTE_P)"] exI [of _ pages']) (simp add: page_run_0)
  qed
next
  case (Suc k)
  obtain n' where n: "n = Suc n'" using Suc.prems(5) by (cases n) auto
  note st = page_step [OF Suc.prems(2,3)]
  note nr = not_page_run [OF Suc.prems(2,3)]
  have ab: "pte_of (mem s) d a AND PTE_P = 0"
    using Suc.prems(6) [of a] PGROUNDDOWN_same [OF Suc.prems(2)] by (simp add: page_run_Suc)
  show ?case
  proof (cases rule: map_one [OF Suc.prems(1,2) ab])
    case (1 s')
    then show ?thesis unfolding n by (intro exI [of _ "- 1"] exI [of _ s'] exI [of _ "[]"]) simp
  next
    case (2 f pages')
    let ?x = "pa OR perm OR PTE_P"
    have ne: "a \<noteq> alast" unfolding Suc.prems(4) using st(4) [OF zero_less_Suc order_refl] by (rule not_sym)
    have al: "alast = a + PGSIZE + of_nat (4096 * k)" using st(3) [of k] Suc.prems(4) by simp
    have un: "unat (a + PGSIZE) + 4096 * k < 2 ^ 32" using st(2) Suc.prems(3) by simp
    have cl: "pte_of (mem (f ?x)) d va AND PTE_P = 0" if "page_run (a + PGSIZE) k va" for va
      using that nr [of va] Suc.prems(6) [of va] 2(4) [of ?x va] by (auto simp: page_run_Suc)
    obtain r s' p' where r: "mappages_from n' d (a + PGSIZE) alast (pa + PGSIZE) perm (f ?x) = Ret r s'" "vm_inv s' d p'"
      "k_end s' = k_end (f ?x)" "r = 0 \<or> r = - 1 \<and> p' = []"
      "\<And>va. \<not> page_run (a + PGSIZE) k va \<Longrightarrow> pte_of (mem s') d va = pte_of (mem (f ?x)) d va"
      "\<And>va. r = 0 \<Longrightarrow> page_run (a + PGSIZE) k va \<Longrightarrow>
         pte_of (mem s') d va = (pa + PGSIZE + (PGROUNDDOWN va - (a + PGSIZE))) OR perm OR PTE_P"
      using Suc.IH [OF 2(2) st(1) un al _ cl, of n' "pa + PGSIZE"] Suc.prems(5) n by blast
    have "mappages_from n d a alast pa perm s = Ret r s'" unfolding n using 2(1) [of n' alast pa perm] ne r(1) by simp
    moreover have "pte_of (mem s') d va = pte_of (mem s) d va" if "\<not> page_run a (Suc k) va" for va
      using that r(5) [of va] 2(4) [of ?x va] by (simp add: page_run_Suc)
    moreover have "pte_of (mem s') d va = (pa + (PGROUNDDOWN va - a)) OR perm OR PTE_P" if "r = 0" "page_run a (Suc k) va" for va
    proof (cases "PGROUNDDOWN va = a")
      case True
      then show ?thesis using r(5) [of va] nr [of va] 2(4) [of ?x va] by simp
    next
      case False
      then have "page_run (a + PGSIZE) k va" using that(2) by (simp add: page_run_Suc)
      then show ?thesis using r(6) [OF that(1)] by simp
    qed
    ultimately show ?thesis using r(2-4) 2(3) by (intro exI [of _ r] exI [of _ s'] exI [of _ p']) simp
  qed
qed

section \<open>Loops over pages end\<close>

lemma terminates_on_mach [ends]: "(\<And>m. terminates (f m)) \<Longrightarrow> terminates (on_mach f s)"
  by (auto simp: on_mach_def split: outcome.splits) (metis terminates_simps(5))

lemma terminates_mycpu [ends]: "terminates (mycpu m)"
  by (simp add: mycpu_def split: option.splits)

lemma terminates_pushcli [ends]: "terminates (pushcli m)"
  unfolding pushcli_def Let_def by (auto intro!: ends)

lemma terminates_popcli [ends]: "terminates (popcli m)"
  unfolding popcli_def Let_def by (auto intro!: ends)

lemma terminates_holding [ends]: "terminates (holding lk m)"
  unfolding holding_def Let_def by (auto intro!: ends)

lemma terminates_acquire [ends]: "terminates (acquire lk m)"
  unfolding acquire_def acquire_spin_def Let_def by (auto intro!: ends)

lemma terminates_release [ends]: "terminates (release lk m)"
  unfolding release_def Let_def by (auto intro!: ends)

lemma terminates_kmem [ends]: "terminates (kmem_lock s)" "terminates (kmem_unlock s)"
  unfolding kmem_lock_def kmem_unlock_def by (auto intro!: ends)

lemma terminates_kalloc [ends]: "terminates (kalloc s)"
  unfolding kalloc_def Let_def by (auto intro!: ends)

lemma terminates_kfree [ends]: "terminates (kfree v s)"
  unfolding kfree_def Let_def by (auto intro!: ends)

lemma terminates_walkpgdir [ends]: "terminates (walkpgdir d va al s)"
  unfolding walkpgdir_def Let_def by (auto intro!: ends)

lemma terminates_uva2ka [ends]: "terminates (uva2ka d va s)"
  unfolding uva2ka_def Let_def by (auto intro!: ends)

lemma aligned_diff: "a mod PGSIZE = 0 \<Longrightarrow> b mod PGSIZE = 0 \<Longrightarrow> (b - a) mod PGSIZE = 0"
  by (auto simp: PGSIZE_def word_unat_eq_iff unat_mod unat_sub_if')

lemma aligned_pos: "a mod PGSIZE = 0 \<Longrightarrow> a \<noteq> 0 \<Longrightarrow> 4096 \<le> unat a"
proof -
  assume a: "a mod PGSIZE = 0" "a \<noteq> 0"
  then obtain q where "unat a = 4096 * q" by (auto simp: aligned_iff)
  moreover have "unat a \<noteq> 0" using a(2) by (simp add: unat_eq_0)
  ultimately show ?thesis by simp
qed

lemma terminates_mappages_from:
  "a mod PGSIZE = 0 \<Longrightarrow> alast mod PGSIZE = 0 \<Longrightarrow> unat (alast - a) < 4096 * n \<Longrightarrow>
     terminates (mappages_from n d a alast pa perm s)"
proof (induction n arbitrary: a pa s)
  case 0
  then show ?case by simp
next
  case (Suc n)
  have rec: "terminates (mappages_from n d (a + PGSIZE) alast (pa + PGSIZE) perm s)" if "a \<noteq> alast" for s :: "'a kmem_state_scheme"
  proof (rule Suc.IH)
    have g: "4096 \<le> unat (alast - a)"
      using that by (intro aligned_pos aligned_diff Suc.prems(1,2)) auto
    show "(a + PGSIZE) mod PGSIZE = 0"
      using Suc.prems(1) by (auto simp: PGSIZE_def word_unat_eq_iff unat_mod unat_word_ariths mod_mod_cancel)
    show "alast mod PGSIZE = 0" by (rule Suc.prems(2))
    have "unat (alast - (a + PGSIZE)) = unat (alast - a) - 4096"
      using unat_offset_add [of PGSIZE alast a] g by (simp add: PGSIZE_def)
    then show "unat (alast - (a + PGSIZE)) < 4096 * n" using Suc.prems(3) g by simp
  qed
  show ?case by (auto intro!: ends rec simp: Let_def)
qed

lemma terminates_mappages [ends]: "terminates (mappages d va sz pa perm s)"
proof -
  have "unat (PGROUNDDOWN (va + sz - 1) - PGROUNDDOWN va) < 4096 * max_pages"
    using unat_less_4G by (simp add: max_pages_def)
  then show ?thesis unfolding mappages_def by (intro terminates_mappages_from) auto
qed

lemma next_table:
  assumes "a mod PGSIZE = 0" "unat a < 0xFFC00000"
  shows "PGADDR (PDX a + 1) 0 0 mod PGSIZE = 0" "unat a + 4096 \<le> unat (PGADDR (PDX a + 1) 0 0)"
    "unat (PGADDR (PDX a + 1) 0 0) \<le> 0xFFC00000"
proof -
  have p: "unat (PDX a) = unat a div 4194304"
    using assms(2) by (simp add: PDX_def and_3FF take_bit_eq_mod unat_mod drop_bit_eq_div unat_div)
  then have q: "unat (PDX a + 1) = unat a div 4194304 + 1" using assms(2) by (subst unat_plus_small) simp_all
  have e: "PGADDR (PDX a + 1) 0 0 = (PDX a + 1) * 4194304" by (simp add: PGADDR_def push_bit_eq_mult)
  have u: "unat (PGADDR (PDX a + 1) 0 0) = (unat a div 4194304 + 1) * 4194304"
    unfolding e unat_word_ariths(2) q using assms(2) by simp
  obtain k where k: "unat a = 4096 * k" using assms(1) by (auto simp: aligned_iff)
  have d: "unat a div 4194304 = k div 1024" using k by (simp add: div_mult2_eq [of _ 4096 1024, simplified])
  have "(k div 1024 + 1) * 1024 \<ge> k + 1" using div_mult_mod_eq [of k 1024] mod_less_divisor [of 1024 k] by simp
  then show "unat a + 4096 \<le> unat (PGADDR (PDX a + 1) 0 0)" unfolding u d k by simp
  show "PGADDR (PDX a + 1) 0 0 mod PGSIZE = 0" unfolding aligned_iff u by simp
  have "unat a div 4194304 < 1023" using assms(2) by simp
  then show "unat (PGADDR (PDX a + 1) 0 0) \<le> 0xFFC00000" unfolding u by simp
qed

lemma terminates_deallocuvm_from:
  "a mod PGSIZE = 0 \<Longrightarrow> unat oldsz \<le> 0xFFC00000 \<Longrightarrow> 0xFFC00000 < unat a + 4096 * n \<Longrightarrow> unat a \<le> 0xFFC00000 \<Longrightarrow>
     terminates (deallocuvm_from n d a oldsz s)"
proof (induction n arbitrary: a s)
  case 0
  then show ?case by simp
next
  case (Suc n)
  show ?case
  proof (cases "a < oldsz")
    case True
    then have lt: "unat a < 0xFFC00000" using Suc.prems(2) by (simp add: word_less_nat_alt)
    note t = next_table [OF Suc.prems(1) lt]
    have al: "(a + PGSIZE) mod PGSIZE = 0" "unat (a + PGSIZE) = unat a + 4096"
      using page_step [OF Suc.prems(1), of 0] lt by simp_all
    obtain q where q: "unat a = 4096 * q" using Suc.prems(1) by (auto simp: aligned_iff)
    then have "q < 1047552" using lt by simp
    then have "unat a + 4096 \<le> 0xFFC00000" using q by simp
    then have r1: "terminates (deallocuvm_from n d (a + PGSIZE) oldsz s)" for s :: "'a kmem_state_scheme"
      using Suc.prems al by (intro Suc.IH) simp_all
    have r2: "terminates (deallocuvm_from n d (PGADDR (PDX a + 1) 0 0 - PGSIZE + PGSIZE) oldsz s)" for s :: "'a kmem_state_scheme"
      using Suc.prems t by (intro Suc.IH) simp_all
    show ?thesis using r1 r2 by (auto intro!: ends simp: Let_def)
  qed simp
qed

lemma terminates_deallocuvm [ends]: "oldsz \<le> 0xFFC00000 \<Longrightarrow> terminates (deallocuvm d oldsz newsz s)"
proof -
  assume o: "oldsz \<le> 0xFFC00000"
  then have u: "unat oldsz \<le> 0xFFC00000" by (simp add: word_le_nat_alt)
  have "unat (PGROUNDUP newsz) \<le> 0xFFC00000" if "newsz < oldsz"
  proof -
    have "unat newsz < 0xFFC00000" using that u by (simp add: word_less_nat_alt)
    then have "unat (newsz + PGSIZE - 1) = unat newsz + 4095"
      by (subst unat_sub) (simp_all add: PGSIZE_def unat_plus_small word_le_nat_alt)
    then show ?thesis using \<open>unat newsz < 0xFFC00000\<close> by (simp add: PGROUNDUP_DOWN unat_PGROUNDDOWN)
  qed
  then show ?thesis using u unfolding deallocuvm_def
    by (auto intro!: ends terminates_deallocuvm_from simp: max_pages_def)
qed

lemma terminates_freevm [ends]: "terminates (freevm d s)"
  unfolding freevm_def Let_def by (auto intro!: ends simp: KERNBASE_def)

lemma terminates_setupkvm_from [ends]: "terminates (setupkvm_from d ks s)"
  by (induction d ks s rule: setupkvm_from.induct) (auto intro!: ends)

lemma terminates_setupkvm [ends]: "terminates (setupkvm s)"
  unfolding setupkvm_def Let_def by (auto intro!: ends)

lemma terminates_allocuvm_from:
  "a mod PGSIZE = 0 \<Longrightarrow> newsz \<le> KERNBASE \<Longrightarrow> 2 ^ 31 < unat a + 4096 * n \<Longrightarrow> unat a \<le> 2 ^ 31 \<Longrightarrow>
     terminates (allocuvm_from n d a oldsz newsz s)"
proof (induction n arbitrary: a s)
  case 0
  then show ?case by simp
next
  case (Suc n)
  show ?case
  proof (cases "a < newsz")
    case True
    then have lt: "unat a < 2 ^ 31" using Suc.prems(2) by (simp add: word_less_nat_alt word_le_nat_alt KERNBASE_def)
    have al: "(a + PGSIZE) mod PGSIZE = 0" "unat (a + PGSIZE) = unat a + 4096"
      using page_step [OF Suc.prems(1), of 0] lt by simp_all
    obtain q where q: "unat a = 4096 * q" using Suc.prems(1) by (auto simp: aligned_iff)
    then have "unat a + 4096 \<le> 2 ^ 31" using lt by simp
    then have "terminates (allocuvm_from n d (a + PGSIZE) oldsz newsz s)" for s :: "'a kmem_state_scheme"
      using Suc.prems al by (intro Suc.IH) simp_all
    moreover have "newsz \<le> 0xFFC00000" using Suc.prems(2) by (simp add: word_le_nat_alt KERNBASE_def)
    ultimately show ?thesis by (auto intro!: ends simp: Let_def)
  qed simp
qed

lemma PGROUNDUP_bound: "unat sz < 2 ^ 31 \<Longrightarrow> unat (PGROUNDUP sz) \<le> 2 ^ 31"
proof -
  assume s: "unat sz < 2 ^ 31"
  then have "unat (sz + PGSIZE - 1) = unat sz + 4095"
    by (subst unat_sub) (simp_all add: PGSIZE_def unat_plus_small word_le_nat_alt)
  then show ?thesis using s by (simp add: PGROUNDUP_DOWN unat_PGROUNDDOWN)
qed

lemma terminates_allocuvm [ends]: "terminates (allocuvm d oldsz newsz s)"
proof -
  have "terminates (allocuvm_from (Suc max_pages) d (PGROUNDUP oldsz) oldsz newsz s)" if "\<not> KERNBASE \<le> newsz" "\<not> newsz < oldsz"
  proof (rule terminates_allocuvm_from)
    have "unat oldsz < 2 ^ 31" using that by (simp add: word_less_nat_alt word_le_nat_alt KERNBASE_def)
    then show "unat (PGROUNDUP oldsz) \<le> 2 ^ 31" by (rule PGROUNDUP_bound)
  qed (use that in \<open>auto simp: max_pages_def\<close>)
  then show ?thesis by (auto simp: allocuvm_def)
qed

lemma terminates_copyuvm_from:
  "i mod PGSIZE = 0 \<Longrightarrow> sz \<le> 0xFFFFF000 \<Longrightarrow> 0xFFFFF000 < unat i + 4096 * n \<Longrightarrow> unat i \<le> 0xFFFFF000 \<Longrightarrow>
     terminates (copyuvm_from n pgdir d i sz s)"
proof (induction n arbitrary: i s)
  case 0
  then show ?case by simp
next
  case (Suc n)
  show ?case
  proof (cases "i < sz")
    case True
    then have lt: "unat i < 0xFFFFF000" using Suc.prems(2) by (simp add: word_less_nat_alt word_le_nat_alt)
    have al: "(i + PGSIZE) mod PGSIZE = 0" "unat (i + PGSIZE) = unat i + 4096"
      using page_step [OF Suc.prems(1), of 0] lt by simp_all
    obtain q where q: "unat i = 4096 * q" using Suc.prems(1) by (auto simp: aligned_iff)
    then have "q < 1048575" using lt by simp
    then have "unat i + 4096 \<le> 0xFFFFF000" using q by simp
    then have "terminates (copyuvm_from n pgdir d (i + PGSIZE) sz s)" for s :: "'a kmem_state_scheme"
      using Suc.prems al by (intro Suc.IH) simp_all
    then show ?thesis by (auto intro!: ends simp: Let_def)
  qed simp
qed

lemma terminates_copyuvm [ends]: "sz \<le> 0xFFFFF000 \<Longrightarrow> terminates (copyuvm pgdir sz s)"
  unfolding copyuvm_def by (auto intro!: ends terminates_copyuvm_from simp: max_pages_def PGSIZE_def)

lemma copyout_step:
  fixes va len :: u32
  defines "n0 \<equiv> PGSIZE - (va - PGROUNDDOWN va)"
  shows "0 < unat n0" "unat n0 \<le> 4096" "va mod PGSIZE = 0 \<Longrightarrow> n0 = PGSIZE"
proof -
  have le: "PGROUNDDOWN va \<le> va" by (simp add: word_le_nat_alt unat_PGROUNDDOWN)
  have "unat (va - PGROUNDDOWN va) = unat va - unat va div 4096 * 4096"
    using unat_sub [OF le] by (simp add: unat_PGROUNDDOWN)
  then have m: "unat (va - PGROUNDDOWN va) = unat va mod 4096" by (simp add: minus_div_mult_eq_mod)
  then have "va - PGROUNDDOWN va \<le> PGSIZE" using mod_less_divisor [of 4096 "unat va"] by (simp add: word_le_nat_alt PGSIZE_def)
  then have "unat n0 = 4096 - unat va mod 4096" unfolding n0_def using m by (simp add: unat_sub) (simp add: PGSIZE_def)
  then show "0 < unat n0" "unat n0 \<le> 4096" using mod_less_divisor [of 4096 "unat va"] by simp_all
  show "n0 = PGSIZE" if "va mod PGSIZE = 0" using PGROUNDDOWN_same [OF that] by (simp add: n0_def)
qed

lemma aligned_next: "a mod PGSIZE = 0 \<Longrightarrow> (a + PGSIZE) mod PGSIZE = 0"
  by (auto simp: PGSIZE_def word_unat_eq_iff unat_mod unat_word_ariths mod_mod_cancel)

lemma terminates_copyout_aligned:
  "va mod PGSIZE = 0 \<Longrightarrow> length bs + 4096 \<le> 4096 * k \<Longrightarrow> terminates (copyout_from k pgdir va bs s)"
proof (induction k arbitrary: va bs s)
  case 0
  then show ?case by simp
next
  case (Suc k)
  define n where "n = (if unat (PGSIZE - (va - PGROUNDDOWN va)) > length bs then length bs else unat (PGSIZE - (va - PGROUNDDOWN va)))"
  have n: "n = min 4096 (length bs)" unfolding n_def copyout_step(3) [OF Suc.prems(1)] by (simp add: PGSIZE_def)
  have l: "length (drop n bs) + 4096 \<le> 4096 * k" if "bs \<noteq> []"
    using that Suc.prems(2) by (cases k) (auto simp: n min_def Suc_le_eq)
  have "terminates (copyout_from k pgdir (PGROUNDDOWN va + PGSIZE) (drop n bs) s)" if "bs \<noteq> []"
    for s :: "'a kmem_state_scheme" by (rule Suc.IH [OF aligned_next l [OF that]]) simp
  then show ?case by (auto intro!: ends simp: Let_def n_def [symmetric])
qed

lemma terminates_copyout [ends]: "length bs < 2 ^ 32 \<Longrightarrow> terminates (copyout pgdir va bs s)"
proof -
  assume l: "length bs < 2 ^ 32"
  define n where "n = (if unat (PGSIZE - (va - PGROUNDDOWN va)) > length bs then length bs else unat (PGSIZE - (va - PGROUNDDOWN va)))"
  define k where "k = max_pages + 1"
  have r: "terminates (copyout_from k pgdir (PGROUNDDOWN va + PGSIZE) (drop n bs) s)" for s :: "'a kmem_state_scheme"
    by (rule terminates_copyout_aligned [OF aligned_next]) (use l in \<open>simp_all add: k_def max_pages_def\<close>)
  have e: "copyout pgdir va bs s = copyout_from (Suc k) pgdir va bs s"
    by (simp add: copyout_def k_def del: copyout_from.simps)
  show ?thesis unfolding e copyout_from.simps(2) by (auto intro!: ends r simp: Let_def n_def [symmetric])
qed

section \<open>Properties\<close>

text \<open>C24. \<^verbatim>\<open>mappages\<close> on a run of unmapped pages of a well-formed address space returns; with the result 0
  every address of the run has the entry of its physical page with the given permissions, and with
  the result -1 the free list is empty. In both cases no entry outside the run changes, no page table
  is shared or freed, and the page directory stays well formed.\<close>

theorem mappages_maps:
  assumes "vm_inv s d pages" "va mod PGSIZE = 0" "unat va + 4096 * k < 2 ^ 32" "k < max_pages"
    and "\<And>va'. page_run va k va' \<Longrightarrow> pte_of (mem s) d va' AND PTE_P = 0"
  shows "\<exists>r s' pages'. mappages d va (of_nat (4096 * Suc k)) pa perm s = Ret r s' \<and> vm_inv s' d pages'
     \<and> (r = 0 \<or> r = - 1 \<and> pages' = [])
     \<and> (\<forall>va'. \<not> page_run va k va' \<longrightarrow> pte_of (mem s') d va' = pte_of (mem s) d va')
     \<and> (r = 0 \<longrightarrow> (\<forall>va'. page_run va k va' \<longrightarrow> pte_of (mem s') d va' = (pa + (PGROUNDDOWN va' - va)) OR perm OR PTE_P))"
proof -
  have w: "unat (of_nat (4096 * k) :: u32) = 4096 * k" by (rule unat_of_nat_small) (use assms(3) in simp)
  have u: "unat (va + of_nat (4096 * k)) = unat va + 4096 * k"
    using assms(3) unat_plus_small [of va "of_nat (4096 * k)"] unfolding w by blast
  have al: "(va + of_nat (4096 * k)) mod PGSIZE = 0" using assms(2) by (simp only: aligned_iff u) simp
  define x where "x = va + of_nat (4096 * k)"
  have x: "x mod PGSIZE = 0" using al by (simp only: x_def)
  have e: "va + of_nat (4096 * Suc k) - 1 = x + 4095" by (simp add: x_def)
  obtain q where q: "unat x = 4096 * q" using x by (auto simp: aligned_iff)
  then have "unat (x + 4095) = unat x + 4095" using unat_less_4G [of x] by (subst unat_plus_small) simp_all
  then have "PGROUNDDOWN (x + 4095) = x" unfolding word_unat_eq_iff unat_PGROUNDDOWN using q by simp
  then have "PGROUNDDOWN (va + of_nat (4096 * Suc k) - 1) = va + of_nat (4096 * k)" unfolding e by (simp only: x_def)
  then have m: "mappages d va (of_nat (4096 * Suc k)) pa perm s = mappages_from max_pages d va (va + of_nat (4096 * k)) pa perm s"
    using PGROUNDDOWN_same [OF assms(2)] by (simp only: mappages_def)
  show ?thesis unfolding m using mappages_from_ok [OF assms(1-3) refl assms(4,5)] by blast
qed

text \<open>C25. The loops over pages of \<^verbatim>\<open>vm.c\<close> end, whatever the page tables contain: \<^verbatim>\<open>mappages\<close>, \<^verbatim>\<open>allocuvm\<close>, \<^verbatim>\<open>setupkvm\<close>,
  \<^verbatim>\<open>freevm\<close> and \<^verbatim>\<open>copyout\<close> for all arguments, a buffer having less than \<open>2 ^ 32\<close> bytes; \<^verbatim>\<open>deallocuvm\<close> for sizes up to
  \<open>0xFFC00000\<close> and \<^verbatim>\<open>copyuvm\<close> for sizes up to \<open>0xFFFFF000\<close>, beyond which their loop variables would wrap around; a process has at most
  \<^verbatim>\<open>KERNBASE\<close> bytes. The loop of \<^verbatim>\<open>loaduvm\<close>, which reads a file, is not covered.\<close>

theorem vm_loops_end:
  "terminates (mappages d va sz pa perm s) \<and> terminates (allocuvm d oldsz newsz s) \<and> (length bs < 2 ^ 32 \<longrightarrow> terminates (copyout d va bs s))
   \<and> terminates (setupkvm s) \<and> terminates (freevm d s)
   \<and> (oldsz \<le> 0xFFC00000 \<longrightarrow> terminates (deallocuvm d oldsz newsz s)) \<and> (oldsz \<le> 0xFFFFF000 \<longrightarrow> terminates (copyuvm d oldsz s))"
  by (auto intro!: ends)

text \<open>C26. A freed thread stack is handed out again, last in first out: after \<^verbatim>\<open>ufree\<close> of a mapped user
  stack the next \<^verbatim>\<open>ualloc\<close> returns it, cleared, with the list of free stacks as before.\<close>

theorem ufree_ualloc:
  assumes "uva2ka (p_pgdir (procs s ! p)) (sp - PGSIZE) s = Ret ka s" "good_page (k_end s) ka" "p < length (procs s)"
  shows "\<exists>s'. andthen (ufree p sp s) (\<lambda>_ s. ualloc p s) = Ret sp s'
     \<and> p_fslist (procs s' ! p) = p_fslist (procs s ! p) \<and> (\<forall>a. in_page ka a \<longrightarrow> mem s' a = 0)
     \<and> (\<forall>a. \<not> in_page ka a \<longrightarrow> mem s' a = mem s a)"
proof -
  have nz: "ka \<noteq> 0" using good_page_nonzero [OF assms(2)] .
  have al: "ka mod PGSIZE = 0" using assms(2) by (simp add: good_page_def)
  let ?m = "store32 (store32 (memset ka 0 PGSIZE (mem s)) ka sp) (ka + 4) (p_fslist (procs s ! p))"
  let ?s1 = "upd_proc p (\<lambda>pr. pr\<lparr>p_fslist := ka\<rparr>) (s\<lparr>mem := ?m\<rparr>)"
  have f: "ufree p sp s = Ret () ?s1" using assms(1) nz by (simp add: ufree_def Let_def)
  have "load32 ?m ka = sp"
    by (subst load_store32_other) (use slot_aligned [OF al, of 1] slot_aligned [OF al, of 0] in auto)
  then have u: "list_usp ?m ka = sp" "list_next ?m ka = p_fslist (procs s ! p)"
    by (simp_all add: list_usp_def list_next_def)
  have a: "ualloc p ?s1 = Ret sp (upd_proc p (\<lambda>pr. pr\<lparr>p_fslist := p_fslist (procs s ! p)\<rparr>) ?s1\<lparr>mem := memset ka 0 PGSIZE ?m\<rparr>)"
    using nz assms(3) u by (simp add: ualloc_def Let_def)
  have z: "memset ka 0 PGSIZE ?m x = 0" if "in_page ka x" for x
    using that by (simp add: memset_apply in_page_def PGSIZE_def)
  have o: "memset ka 0 PGSIZE ?m x = mem s x" if "\<not> in_page ka x" for x
  proof -
    have "\<not> unat (x - ka) < 4" using that by (simp add: in_page_def)
    moreover have "\<not> unat (x - (ka + 4)) < 4"
      using that unat_offset_add [of 4 x ka] by (simp add: in_page_def)
    ultimately show ?thesis using that by (simp add: memset_outside store32_apply)
  qed
  show ?thesis using f a z o assms(3) by simp
qed

section \<open>Concrete address spaces\<close>

lemma boot_dirent: "dirent (mem kmem_boot) d i = 0"
  by (simp add: kmem_boot_def dirent_def load32_def join4_def)

lemma boot_vm_inv: "vm_inv kmem_boot 0x80500000 [0x80400000]"
proof -
  have t: "tables (mem kmem_boot) 0x80500000 = {}" by (simp add: tables_def boot_dirent)
  have "good_page (k_end kmem_boot) 0x80500000"
    by (simp add: kmem_boot_def good_page_def PGSIZE_def V2P_def KERNBASE_def PHYSTOP_def)
  then show ?thesis using kmem_boot_inv t by (simp add: vm_inv_def pt_inv_def boot_dirent)
qed

theorem mappages_maps_witness:
  "\<exists>r s'. mappages 0x80500000 0x1000 4096 0x400000 (PTE_W OR PTE_U) kmem_boot = Ret r s' \<and> (r = 0 \<or> r = - 1)"
proof -
  have a: "(0x1000 :: u32) mod PGSIZE = 0" by (simp add: PGSIZE_def)
  have p: "pte_of (mem kmem_boot) 0x80500000 va AND PTE_P = 0" for va by (simp add: pte_of_def boot_dirent)
  have m: "0 < max_pages" by (simp add: max_pages_def)
  show ?thesis
    using mappages_maps [where k = 0 and pa = "0x400000" and perm = "PTE_W OR PTE_U", OF boot_vm_inv a _ m p] by auto
qed

theorem vm_loops_end_witness: "terminates (deallocuvm 0x80500000 KERNBASE 0 kmem_boot)"
  using vm_loops_end [where d = "0x80500000" and oldsz = KERNBASE and newsz = 0 and s = kmem_boot] by (simp add: KERNBASE_def)

definition stack_demo :: proc_state where
  "stack_demo = demo\<lparr>mem := store32 (store32 (\<lambda>_. 0) 0x80500000 0x401007) 0x80401000 0x402007,
     procs := [idle_proc\<lparr>p_pgdir := 0x80500000\<rparr>]\<rparr>"

lemma stack_demo_uva2ka: "uva2ka 0x80500000 0 stack_demo = Ret 0x80402000 stack_demo"
proof -
  have "load32 (mem stack_demo) 0x80500000 = 0x401007" "load32 (mem stack_demo) 0x80401000 = 0x402007"
    unfolding stack_demo_def by (simp_all add: load_store32_other)
  then show ?thesis
    by (simp add: uva2ka_def walkpgdir_def PDX_def PTX_def PTE_P_def PTE_U_def PTE_ADDR_def P2V_def KERNBASE_def)
qed

theorem ufree_ualloc_witness: "\<exists>s'. andthen (ufree 0 0x1000 stack_demo) (\<lambda>_ s. ualloc 0 s) = Ret 0x1000 s'"
proof -
  have u: "uva2ka (p_pgdir (procs stack_demo ! 0)) (0x1000 - PGSIZE) stack_demo = Ret 0x80402000 stack_demo"
    using stack_demo_uva2ka by (simp add: PGSIZE_def) (simp add: stack_demo_def)
  have g: "good_page (k_end stack_demo) 0x80402000"
    by (simp add: stack_demo_def demo_def good_page_def PGSIZE_def V2P_def KERNBASE_def PHYSTOP_def)
  have l: "0 < length (procs stack_demo)" by (simp add: stack_demo_def)
  show ?thesis using ufree_ualloc [OF u g l] by blast
qed

end
