(* ===== verification/Usermem.thy ===== *)
theory Usermem
  imports Frame Sample Paging
begin

text \<open>
  Pointers that user programs pass to the kernel. \<^verbatim>\<open>argptr\<close> accepts exactly the buffers that lie inside
  the memory of the process; \<^verbatim>\<open>thread_join\<close> stores its result through a pointer that nothing has checked; and the list of
  free stacks, which \<^verbatim>\<open>ufree\<close> keeps in pages of the process, can be changed by the program.
\<close>

section \<open>Pointers that are checked\<close>

lemma myproc_calm: "calm p s \<Longrightarrow> on_mach myproc s = Ret (Some p) s"
  using calmD [of p s] by (simp add: on_mach_def myproc_eq)

lemma mythd_calm: "calm p s \<Longrightarrow> curthd (mach s) = Some t \<Longrightarrow> on_mach mythd s = Ret (Some t) s"
  using calmD [of p s] by (simp add: on_mach_def mythd_eq)

lemma cur_sz_calm: "calm p s \<Longrightarrow> cur_sz s = Ret (p_sz (procs s ! p)) s"
  by (simp add: cur_sz_def myproc_calm)

lemma unat_of_size: "0 \<le> len \<Longrightarrow> len < 2 ^ 31 \<Longrightarrow> unat (of_int len :: u32) = nat len"
proof -
  assume a: "0 \<le> len" "len < 2 ^ 31"
  then have "len < 2 ^ 32" by simp
  from int_unat_word_of_int [OF a(1) this] show ?thesis by (metis nat_int)
qed

lemma range_test:
  assumes "sz \<le> KERNBASE" "- (2 ^ 31) \<le> len" "len < 2 ^ 31"
  shows "(len < 0 \<or> i \<ge> sz \<or> i + of_int len > sz) \<longleftrightarrow> \<not> (0 \<le> len \<and> unat i < unat sz \<and> unat i + nat len \<le> unat sz)"
proof (cases "0 \<le> len \<and> i < sz")
  case True
  have "unat sz \<le> 2 ^ 31" using assms(1) by (simp add: KERNBASE_def word_le_nat_alt)
  moreover have "unat i < unat sz" using True by (simp add: word_less_nat_alt)
  moreover have "nat len < 2 ^ 31" using assms(3) by simp
  ultimately have "unat (i + of_int len) = unat i + nat len"
    using unat_plus_small [of i "of_int len"] unat_of_size [of len] True assms(3) by simp
  then show ?thesis using True by (auto simp: word_less_nat_alt word_le_nat_alt not_less)
next
  case False
  then show ?thesis by (auto simp: word_less_nat_alt word_le_nat_alt not_less)
qed

lemma argptr_calm:
  assumes "calm p s" "argint n s = Ret (Some i) s" "p_sz (procs s ! p) \<le> KERNBASE" "- (2 ^ 31) \<le> len" "len < 2 ^ 31"
  shows "argptr n len s = Ret (if 0 \<le> len \<and> unat i < unat (p_sz (procs s ! p)) \<and> unat i + nat len \<le> unat (p_sz (procs s ! p)) then Some i else None) s"
  using range_test [OF assms(3-5), of i] cur_sz_calm [OF assms(1)] assms(2) by (simp add: argptr_def)

lemma fetchint_calm:
  assumes "calm p s" "p_sz (procs s ! p) \<le> KERNBASE"
  shows "fetchint a s = (if unat a + 4 \<le> unat (p_sz (procs s ! p)) then andthen (user_word a s) (\<lambda>w s. Ret (Some w) s) else Ret None s)"
  using range_test [OF assms(2), of 4 a] cur_sz_calm [OF assms(1)] by (auto simp: fetchint_def)

section \<open>Pointers that are not\<close>

lemma thread_join_unmapped:
  assumes "calm p s" "first_such (\<lambda>t. t_mp t = Some p \<and> t_tid t = tid \<and> t_state t = ZOMBIE) (threads s) = Some t"
    and "translate (mem s) (cur_pgdir s) retval True = None"
  shows "thread_join tid retval s = Panic ''trap''"
proof -
  have "cur_pgdir (s\<lparr>mach := taken PtableLock (mach s)\<rparr>) = cur_pgdir s" by (simp add: cur_pgdir_def)
  moreover have "word_bytes w = byte_at 0 w # tl (word_bytes w)" for w by (simp add: word_bytes_def upt_rec)
  then have "user_stores retval (word_bytes w) u = Panic ''trap''" if "translate (mem u) (cur_pgdir u) retval True = None" for w and u :: "'a proc_state_scheme"
    using that by (metis (no_types, lifting) option.simps(4) user_stores.simps(2))
  ultimately show ?thesis
    using assms calm_acquire [OF assms(1), of PtableLock] by (simp add: thread_join_def thread_join_loop_def myproc_calm)
qed

section \<open>The list of free stacks\<close>

text \<open>What the processor lets a program write: the directory entry and the page table entry must both be present,
  writable and open to user mode. \<open>user_page\<close> is the kernel address of the page, and \<open>program_store\<close> a store of an aligned word
  by the program.\<close>

definition user_flags :: "u32 \<Rightarrow> bool" where
  "user_flags e \<longleftrightarrow> e AND PTE_P \<noteq> 0 \<and> e AND PTE_W \<noteq> 0 \<and> e AND PTE_U \<noteq> 0"

definition pde_addr :: "u32 \<Rightarrow> u32 \<Rightarrow> u32" where "pde_addr d va = d + 4 * PDX va"
definition pte_addr :: "memory \<Rightarrow> u32 \<Rightarrow> u32 \<Rightarrow> u32" where "pte_addr m d va = P2V (PTE_ADDR (load32 m (pde_addr d va))) + 4 * PTX va"

definition user_page :: "memory \<Rightarrow> u32 \<Rightarrow> u32 \<Rightarrow> u32 option" where
  "user_page m d va =
     (if user_flags (load32 m (pde_addr d va)) \<and> user_flags (load32 m (pte_addr m d va))
      then Some (P2V (PTE_ADDR (load32 m (pte_addr m d va)))) else None)"

definition program_store :: "u32 \<Rightarrow> u32 \<Rightarrow> u32 \<Rightarrow> 'x kmem_state_scheme \<Rightarrow> 'x kmem_state_scheme option" where
  "program_store d va w s =
     (case user_page (mem s) d va of
        None \<Rightarrow> None
      | Some page \<Rightarrow> Some (s\<lparr>mem := store32 (mem s) (page + (va AND 0xFFF)) w\<rparr>))"

lemma user_page_uva2ka:
  assumes "user_page (mem s) d va = Some ka" "pte_addr (mem s) d va \<noteq> 0"
  shows "uva2ka d va s = Ret ka s"
  using assms by (auto simp: user_page_def user_flags_def uva2ka_def walkpgdir_def pde_addr_def pte_addr_def Let_def split: if_splits)

text \<open>A change of memory outside the two entries does not change the page.\<close>

definition outside_page :: "u32 \<Rightarrow> u32 \<Rightarrow> bool" where
  "outside_page ka a \<longleftrightarrow> (\<forall>k. unat k < 4 \<longrightarrow> \<not> in_page ka (a + k))"

lemma user_page_frame:
  assumes "user_page m d va = Some ka" "outside_page ka (pde_addr d va)" "outside_page ka (pte_addr m d va)"
    and "\<And>a. \<not> in_page ka a \<Longrightarrow> m' a = m a"
  shows "user_page m' d va = Some ka"
proof -
  have l: "load32 m' a = load32 m a" if "outside_page ka a" for a
    by (rule load32_frame) (use that assms(4) in \<open>simp add: outside_page_def\<close>)
  have "pte_addr m' d va = pte_addr m d va" using l [OF assms(2)] by (simp add: pte_addr_def)
  then show ?thesis using assms(1) l [OF assms(2)] l [OF assms(3)] by (simp add: user_page_def split: if_splits)
qed

lemma next_word:
  assumes "va mod PGSIZE = 0"
  shows "user_page m d (va + 4) = user_page m d va" "(va + 4) AND 0xFFF = 4"
proof -
  obtain q where q: "unat va = 4096 * q" using assms by (auto simp: aligned_iff)
  have "q < 1048576" using q unat_less_4G [of va] by simp
  then have u: "unat (va + 4) = 4096 * q + 4" using q by (subst unat_plus_small) simp_all
  have "PGROUNDDOWN (va + 4) = PGROUNDDOWN va" by (simp add: word_unat_eq_iff unat_PGROUNDDOWN u q)
  then have "PDX (va + 4) = PDX va" "PTX (va + 4) = PTX va" using same_page by blast+
  then show "user_page m d (va + 4) = user_page m d va" by (simp add: user_page_def pde_addr_def pte_addr_def)
  have "unat ((va + 4) AND 0xFFF) = 4" unfolding mask12 by (simp add: u unat_mod take_bit_eq_mod flip: take_bit_eq_mask)
  then show "(va + 4) AND 0xFFF = 4" by (simp add: word_unat_eq_iff)
qed

lemma forged_list:
  assumes p: "p < length (procs s)" "p_pgdir (procs s ! p) = d" "va mod PGSIZE = 0"
    and page: "user_page (mem s) d va = Some ka" "pte_addr (mem s) d va \<noteq> 0" "ka mod PGSIZE = 0" "ka \<noteq> 0"
    and outside: "outside_page ka (pde_addr d va)" "outside_page ka (pte_addr (mem s) d va)"
    and x: "x \<noteq> 0"
  shows "\<exists>s1 s2 s3 usp s4. ufree p (va + PGSIZE) s = Ret () s1 \<and> program_store d (va + 4) x s1 = Some s2
    \<and> ualloc p s2 = Ret (va + PGSIZE) s3 \<and> ualloc p s3 = Ret usp s4 \<and> (\<forall>a. in_page x a \<longrightarrow> mem s4 a = 0)"
proof -
  let ?m = "store32 (store32 (memset ka 0 PGSIZE (mem s)) ka (va + PGSIZE)) (ka + 4) (p_fslist (procs s ! p))"
  let ?s1 = "upd_proc p (\<lambda>pr. pr\<lparr>p_fslist := ka\<rparr>) (s\<lparr>mem := ?m\<rparr>)"
  have f: "ufree p (va + PGSIZE) s = Ret () ?s1" using user_page_uva2ka [OF page(1,2)] p(2) page(4) by (simp add: ufree_def Let_def)
  have "?m a = mem s a" if "\<not> in_page ka a" for a
  proof -
    have "\<not> unat (a - ka) < 4" using that by (simp add: in_page_def)
    moreover have "\<not> unat (a - (ka + 4)) < 4" using that unat_offset_add [of 4 a ka] by (simp add: in_page_def)
    ultimately show ?thesis using that by (simp add: memset_outside store32_apply)
  qed
  from user_page_frame [OF page(1) outside this]
  have st: "program_store d (va + 4) x ?s1 = Some (?s1\<lparr>mem := store32 ?m (ka + 4) x\<rparr>)"
    by (simp add: program_store_def next_word [OF p(3)])
  have al: "(ka + 4) mod 4 = 0" "ka mod 4 = 0" using slot_aligned [OF page(3), of 1] slot_aligned [OF page(3), of 0] by simp_all
  have usp: "load32 (store32 ?m (ka + 4) x) ka = va + PGSIZE" using al by (simp add: load_store32_other)
  show ?thesis using f st p(1) page(4) x usp
    by (simp add: ualloc_def Let_def list_next_def list_usp_def memset_apply in_page_def PGSIZE_def)
qed

section \<open>Properties\<close>

text \<open>C9. \<^verbatim>\<open>argptr\<close> accepts a pointer exactly when the whole buffer lies inside the memory of the process: the
  sums in its test do not wrap around because a process stays below \<open>KERNBASE\<close>; a negative length is refused.\<close>

theorem argptr_inside:
  assumes "calm p s" "argint n s = Ret (Some i) s" "p_sz (procs s ! p) \<le> KERNBASE" "- (2 ^ 31) \<le> len" "len < 2 ^ 31"
  shows "argptr n len s = Ret (if 0 \<le> len \<and> unat i < unat (p_sz (procs s ! p)) \<and> unat i + nat len \<le> unat (p_sz (procs s ! p))
     then Some i else None) s"
  by (rule argptr_calm [OF assms])

text \<open>C31. \<^verbatim>\<open>thread_join\<close> stores the return value of a finished thread through the pointer that the program passed
  without any check: if the page is not mapped, the kernel takes a page fault and panics.\<close>

theorem thread_join_panics:
  assumes "calm p s" "first_such (\<lambda>t. t_mp t = Some p \<and> t_tid t = tid \<and> t_state t = ZOMBIE) (threads s) = Some t"
    and "translate (mem s) (cur_pgdir s) retval True = None"
  shows "thread_join tid retval s = Panic ''trap''"
  by (rule thread_join_unmapped [OF assms])

text \<open>C27. The list of free stacks is kept inside the stacks themselves, and these pages stay open to the program: if the program can write the
  page of a stack, then after \<^verbatim>\<open>ufree\<close> of the stack it can store any word \<open>x\<close> over the link of the list, and the second
  \<^verbatim>\<open>ualloc\<close> from then on makes the kernel clear the 4096 bytes at the kernel address \<open>x\<close>.\<close>

theorem stack_list_forged:
  assumes "p < length (procs s)" "p_pgdir (procs s ! p) = d" "va mod PGSIZE = 0"
    and "user_page (mem s) d va = Some ka" "pte_addr (mem s) d va \<noteq> 0" "ka mod PGSIZE = 0" "ka \<noteq> 0"
    and "outside_page ka (pde_addr d va)" "outside_page ka (pte_addr (mem s) d va)"
    and "x \<noteq> 0"
  shows "\<exists>s1 s2 s3 usp s4. ufree p (va + PGSIZE) s = Ret () s1 \<and> program_store d (va + 4) x s1 = Some s2
    \<and> ualloc p s2 = Ret (va + PGSIZE) s3 \<and> ualloc p s3 = Ret usp s4 \<and> (\<forall>a. in_page x a \<longrightarrow> mem s4 a = 0)"
  by (rule forged_list [OF assms])

section \<open>Examples\<close>

text \<open>The page directory at \<open>0x80500000\<close> maps the first page of the process, whose stack pointer is 0, to the frame at \<open>0x80402000\<close>.\<close>

definition arg_sample :: trap_state where
  "arg_sample = sample\<lparr>mem := store32 (store32 (\<lambda>_. 0) 0x80500000 0x401007) 0x80401000 0x402007,
     mach := running_machine\<lparr>cr3 := \<lambda>_. 0x500000\<rparr>,
     procs := modify 1 (\<lambda>pr. pr\<lparr>p_sz := 0x1000\<rparr>) (procs demo)\<rparr>"

lemma arg_sample_calm: "calm 1 arg_sample"
proof -
  have "lockable lk (running_machine\<lparr>cr3 := f\<rparr>)" "settle (running_machine\<lparr>cr3 := f\<rparr>) = running_machine\<lparr>cr3 := f\<rparr>"
    "curproc (running_machine\<lparr>cr3 := f\<rparr>) = Some 1" for lk f
    by (simp_all add: running_machine_def two_cpus_def idle_cpu_def lockable_def cpu_ok_def cpu_index_def first_such_def
      settle_def readeflags_IF_def modify_def curproc_def)
  then show ?thesis by (simp add: calm_def arg_sample_def) (simp add: demo_def idle_thread_def)
qed

lemma arg_sample_load: "va \<in> {4, 5, 6, 7} \<Longrightarrow> user_load va arg_sample = Ret 0 arg_sample"
proof -
  assume a: "va \<in> {4, 5, 6, 7}"
  have l: "load32 (mem arg_sample) 0x80500000 = 0x401007" "load32 (mem arg_sample) 0x80401000 = 0x402007"
    unfolding arg_sample_def by (simp_all add: load_store32_other)
  have c: "cur_pgdir arg_sample = 0x80500000" by (simp add: cur_pgdir_def arg_sample_def P2V_def KERNBASE_def)
  have "translate (mem arg_sample) 0x80500000 va False = Some (0x80402000 + va)"
    using l a by (auto simp: translate_def PDX_def PTX_def PTE_P_def PTE_ADDR_def P2V_def KERNBASE_def Let_def)
  moreover have "mem arg_sample (0x80402000 + va) = 0" using a by (auto simp: arg_sample_def store32_apply)
  ultimately show ?thesis using c by (simp add: user_load_def)
qed

lemma arg_sample_argint: "argint 0 arg_sample = Ret (Some 0) arg_sample"
proof -
  have "curthd (mach arg_sample) = Some 1"
    by (simp add: arg_sample_def running_machine_def two_cpus_def idle_cpu_def curthd_def cpu_index_def first_such_def)
  note th = mythd_calm [OF arg_sample_calm this]
  have z: "p_sz (procs arg_sample ! 1) = 0x1000" "tf_esp (t_tf (threads arg_sample ! 1)) = 0"
    by (simp_all add: arg_sample_def demo_def idle_proc_def idle_thread_def modify_def)
  have "user_word 4 arg_sample = Ret 0 arg_sample"
    using arg_sample_load by (simp add: user_word_def numeral_eq_Suc join4_def)
  then show ?thesis using th z cur_sz_calm [OF arg_sample_calm] by (simp add: argint_def fetchint_def)
qed

theorem argptr_inside_witness: "argptr 0 512 arg_sample = Ret (Some 0) arg_sample \<and> argptr 0 4097 arg_sample = Ret None arg_sample"
proof -
  have z: "p_sz (procs arg_sample ! 1) = 0x1000" by (simp add: arg_sample_def demo_def idle_proc_def modify_def)
  show ?thesis using argptr_inside [OF arg_sample_calm arg_sample_argint, of 512] argptr_inside [OF arg_sample_calm arg_sample_argint, of 4097] z
    by (simp add: KERNBASE_def)
qed

theorem thread_join_panics_witness:
  "thread_join 7 0x90000000 (sample\<lparr>threads := threads demo @ [idle_thread\<lparr>t_tid := 7, t_mp := Some 1, t_state := ZOMBIE\<rparr>]\<rparr>) = Panic ''trap''"
proof (rule thread_join_panics)
  let ?s = "sample\<lparr>threads := threads demo @ [idle_thread\<lparr>t_tid := 7, t_mp := Some 1, t_state := ZOMBIE\<rparr>]\<rparr>"
  show "calm 1 ?s" using running_machine_ok by (simp add: calm_def) (simp add: demo_def idle_thread_def)
  show "first_such (\<lambda>t. t_mp t = Some 1 \<and> t_tid t = 7 \<and> t_state t = ZOMBIE) (threads ?s) = Some 4"
    by (simp add: first_such_def demo_def idle_thread_def)
  show "translate (mem ?s) (cur_pgdir ?s) 0x90000000 True = None"
    by (simp add: translate_def demo_def load32_def join4_def)
qed

text \<open>The memory of the kernel is full of ones; the stack of the process is its page 0, in the frame at \<open>0x80402000\<close>.\<close>

definition stack_sample :: proc_state where
  "stack_sample = demo\<lparr>mem := store32 (store32 (\<lambda>_. 1) 0x80500000 0x401007) 0x80401000 0x402007,
     procs := [idle_proc\<lparr>p_pgdir := 0x80500000\<rparr>]\<rparr>"

theorem stack_list_forged_witness:
  "mem stack_sample 0x80100010 = 1 \<and> (\<exists>s1 s2 s3 usp s4. ufree 0 0x1000 stack_sample = Ret () s1
     \<and> program_store 0x80500000 4 0x80100000 s1 = Some s2 \<and> ualloc 0 s2 = Ret 0x1000 s3 \<and> ualloc 0 s3 = Ret usp s4 \<and> mem s4 0x80100010 = 0)"
proof -
  have l: "load32 (mem stack_sample) 0x80500000 = 0x401007" "load32 (mem stack_sample) 0x80401000 = 0x402007"
    unfolding stack_sample_def by (simp_all add: load_store32_other)
  have a: "pde_addr 0x80500000 0 = 0x80500000" "pte_addr (mem stack_sample) 0x80500000 0 = 0x80401000"
    using l by (simp_all add: pde_addr_def pte_addr_def PDX_def PTX_def PTE_ADDR_def P2V_def KERNBASE_def)
  have u: "user_page (mem stack_sample) 0x80500000 0 = Some 0x80402000"
    using l by (simp add: user_page_def a user_flags_def PTE_P_def PTE_W_def PTE_U_def PTE_ADDR_def P2V_def KERNBASE_def)
  have o: "outside_page ka a" if "unat (a - ka) \<ge> 4096" "unat (a - ka) + 4 < 2 ^ 32" for ka a
  proof -
    have "unat (a - ka + k) = unat (a - ka) + unat k" if "unat k < 4" for k
      by (rule unat_plus_small) (use \<open>unat (a - ka) + 4 < 2 ^ 32\<close> that in simp)
    then show ?thesis using that(1) by (auto simp: outside_page_def in_page_def algebra_simps)
  qed
  have x: "in_page 0x80100000 0x80100010" by (simp add: in_page_def)
  have "mem stack_sample 0x80100010 = 1" by (simp add: stack_sample_def store32_apply)
  moreover have "\<exists>s1 s2 s3 usp s4. ufree 0 (0 + PGSIZE) stack_sample = Ret () s1
     \<and> program_store 0x80500000 (0 + 4) 0x80100000 s1 = Some s2 \<and> ualloc 0 s2 = Ret (0 + PGSIZE) s3 \<and> ualloc 0 s3 = Ret usp s4
     \<and> (\<forall>a. in_page 0x80100000 a \<longrightarrow> mem s4 a = 0)"
    by (rule stack_list_forged [OF _ _ _ u]) (simp_all add: a o PGSIZE_def, simp_all add: stack_sample_def)
  ultimately show ?thesis using x by (simp add: PGSIZE_def) blast
qed

end
