(* ===== verification/Bigfile.thy ===== *)
theory Bigfile
  imports Recovery Sample
begin

text \<open>
  Files with direct, indirect, doubly and triply indirect blocks. A path is the list of the entries on the way from the inode
  to a block of the file; \<open>block_of\<close> is the number of the block, and \<^verbatim>\<open>bmap\<close> follows the path.
\<close>

section \<open>The path to a block\<close>

text \<open>A path has one to four entries. The entries below the inode are the digits of a number in base
  \<^verbatim>\<open>NINDIRECT\<close>, counted from the end of the direct blocks; a longer path is used only when a shorter one does not
  suffice, so its first digit is not 0.\<close>

fun path_ok :: "nat list \<Rightarrow> bool" where
  "path_ok [e] \<longleftrightarrow> e < NDIRECT"
| "path_ok [e, a] \<longleftrightarrow> e = NDIRECT \<and> a < NINDIRECT"
| "path_ok [e, a, b] \<longleftrightarrow> e = NDIRECT + 1 \<and> 0 < a \<and> a < NINDIRECT \<and> b < NINDIRECT"
| "path_ok [e, a, b, c] \<longleftrightarrow> e = NDIRECT + 2 \<and> 0 < a \<and> a < NINDIRECT \<and> b < NINDIRECT \<and> c < NINDIRECT"
| "path_ok _ \<longleftrightarrow> False"

definition block_of :: "nat list \<Rightarrow> nat" where
  "block_of path = (if tl path = [] then hd path else NDIRECT + foldl (\<lambda>n d. n * NINDIRECT + d) 0 (tl path))"

lemmas sizes = NDIRECT_def NINDIRECT_def NDINDIRECT_def NTINDIRECT_def MAXFILE_def BSIZE_def

lemma path_cases [consumes 1]:
  assumes "path_ok path"
  obtains (direct) e where "path = [e]" "e < 10"
  | (single) a where "path = [10, a]" "a < 128"
  | (double) a b where "path = [11, a, b]" "0 < a" "a < 128" "b < 128"
  | (triple) a b c where "path = [12, a, b, c]" "0 < a" "a < 128" "b < 128" "c < 128"
  using assms by (cases path rule: path_ok.cases) (auto simp: sizes)

text \<open>The digits of a number.\<close>

lemma two_digits:
  assumes "b < 128"
  shows "(a * 128 + b) div 128 = a" "(a * 128 + b) mod 128 = (b :: nat)"
  using assms by simp_all

lemma three_digits:
  assumes "b < 128" "c < 128"
  shows "((a * 128 + b) * 128 + c) div 16384 = a" "((a * 128 + b) * 128 + c) mod 16384 div 128 = b" "((a * 128 + b) * 128 + c) mod 128 = (c :: nat)"
proof -
  have d: "((a * 128 + b) * 128 + c) div 128 = a * 128 + b" using assms(2) by (rule two_digits(1))
  show "((a * 128 + b) * 128 + c) mod 128 = c" using assms(2) by (rule two_digits(2))
  show "((a * 128 + b) * 128 + c) div 16384 = a" using d two_digits(1) [OF assms(1), of a] div_mult2_eq [of "(a * 128 + b) * 128 + c" 128 128] by simp
  show "((a * 128 + b) * 128 + c) mod 16384 div 128 = b"
    using d two_digits(2) [OF assms(1), of a] mod_mult2_eq [of "(a * 128 + b) * 128 + c" 128 128] by simp
qed

text \<open>The path of a block number.\<close>

definition path_of :: "nat \<Rightarrow> nat list" where
  "path_of bn =
     (if bn < 10 then [bn]
      else if bn - 10 < 128 then [10, bn - 10]
      else if bn - 10 < 16384 then [11, (bn - 10) div 128, (bn - 10) mod 128]
      else [12, (bn - 10) div 16384, (bn - 10) mod 16384 div 128, (bn - 10) mod 128])"

lemma path_of_block: "path_ok path \<Longrightarrow> path_of (block_of path) = path \<and> block_of path < NDIRECT + NTINDIRECT"
proof (induction rule: path_cases)
  case (double a b)
  then have "128 \<le> a * 128 + b" "a * 128 + b < 16384" by simp_all
  then show ?case using double two_digits [of b a] by (simp add: path_of_def block_of_def sizes)
next
  case (triple a b c)
  then have "16384 \<le> (a * 128 + b) * 128 + c" "(a * 128 + b) * 128 + c < 2097152" by simp_all
  then show ?case using triple three_digits [of b c a] by (simp add: path_of_def block_of_def sizes)
qed (simp_all add: path_of_def block_of_def sizes)

lemma block_of_path: "n < NDIRECT + NTINDIRECT \<Longrightarrow> path_ok (path_of n) \<and> block_of (path_of n) = n"
proof -
  assume n: "n < NDIRECT + NTINDIRECT"
  have "(m div 16384 * 128 + m mod 16384 div 128) * 128 + m mod 128 = m" for m :: nat
  proof -
    have c: "m mod 16384 mod 128 = m mod 128" by (simp add: mod_mod_cancel)
    have "(q * 128 + r) * 128 + x = q * 16384 + (r * 128 + x)" for q r x :: nat by simp
    then have "(m div 16384 * 128 + m mod 16384 div 128) * 128 + m mod 128 = m div 16384 * 16384 + (m mod 16384 div 128 * 128 + m mod 16384 mod 128)"
      unfolding c .
    then show ?thesis unfolding div_mult_mod_eq .
  qed
  from this [of "n - 10"] have "10 + ((n - 10) div 16384 * 128 + (n - 10) mod 16384 div 128) * 128 + (n - 10) mod 128 = n" if "10 \<le> n"
    using that by linarith
  moreover have "10 + (n - 10) div 128 * 128 + (n - 10) mod 128 = n" if "10 \<le> n" using that by simp
  ultimately show ?thesis using n by (auto simp: path_of_def block_of_def sizes div_greater_zero_iff less_mult_imp_div_less)
qed

lemma unique_path: "n < NDIRECT + NTINDIRECT \<Longrightarrow> \<exists>!path. path_ok path \<and> block_of path = n"
  using block_of_path path_of_block by metis

section \<open>Following a path\<close>

text \<open>The block numbers met on the way from entry \<open>a\<close> of the inode through the blocks \<open>w\<close>.\<close>

fun chain :: "(u32 \<Rightarrow> block) \<Rightarrow> u32 \<Rightarrow> nat list \<Rightarrow> u32 list" where
  "chain w a [] = [a]"
| "chain w a (k # ks) = a # chain w (word_at (w a) (4 * k)) ks"

definition trail :: "(u32 \<Rightarrow> block) \<Rightarrow> u32 list \<Rightarrow> nat list \<Rightarrow> u32 list" where
  "trail w addrs path = chain w (addrs ! hd path) (tl path)"

lemma inodes_core [simp]: "inodes (with_core c s) = inodes s" "disksize (with_core c s) = disksize s"
  by (simp_all add: with_core_def)

lemma looked_trans: "looked pid a b \<Longrightarrow> looked pid b c \<Longrightarrow> looked pid a c"
  by (simp add: looked_def)

lemma looked_refl: "core_ok pid {} c \<Longrightarrow> looked pid c c"
  by (simp add: looked_def)

lemma addr_slot_used:
  "i_addrs (inodes s ! ip) ! k \<noteq> 0 \<Longrightarrow> addr_slot ip k s = Ret (i_addrs (inodes s ! ip) ! k) s"
  by (simp add: addr_slot_def)

lemma table_slot_used:
  assumes "calm p s" "core_ok (pid_of p s) {} c" "b < disksize s" "clean c \<noteq> {}" "word_at (view c b) (4 * k) \<noteq> 0"
  shows "\<exists>c'. table_slot 1 b k (with_core c s) = Ret (word_at (view c b) (4 * k)) (with_core c' s) \<and> looked (pid_of p s) c c'"
proof -
  obtain i c1 where r: "bread 1 b (with_core c s) = Ret i (with_core c1 s)" "core_ok (pid_of p s) {i} c1" "i < length (k_bufs c1)"
    "b_blockno (k_bufs c1 ! i) = b" "b_data (k_bufs c1 ! i) = view c b" "b_dirty (k_bufs c1 ! i) = dirty_block c b"
    "view c1 = view c" "dirty_block c1 = dirty_block c" "k_disk c1 = k_disk c" "k_hist c1 = k_hist c" "clean c1 = clean c"
    "length (k_bufs c1) = length (k_bufs c)"
    using single_read [OF assms(1-4)] .
  note l = look_rest [OF assms(1,2) r(2,4-12)]
  show ?thesis
    by (rule exI [of _ "released i c1"]) (use assms(5) r(1,5) l in \<open>simp add: table_slot_def Let_def\<close>)
qed

text \<open>A chain of table entries.\<close>

fun table_slots :: "u32 \<Rightarrow> u32 \<Rightarrow> nat list \<Rightarrow> 'x inode_state_scheme \<Rightarrow> ('x inode_state_scheme, u32) outcome" where
  "table_slots dev b [] s = Ret b s"
| "table_slots dev b (k # ks) s = andthen (table_slot dev b k s) (\<lambda>b s. table_slots dev b ks s)"

lemma table_slots_used:
  assumes "calm p s" "core_ok (pid_of p s) {} c" "clean c \<noteq> {}" "\<forall>a \<in> set (chain (view c) b ks). a \<noteq> 0 \<and> a < disksize s"
  shows "\<exists>c'. table_slots 1 b ks (with_core c s) = Ret (last (chain (view c) b ks)) (with_core c' s) \<and> looked (pid_of p s) c c'"
  using assms(2-4)
proof (induction ks arbitrary: b c)
  case Nil
  then show ?case by (auto intro: looked_refl)
next
  case (Cons k ks)
  let ?a = "word_at (view c b) (4 * k)"
  have a: "?a \<in> set (chain (view c) ?a ks)" by (cases ks) simp_all
  obtain c1 where c1: "table_slot 1 b k (with_core c s) = Ret ?a (with_core c1 s)" "looked (pid_of p s) c c1"
    using table_slot_used [OF assms(1) Cons.prems(1) _ Cons.prems(2), of b k] Cons.prems(3) a by auto
  obtain c2 where c2: "table_slots 1 ?a ks (with_core c1 s) = Ret (last (chain (view c) ?a ks)) (with_core c2 s)" "looked (pid_of p s) c1 c2"
    using Cons.IH [of c1 ?a] c1(2) Cons.prems by (auto simp: looked_def)
  have "chain (view c) ?a ks \<noteq> []" by (cases ks) simp_all
  then show ?case using c1 c2 by (auto intro: looked_trans)
qed

lemma table_slots_fun: "table_slots dev b [] = Ret b"
  "table_slots dev b (k # ks) = (\<lambda>s. andthen (table_slot dev b k s) (\<lambda>b. table_slots dev b ks))"
  by (simp_all add: fun_eq_iff)

lemma bmap_slots:
  assumes "path_ok path" "block_of path = unat bn"
  shows "bmap ip bn s = andthen (addr_slot ip (hd path) s) (\<lambda>a s'. table_slots (i_dev (inodes s ! ip)) a (tl path) s')"
  using assms(1)
proof (cases rule: path_cases)
  case (single a)
  then have "unat bn = 10 + a" using assms(2) by (simp add: block_of_def sizes)
  then show ?thesis using single by (simp add: bmap_def sizes Let_def table_slots_fun)
next
  case (double a b)
  then have "unat bn = 10 + (a * 128 + b)" "128 \<le> a * 128 + b" "a * 128 + b < 16384" using assms(2) by (simp_all add: block_of_def sizes)
  then show ?thesis using double two_digits [of b a] by (simp add: bmap_def sizes Let_def table_slots_fun)
next
  case (triple a b c)
  then have "unat bn = 10 + ((a * 128 + b) * 128 + c)" "16384 \<le> (a * 128 + b) * 128 + c" "(a * 128 + b) * 128 + c < 2097152"
    using assms(2) by (simp_all add: block_of_def sizes)
  then show ?thesis using triple three_digits [of b c a] by (simp add: bmap_def sizes Let_def table_slots_fun)
qed (use assms(2) in \<open>simp_all add: bmap_def block_of_def sizes Let_def table_slots_fun\<close>)

text \<open>The block numbers from \<open>NDIRECT + NTINDIRECT\<close> on are refused, also those below \<^verbatim>\<open>MAXFILE\<close>, which
  the size check of \<^verbatim>\<open>writei\<close> lets through: the levels below are not subtracted from the block number.\<close>

lemma bmap_past_end:
  "NDIRECT + NTINDIRECT \<le> unat bn \<Longrightarrow> bmap ip bn s = Panic ''bmap: out of range''"
  by (auto simp: bmap_def sizes Let_def)

lemma bmap_past_end_below_MAXFILE: "bmap ip (of_nat (MAXFILE - 1)) s = Panic ''bmap: out of range''"
  by (rule bmap_past_end) (simp add: sizes)

text \<open>C10. Every block number below \<open>NDIRECT + NTINDIRECT\<close> has exactly one path, so different blocks have different
  paths. For a block whose way is allocated, whatever its level (direct, indirect, doubly or triply
  indirect), \<^verbatim>\<open>bmap\<close> returns the block number found by following its path through the indirect blocks,
  whether they are in the cache or on the disk. It leaves the logical content of every block, the disk
  and the rest of the state as they are, and no buffer stays locked.\<close>

theorem bmap_lookup:
  assumes "calm p s" "core_ok (pid_of p s) {} (core s)" "clean (core s) \<noteq> {}" "i_dev (inodes s ! ip) = 1"
    and "path_ok path" "block_of path = unat bn"
    and "\<forall>a \<in> set (trail (view (core s)) (i_addrs (inodes s ! ip)) path). a \<noteq> 0 \<and> a < disksize s"
  shows "(\<exists>c. bmap ip bn s = Ret (last (trail (view (core s)) (i_addrs (inodes s ! ip)) path)) (with_core c s)
      \<and> looked (pid_of p s) (core s) c)
    \<and> (\<forall>n < NDIRECT + NTINDIRECT. \<exists>!q. path_ok q \<and> block_of q = n)"
proof
  let ?a = "i_addrs (inodes s ! ip) ! hd path"
  have "?a \<in> set (trail (view (core s)) (i_addrs (inodes s ! ip)) path)"
    unfolding trail_def by (cases "tl path") simp_all
  then have "addr_slot ip (hd path) s = Ret ?a s" using assms(7) by (intro addr_slot_used) blast
  then show "\<exists>c. bmap ip bn s = Ret (last (trail (view (core s)) (i_addrs (inodes s ! ip)) path)) (with_core c s)
      \<and> looked (pid_of p s) (core s) c"
    using table_slots_used [OF assms(1,2,3) assms(7) [unfolded trail_def]] assms(4)
    by (simp add: bmap_slots [OF assms(5,6)] trail_def)
qed (use unique_path in blast)

text \<open>A triply indirect block, on a disk all of whose words are 100.\<close>

definition hundreds :: block where
  "hundreds = concat (replicate 128 [100, 0, 0, 0])"

definition big_inode :: inode where
  "big_inode = \<lparr>i_dev = 1, i_inum = 5, i_ref = 1, i_valid = True, i_type = 2, i_major = 0, i_minor = 0, i_nlink = 1, i_size = 0,
     i_addrs = replicate 13 7\<rparr>"

theorem bmap_lookup_witness:
  "\<exists>c. bmap 0 16399 (sample\<lparr>inodes := [big_inode], memdisk := \<lambda>_. hundreds\<rparr>) =
    Ret 100 (with_core c (sample\<lparr>inodes := [big_inode], memdisk := \<lambda>_. hundreds\<rparr>))"
proof -
  let ?s = "sample\<lparr>inodes := [big_inode], memdisk := \<lambda>_. hundreds\<rparr>"
  have c: "core ?s = demo_core [] (\<lambda>_. hundreds)" using sample_core by (simp add: core_def demo_core_def)
  have l: "length hundreds = BSIZE" by (simp add: hundreds_def BSIZE_def length_concat sum_list_replicate)
  have v: "view (core ?s) b = hundreds" for b
  proof -
    have "slot b (core ?s) = None" by (simp add: c slot_None) (simp add: demo_core_def holds_block_def empty_buf_def)
    then show ?thesis by (simp add: view_def c) (simp add: demo_core_def)
  qed
  have w: "word_at hundreds 0 = 100" "word_at hundreds 4 = 100" "word_at hundreds 20 = 100"
    by (code_simp)+
  have t: "trail (view (core ?s)) (i_addrs (inodes ?s ! 0)) [12, 1, 0, 5] = [7, 100, 100, 100]"
    unfolding trail_def v [abs_def] by (simp add: big_inode_def w)
  have "core_ok pid {} (core ?s)" for pid unfolding c by (rule demo_core_0) (rule l)
  moreover have "0 \<in> clean (core ?s)" by (simp add: clean_def c) (simp add: demo_core_def NBUF_def MAXOPBLOCKS_def empty_buf_def)
  moreover have "calm (Suc 0) ?s" by (simp add: calm_demo [simplified])
  moreover have "i_dev (inodes ?s ! 0) = 1" by (simp add: big_inode_def)
  moreover have "disksize ?s = 40000" by simp
  moreover have "path_ok [12, 1, 0, 5]" "block_of [12, 1, 0, 5] = unat (16399 :: u32)" by (simp_all add: sizes block_of_def)
  ultimately show ?thesis using bmap_lookup [of "Suc 0" ?s 0 "[12, 1, 0, 5]" 16399] t by auto
qed
end
