(* ===== verification/Ulib.thy ===== *)
theory Ulib
  imports Sysfile
begin

text \<open>
  What user programs are made of: the system calls as a program sees them, the library \<^verbatim>\<open>ulib.c\<close> and
  \<^verbatim>\<open>printf.c\<close>. The world of a program is the sequence of the calls it has made and a function that gives the reply to
  the next one, depending on what was called before; a theorem about every such function is about every behaviour of
  kernel, files and terminal. A string is the list of its characters, without the terminating 0.
\<close>

section \<open>System calls\<close>

datatype ucall =
    SysFork | SysExit | SysWait | SysPipe | SysRead int nat | SysWrite int "u8 list" | SysClose int | SysKill int
  | SysExec "u8 list" "u8 list list" | SysOpen "u8 list" u32 | SysMknod "u8 list" int int | SysUnlink "u8 list"
  | SysFstat int | SysLink "u8 list" "u8 list" | SysMkdir "u8 list" | SysChdir "u8 list" | SysDup int | SysSbrk int | SysSleep int

text \<open>A call returns a number; \<^verbatim>\<open>read\<close> that succeeds also fills a buffer, \<^verbatim>\<open>fstat\<close> a \<^verbatim>\<open>struct stat\<close>, and \<^verbatim>\<open>pipe\<close>
  two file descriptors.\<close>

datatype ureply = Value int | Bytes "u8 list" | Status stat | Ends int int

record uworld =
  kern :: "ucall list \<Rightarrow> ucall \<Rightarrow> ureply option"
  calls :: "ucall list"

text \<open>Without a reply the process waits in the kernel; it does so forever after \<^verbatim>\<open>exit\<close>.\<close>

definition stopped :: "ucall \<Rightarrow> 'x uworld_scheme \<Rightarrow> ('x uworld_scheme, 'a) outcome" where
  "stopped c s = Pause Switching (s\<lparr>calls := calls s @ [c]\<rparr>)"

definition sys :: "ucall \<Rightarrow> 'x uworld_scheme \<Rightarrow> ('x uworld_scheme, ureply) outcome" where
  "sys c s =
     (case kern s (calls s) c of
        None \<Rightarrow> stopped c s
      | Some r \<Rightarrow> Ret r (s\<lparr>calls := calls s @ [c]\<rparr>))"

definition sysval :: "ucall \<Rightarrow> 'x uworld_scheme \<Rightarrow> ('x uworld_scheme, int) outcome" where
  "sysval c s = andthen (sys c s) (\<lambda>r s. case r of Value v \<Rightarrow> Ret v s | _ \<Rightarrow> Undef ''reply'')"

definition uexit :: "'x uworld_scheme \<Rightarrow> ('x uworld_scheme, 'a) outcome" where
  "uexit s = stopped SysExit s"

definition uread :: "int \<Rightarrow> nat \<Rightarrow> 'x uworld_scheme \<Rightarrow> ('x uworld_scheme, int \<times> u8 list) outcome" where
  "uread fd n s =
     andthen (sys (SysRead fd n) s) (\<lambda>r s.
       case r of
         Value v \<Rightarrow> if v < 0 then Ret (v, []) s else Undef ''reply''
       | Bytes bs \<Rightarrow> if length bs \<le> n then Ret (int (length bs), bs) s else Undef ''reply''
       | _ \<Rightarrow> Undef ''reply'')"

definition ufstat :: "int \<Rightarrow> 'x uworld_scheme \<Rightarrow> ('x uworld_scheme, int \<times> stat option) outcome" where
  "ufstat fd s =
     andthen (sys (SysFstat fd) s) (\<lambda>r s.
       case r of
         Value v \<Rightarrow> if v < 0 then Ret (v, None) s else Undef ''reply''
       | Status st \<Rightarrow> Ret (0, Some st) s
       | _ \<Rightarrow> Undef ''reply'')"

section \<open>The library\<close>

text \<open>\<open>strcpy_u\<close> copies a string with its 0 into an array.\<close>

definition strcpy_u :: "u8 list \<Rightarrow> u8 list \<Rightarrow> u8 list option" where
  "strcpy_u s t = (if length t < length s then Some (t @ [0] @ drop (length t + 1) s) else None)"

fun strcmp :: "u8 list \<Rightarrow> u8 list \<Rightarrow> int" where
  "strcmp [] [] = 0"
| "strcmp [] (b # q) = - uint b"
| "strcmp (a # p) [] = uint a"
| "strcmp (a # p) (b # q) = (if a = b then strcmp p q else uint a - uint b)"

definition strlen_u :: "u8 list \<Rightarrow> u32" where
  "strlen_u s = of_nat (length s)"

definition memset_u :: "u32 \<Rightarrow> int \<Rightarrow> u32 \<Rightarrow> memory \<Rightarrow> memory" where
  "memset_u dst c n m = stosb (unat n) dst (of_int c) m"

text \<open>\<open>strchr\<close> gives the index of the character.\<close>

definition strchr :: "u8 list \<Rightarrow> u8 \<Rightarrow> nat option" where
  "strchr s c = first_such (\<lambda>x. x = c) s"

primrec gets_loop :: "nat \<Rightarrow> u8 list \<Rightarrow> 'x uworld_scheme \<Rightarrow> ('x uworld_scheme, u8 list) outcome" where
  "gets_loop 0 acc s = Ret acc s"
| "gets_loop (Suc k) acc s =
     andthen (uread 0 1 s) (\<lambda>(cc, bs) s.
       if cc < 1 then Ret acc s
       else
         let c = bs ! 0 in
         if c = 10 \<or> c = 13 then Ret (acc @ [c]) s
         else gets_loop k (acc @ [c]) s)"

text \<open>The bytes that \<^verbatim>\<open>gets\<close> stores before the 0.\<close>

definition gets :: "nat \<Rightarrow> 'x uworld_scheme \<Rightarrow> ('x uworld_scheme, u8 list) outcome" where
  "gets n s = gets_loop (n - 1) [] s"

definition stat_u :: "u8 list \<Rightarrow> 'x uworld_scheme \<Rightarrow> ('x uworld_scheme, int \<times> stat option) outcome" where
  "stat_u n s =
     andthen (sysval (SysOpen n 0) s) (\<lambda>fd s.
       if fd < 0 then Ret (- 1, None) s
       else
         andthen (ufstat fd s) (\<lambda>r s.
         andthen (sysval (SysClose fd) s) (\<lambda>_ s. Ret r s)))"

text \<open>The number is that of a 32 bit machine, which wraps around.\<close>

fun atoi_from :: "u32 \<Rightarrow> u8 list \<Rightarrow> u32" where
  "atoi_from n [] = n"
| "atoi_from n (c # s) = (if 48 \<le> c \<and> c \<le> 57 then atoi_from (n * 10 + ucast c - 48) s else n)"

definition atoi :: "u8 list \<Rightarrow> int" where
  "atoi s = sint (atoi_from 0 s)"

definition memmove_u :: "u32 \<Rightarrow> u32 \<Rightarrow> int \<Rightarrow> memory \<Rightarrow> memory" where
  "memmove_u vdst vsrc n m = copy_up (nat n) vdst vsrc m"

text \<open>It is the kernel's \<^verbatim>\<open>memmove\<close>, except for a copy upwards between overlapping regions.\<close>

lemma memmove_u_kernel:
  assumes "0 \<le> n" "n < 2 ^ 32" "\<not> (src < dst \<and> src + of_int n > dst)"
  shows "memmove_u dst src n m = memmove dst src (of_int n) m"
proof -
  have "unat (of_int n :: u32) = nat n" using assms(1,2) by (simp add: unat_eq_nat_uint uint_word_of_int)
  then show ?thesis using assms(3) by (simp only: memmove_u_def memmove_def if_False)
qed

section \<open>Formatted output\<close>

definition putc :: "int \<Rightarrow> u8 \<Rightarrow> 'x uworld_scheme \<Rightarrow> ('x uworld_scheme, unit) outcome" where
  "putc fd c s = andthen (sysval (SysWrite fd [c]) s) (\<lambda>_ s. Ret () s)"

definition digits_u :: "u8 list" where "digits_u = str8 ''0123456789ABCDEF''"

primrec int_digits_u :: "nat \<Rightarrow> u32 \<Rightarrow> u32 \<Rightarrow> u8 list \<Rightarrow> u8 list option" where
  "int_digits_u 0 x base acc = None"
| "int_digits_u (Suc k) x base acc =
     (let acc = acc @ [digits_u ! unat (x mod base)];
          x = x div base in
      if x \<noteq> 0 then int_digits_u k x base acc else Some acc)"

definition printint_u :: "int \<Rightarrow> u32 \<Rightarrow> u32 \<Rightarrow> bool \<Rightarrow> 'x uworld_scheme \<Rightarrow> ('x uworld_scheme, unit) outcome" where
  "printint_u fd xx base sign s =
     (let neg = (sign \<and> sint xx < 0);
          x = (if neg then - xx else xx) in
      case int_digits_u 16 x base [] of
        None \<Rightarrow> Undef ''printint: buf''
      | Some ds \<Rightarrow>
          if neg \<and> length ds \<ge> 16 then Undef ''printint: buf''
          else each (putc fd) (rev (if neg then ds @ [45] else ds)) s)"

text \<open>One conversion, the character after \<^verbatim>\<open>%\<close> being \<open>c\<close>.\<close>

definition convert_u :: "int \<Rightarrow> u8 \<Rightarrow> carg list \<Rightarrow> 'x uworld_scheme \<Rightarrow> ('x uworld_scheme, carg list) outcome" where
  "convert_u fd c args s =
     (if c = 100 then
        (case args of
           Num x # as \<Rightarrow> andthen (printint_u fd x 10 True s) (\<lambda>_ s. Ret as s)
         | _ \<Rightarrow> Undef ''printf: argument'')
      else if c = 120 \<or> c = 112 then
        (case args of
           Num x # as \<Rightarrow> andthen (printint_u fd x 16 False s) (\<lambda>_ s. Ret as s)
         | _ \<Rightarrow> Undef ''printf: argument'')
      else if c = 115 then
        (case args of
           Str x # as \<Rightarrow>
             andthen (each (putc fd) (case x of None \<Rightarrow> str8 ''(null)'' | Some cs \<Rightarrow> cs) s) (\<lambda>_ s. Ret as s)
         | _ \<Rightarrow> Undef ''printf: argument'')
      else if c = 99 then
        (case args of
           Num x # as \<Rightarrow> andthen (putc fd (ucast x) s) (\<lambda>_ s. Ret as s)
         | _ \<Rightarrow> Undef ''printf: argument'')
      else if c = 37 then andthen (putc fd c s) (\<lambda>_ s. Ret args s)
      else andthen (putc fd 37 s) (\<lambda>_ s. andthen (putc fd c s) (\<lambda>_ s. Ret args s)))"

text \<open>The loop of \<^verbatim>\<open>printf\<close>, with \<^verbatim>\<open>state\<close> being 0 or \<^verbatim>\<open>%\<close>.\<close>

fun printf_loop :: "int \<Rightarrow> u8 list \<Rightarrow> u8 \<Rightarrow> carg list \<Rightarrow> 'x uworld_scheme \<Rightarrow> ('x uworld_scheme, unit) outcome" where
  "printf_loop fd [] state args s = Ret () s"
| "printf_loop fd (c # fmt) state args s =
     (if state = 0 then
        if c = 37 then printf_loop fd fmt 37 args s
        else andthen (putc fd c s) (\<lambda>_ s. printf_loop fd fmt 0 args s)
      else andthen (convert_u fd c args s) (\<lambda>as s. printf_loop fd fmt 0 as s))"

definition printf :: "int \<Rightarrow> u8 list \<Rightarrow> carg list \<Rightarrow> 'x uworld_scheme \<Rightarrow> ('x uworld_scheme, unit) outcome" where
  "printf fd fmt args s = printf_loop fd fmt 0 args s"

section \<open>Observing a program\<close>

text \<open>What a program has written to a file descriptor, and how often it has read from one.\<close>

fun written_to :: "int \<Rightarrow> ucall list \<Rightarrow> u8 list" where
  "written_to fd [] = []"
| "written_to fd (SysWrite f bs # cs) = (if f = fd then bs else []) @ written_to fd cs"
| "written_to fd (_ # cs) = written_to fd cs"

fun reads_of :: "int \<Rightarrow> ucall list \<Rightarrow> nat" where
  "reads_of fd [] = 0"
| "reads_of fd (SysRead f n # cs) = (if f = fd then 1 else 0) + reads_of fd cs"
| "reads_of fd (_ # cs) = reads_of fd cs"

lemma written_to_append: "written_to fd (xs @ ys) = written_to fd xs @ written_to fd ys"
  by (induction fd xs rule: written_to.induct) simp_all

lemma reads_of_append: "reads_of fd (xs @ ys) = reads_of fd xs + reads_of fd ys"
  by (induction fd xs rule: reads_of.induct) simp_all

text \<open>The kernel delivers the given pieces to the successive reads of a file, then reports its end, and accepts every write.\<close>

definition nth_piece :: "u8 list list \<Rightarrow> nat \<Rightarrow> u8 list" where
  "nth_piece cs n = (if n < length cs then cs ! n else [])"

definition delivers :: "int \<Rightarrow> u8 list list \<Rightarrow> 'x uworld_scheme \<Rightarrow> bool" where
  "delivers fd cs s \<longleftrightarrow>
     (\<forall>h n. kern s h (SysRead fd n) = Some (Bytes (nth_piece cs (reads_of fd h))))
     \<and> (\<forall>h f bs. kern s h (SysWrite f bs) = Some (Value (int (length bs))))"

lemma delivers_write:
  assumes "delivers fd cs s"
  shows "sysval (SysWrite f bs) s = Ret (int (length bs)) (s\<lparr>calls := calls s @ [SysWrite f bs]\<rparr>)"
  using assms by (simp add: delivers_def sysval_def sys_def)

lemma delivers_calls [simp]: "delivers fd cs (s\<lparr>calls := xs\<rparr>) = delivers fd cs s"
  by (simp add: delivers_def)

lemma delivers_read:
  assumes "delivers fd cs s" "length (nth_piece cs (reads_of fd (calls s))) \<le> n"
  shows "uread fd n s = Ret (int (length (nth_piece cs (reads_of fd (calls s)))), nth_piece cs (reads_of fd (calls s)))
    (s\<lparr>calls := calls s @ [SysRead fd n]\<rparr>)"
  using assms by (simp add: delivers_def uread_def sys_def)

text \<open>A world with nothing but standard input and output.\<close>

definition reader :: "u8 list list \<Rightarrow> uworld" where
  "reader cs = \<lparr>kern = (\<lambda>h c. case c of
       SysRead f n \<Rightarrow> if f = 0 then Some (Bytes (nth_piece cs (reads_of 0 h))) else None
     | SysWrite f bs \<Rightarrow> Some (Value (int (length bs)))
     | _ \<Rightarrow> None), calls = []\<rparr>"

lemma reader_delivers: "delivers 0 cs (reader cs)" "calls (reader cs) = []"
  by (simp_all add: delivers_def reader_def)

end
