(* ===== verification/Grep.thy ===== *)
theory Grep
  imports Ulib
begin

text \<open>
  The program \<^verbatim>\<open>grep.c\<close>. The characters of patterns are bytes: 94 is \<^verbatim>\<open>^\<close>, 46 is \<^verbatim>\<open>.\<close>, 42 is \<^verbatim>\<open>*\<close>, 36 is \<^verbatim>\<open>$\<close>, and 10 ends a line.
\<close>

section \<open>The matcher\<close>

function (sequential) matchhere :: "u8 list \<Rightarrow> u8 list \<Rightarrow> bool" and matchstar :: "u8 \<Rightarrow> u8 list \<Rightarrow> u8 list \<Rightarrow> bool" where
  "matchhere [] tx = True"
| "matchhere (c # re) tx =
     (if re \<noteq> [] \<and> hd re = 42 then matchstar c (tl re) tx
      else if c = 36 \<and> re = [] then tx = []
      else case tx of [] \<Rightarrow> False | t # ts \<Rightarrow> if c = 46 \<or> c = t then matchhere re ts else False)"
| "matchstar c re [] = (if matchhere re [] then True else False)"
| "matchstar c re (t # ts) =
     (if matchhere re (t # ts) then True
      else if t = c \<or> c = 46 then matchstar c re ts
      else False)"
  by pat_completeness auto
termination
  by (relation "measures [\<lambda>x. case x of Inl (re, tx) \<Rightarrow> 2 * length re | Inr (c, re, tx) \<Rightarrow> 2 * length re + 1,
      \<lambda>x. case x of Inl (re, tx) \<Rightarrow> length tx | Inr (c, re, tx) \<Rightarrow> length tx]") auto

fun match_from :: "u8 list \<Rightarrow> u8 list \<Rightarrow> bool" where
  "match_from re [] = (if matchhere re [] then True else False)"
| "match_from re (t # ts) = (if matchhere re (t # ts) then True else match_from re ts)"

definition match :: "u8 list \<Rightarrow> u8 list \<Rightarrow> bool" where
  "match re tx = (if re \<noteq> [] \<and> hd re = 94 then matchhere (tl re) tx else match_from re tx)"

section \<open>The filter\<close>

text \<open>The inner loop over the lines in the buffer; what is left of the buffer is returned.\<close>

function grep_lines :: "u8 list \<Rightarrow> u8 list \<Rightarrow> 'x uworld_scheme \<Rightarrow> ('x uworld_scheme, u8 list) outcome" where
  "grep_lines pattern p s =
     (case strchr (takeWhile (\<lambda>c. c \<noteq> 0) p) 10 of
        None \<Rightarrow> Ret p s
      | Some q \<Rightarrow>
          if match pattern (take q p) then
            andthen (sysval (SysWrite 1 (take (q + 1) p)) s) (\<lambda>_ s. grep_lines pattern (drop (q + 1) p) s)
          else grep_lines pattern (drop (q + 1) p) s)"
  by pat_completeness auto
termination
proof (relation "measure (\<lambda>(pattern, p, s). length p)", goal_cases)
  case 1
  then show ?case by simp
next
  case (2 pattern p s q)
  then have "p \<noteq> []" by (cases p) (simp_all add: strchr_def first_such_def)
  then show ?case by simp
next
  case (3 pattern p s q)
  then have "p \<noteq> []" by (cases p) (simp_all add: strchr_def first_such_def)
  then show ?case by simp
qed

declare grep_lines.simps [simp del]

text \<open>The outer loop, with \<open>held\<close> the bytes kept at the start of the buffer, for at most \<open>k\<close> reads.\<close>

primrec grep_loop :: "nat \<Rightarrow> u8 list \<Rightarrow> int \<Rightarrow> u8 list \<Rightarrow> 'x uworld_scheme \<Rightarrow> ('x uworld_scheme, unit) outcome" where
  "grep_loop 0 pattern fd held s = Hang"
| "grep_loop (Suc k) pattern fd held s =
     andthen (uread fd (1024 - length held - 1) s) (\<lambda>(n, bs) s.
       if n > 0 then
         let b = held @ bs in
         andthen (grep_lines pattern b s) (\<lambda>p s.
         grep_loop k pattern fd (if length p = length b then [] else p) s)
       else Ret () s)"

definition grep :: "nat \<Rightarrow> u8 list \<Rightarrow> int \<Rightarrow> 'x uworld_scheme \<Rightarrow> ('x uworld_scheme, unit) outcome" where
  "grep k pattern fd s = grep_loop k pattern fd [] s"

primrec grep_files :: "nat \<Rightarrow> u8 list \<Rightarrow> u8 list list \<Rightarrow> 'x uworld_scheme \<Rightarrow> ('x uworld_scheme, unit) outcome" where
  "grep_files k pattern [] s = uexit s"
| "grep_files k pattern (f # fs) s =
     andthen (sysval (SysOpen f 0) s) (\<lambda>fd s.
       if fd < 0 then andthen (printf 1 (str8 ''grep: cannot open %s'' @ [10]) [Str (Some f)] s) (\<lambda>_ s. uexit s)
       else
         andthen (grep k pattern fd s) (\<lambda>_ s.
         andthen (sysval (SysClose fd) s) (\<lambda>_ s.
         grep_files k pattern fs s)))"

definition grep_main :: "nat \<Rightarrow> u8 list list \<Rightarrow> 'x uworld_scheme \<Rightarrow> ('x uworld_scheme, unit) outcome" where
  "grep_main k argv s =
     (if length argv \<le> 1 then
        andthen (printf 2 (str8 ''usage: grep pattern [file ...]'' @ [10]) [] s) (\<lambda>_ s. uexit s)
      else if length argv \<le> 2 then andthen (grep k (argv ! 1) 0 s) (\<lambda>_ s. uexit s)
      else grep_files k (argv ! 1) (drop 2 argv) s)"

section \<open>What the matcher decides\<close>

text \<open>A pattern is a sequence of items, a character or a repeated character, \<^verbatim>\<open>.\<close> standing for every character, and
  may be tied to the end of the text. \<open>lang\<close> is the set of texts that a sequence of items describes.\<close>

datatype item = Once u8 | Many u8

fun items :: "u8 list \<Rightarrow> item list" where
  "items [] = []"
| "items [c] = (if c = 36 then [] else [Once c])"
| "items (c # d # re) = (if d = 42 then Many c # items re else Once c # items (d # re))"

fun anchored :: "u8 list \<Rightarrow> bool" where
  "anchored [] = False"
| "anchored [c] = (c = 36)"
| "anchored (c # d # re) = (if d = 42 then anchored re else anchored (d # re))"

definition fits :: "u8 \<Rightarrow> u8 \<Rightarrow> bool" where
  "fits c t \<longleftrightarrow> c = 46 \<or> c = t"

primrec lang :: "item list \<Rightarrow> u8 list set" where
  "lang [] = {[]}"
| "lang (i # is) =
     (case i of
        Once c \<Rightarrow> {t # w | t w. fits c t \<and> w \<in> lang is}
      | Many c \<Rightarrow> {u @ w | u w. (\<forall>t \<in> set u. fits c t) \<and> w \<in> lang is})"

definition starts :: "item list \<Rightarrow> bool \<Rightarrow> u8 list \<Rightarrow> bool" where
  "starts is e tx \<longleftrightarrow> (\<exists>w b. tx = w @ b \<and> w \<in> lang is \<and> (e \<longrightarrow> b = []))"

lemma starts_Nil: "starts [] e tx \<longleftrightarrow> (e \<longrightarrow> tx = [])"
  by (auto simp: starts_def)

lemma starts_Once: "starts (Once c # is) e tx \<longleftrightarrow> (\<exists>t v. tx = t # v \<and> fits c t \<and> starts is e v)"
proof
  assume "starts (Once c # is) e tx"
  then obtain x b where "tx = x @ b" "x \<in> lang (Once c # is)" "e \<longrightarrow> b = []" unfolding starts_def by blast
  moreover from this(2) obtain t w where "x = t # w" "fits c t" "w \<in> lang is" by auto
  ultimately have "tx = t # w @ b" "fits c t" "w \<in> lang is" "e \<longrightarrow> b = []" by simp_all
  then show "\<exists>t v. tx = t # v \<and> fits c t \<and> starts is e v" unfolding starts_def by blast
next
  assume "\<exists>t v. tx = t # v \<and> fits c t \<and> starts is e v"
  then obtain t w b where "tx = (t # w) @ b" "t # w \<in> lang (Once c # is)" "e \<longrightarrow> b = []"
    unfolding starts_def by auto
  then show "starts (Once c # is) e tx" unfolding starts_def by blast
qed

lemma starts_Many: "starts (Many c # is) e tx \<longleftrightarrow> (\<exists>u v. tx = u @ v \<and> (\<forall>t \<in> set u. fits c t) \<and> starts is e v)"
proof
  assume "starts (Many c # is) e tx"
  then obtain x b where "tx = x @ b" "x \<in> lang (Many c # is)" "e \<longrightarrow> b = []" unfolding starts_def by blast
  moreover from this(2) obtain u w where "x = u @ w" "\<forall>t \<in> set u. fits c t" "w \<in> lang is" by auto
  ultimately have "tx = u @ w @ b" "\<forall>t \<in> set u. fits c t" "w \<in> lang is" "e \<longrightarrow> b = []" by simp_all
  then have "tx = u @ (w @ b)" "starts is e (w @ b)" "\<forall>t \<in> set u. fits c t" unfolding starts_def by auto
  then show "\<exists>u v. tx = u @ v \<and> (\<forall>t \<in> set u. fits c t) \<and> starts is e v" by blast
next
  assume "\<exists>u v. tx = u @ v \<and> (\<forall>t \<in> set u. fits c t) \<and> starts is e v"
  then obtain u v where u: "tx = u @ v" "\<forall>t \<in> set u. fits c t" "starts is e v" by blast
  from u(3) obtain w b where w: "v = w @ b" "w \<in> lang is" "e \<longrightarrow> b = []" unfolding starts_def by blast
  have "u @ w \<in> lang (Many c # is)" using u(2) w(2) by auto
  moreover have "tx = (u @ w) @ b" using u(1) w(1) by simp
  ultimately show "starts (Many c # is) e tx" using w(3) unfolding starts_def by blast
qed

definition begins :: "u8 list \<Rightarrow> u8 list \<Rightarrow> bool" where
  "begins re tx = starts (items re) (anchored re) tx"

lemma begins_simps:
  "begins [] tx"
  "begins [c] tx \<longleftrightarrow> (if c = 36 then tx = [] else \<exists>t v. tx = t # v \<and> fits c t)"
  "d \<noteq> 42 \<Longrightarrow> begins (c # d # re) tx \<longleftrightarrow> (\<exists>t v. tx = t # v \<and> fits c t \<and> begins (d # re) v)"
  "begins (c # 42 # re) tx \<longleftrightarrow> (\<exists>u v. tx = u @ v \<and> (\<forall>t \<in> set u. fits c t) \<and> begins re v)"
  by (simp_all add: begins_def starts_Nil starts_Once starts_Many)

lemma repeat_step:
  "(\<exists>u v. t # ts = u @ v \<and> (\<forall>x \<in> set u. fits c x) \<and> P v)
    \<longleftrightarrow> P (t # ts) \<or> fits c t \<and> (\<exists>u v. ts = u @ v \<and> (\<forall>x \<in> set u. fits c x) \<and> P v)" (is "?l \<longleftrightarrow> ?r")
proof
  assume ?l
  then obtain u v where u: "t # ts = u @ v" "\<forall>x \<in> set u. fits c x" "P v" by blast
  then show ?r by (cases u) auto
next
  assume ?r
  then show ?l
  proof
    assume "P (t # ts)"
    then have "t # ts = [] @ t # ts \<and> (\<forall>x \<in> set []. fits c x) \<and> P (t # ts)" by simp
    then show ?l by blast
  next
    assume "fits c t \<and> (\<exists>u v. ts = u @ v \<and> (\<forall>x \<in> set u. fits c x) \<and> P v)"
    then obtain u v where "fits c t" "ts = u @ v" "\<forall>x \<in> set u. fits c x" "P v" by blast
    then show ?l by (intro exI [of _ "t # u"] exI [of _ v]) simp
  qed
qed

lemma matches_begins:
  "matchhere re tx \<longleftrightarrow> begins re tx"
  "matchstar c re tx \<longleftrightarrow> (\<exists>u v. tx = u @ v \<and> (\<forall>t \<in> set u. fits c t) \<and> begins re v)"
proof (induction re tx and c re tx rule: matchhere_matchstar.induct)
  case (1 tx)
  then show ?case by (simp add: begins_simps)
next
  case (2 c re tx)
  show ?case
  proof (cases re)
    case Nil
    then show ?thesis by (auto simp: begins_simps fits_def split: list.splits)
  next
    case re: (Cons d re')
    show ?thesis
    proof (cases "d = 42")
      case True
      then show ?thesis using 2(1) re by (simp add: begins_simps)
    next
      case False
      then show ?thesis using 2(2) re by (auto simp: begins_simps fits_def split: list.splits)
    qed
  qed
next
  case (3 c re)
  then show ?case by simp
next
  case (4 c re t ts)
  have "matchstar c re (t # ts) \<longleftrightarrow> begins re (t # ts) \<or> fits c t \<and> (\<exists>u v. ts = u @ v \<and> (\<forall>x \<in> set u. fits c x) \<and> begins re v)"
    using 4 by (auto simp: fits_def)
  then show ?case by (simp only: repeat_step)
qed

lemma match_from_begins: "match_from re tx \<longleftrightarrow> (\<exists>a v. tx = a @ v \<and> begins re v)"
proof (induction tx)
  case Nil
  then show ?case by (simp add: matches_begins)
next
  case (Cons t ts)
  then show ?case by (auto simp: matches_begins Cons_eq_append_conv)
qed

text \<open>C32. \<^verbatim>\<open>match\<close> decides whether the pattern describes a part of the text: one at the start, if the pattern
  begins with \<^verbatim>\<open>^\<close>, and one at the end, if it ends with a \<^verbatim>\<open>$\<close> that is not repeated. The backtracking search
  always ends.\<close>

theorem grep_match:
  "match re tx \<longleftrightarrow>
     (\<exists>a w b. tx = a @ w @ b \<and> w \<in> lang (items (if re \<noteq> [] \<and> hd re = 94 then tl re else re))
       \<and> (re \<noteq> [] \<and> hd re = 94 \<longrightarrow> a = []) \<and> (anchored (if re \<noteq> [] \<and> hd re = 94 then tl re else re) \<longrightarrow> b = []))"
  by (simp add: match_def matches_begins match_from_begins) (auto simp: begins_def starts_def)

text \<open>The pattern \<^verbatim>\<open>^a*b$\<close> and the text \<^verbatim>\<open>aab\<close>.\<close>

theorem grep_match_witness:
  "[97, 97, 98] \<in> lang (items [97, 42, 98, 36]) \<and> anchored [97, 42, 98, 36] \<and> match [94, 97, 42, 98, 36] [97, 97, 98]"
proof -
  have "[98] \<in> lang (items [98, 36])" by (simp add: fits_def)
  then have "[97, 97] @ [98] \<in> lang (items [97, 42, 98, 36])"
    unfolding items.simps if_P [OF refl] lang.simps item.case by (fastforce simp: fits_def)
  moreover have "anchored [97, 42, 98, 36]" by simp
  ultimately show ?thesis using grep_match [of "[94, 97, 42, 98, 36]" "[97, 97, 98]"] by auto
qed

section \<open>What the filter prints\<close>

text \<open>The complete lines of a text, and what follows the last of them.\<close>

fun full_lines :: "u8 list \<Rightarrow> u8 list \<Rightarrow> u8 list list" where
  "full_lines acc [] = []"
| "full_lines acc (c # cs) = (if c = 10 then acc # full_lines [] cs else full_lines (acc @ [c]) cs)"

fun left_over :: "u8 list \<Rightarrow> u8 list \<Rightarrow> u8 list" where
  "left_over acc [] = acc"
| "left_over acc (c # cs) = (if c = 10 then left_over [] cs else left_over (acc @ [c]) cs)"

definition printed :: "u8 list \<Rightarrow> u8 list \<Rightarrow> u8 list" where
  "printed pattern tx = concat (map (\<lambda>l. l @ [10]) (filter (match pattern) (full_lines [] tx)))"

lemma full_lines_append: "full_lines acc (xs @ ys) = full_lines acc xs @ full_lines (left_over acc xs) ys"
  by (induction acc xs rule: full_lines.induct) simp_all

lemma left_over_append: "left_over acc (xs @ ys) = left_over (left_over acc xs) ys"
  by (induction acc xs rule: left_over.induct) simp_all

lemma full_lines_none: "10 \<notin> set xs \<Longrightarrow> full_lines acc xs = [] \<and> left_over acc xs = acc @ xs"
  by (induction xs arbitrary: acc) auto

lemma left_over_clean: "10 \<notin> set acc \<Longrightarrow> 10 \<notin> set (left_over acc xs)"
  by (induction acc xs rule: left_over.induct) auto

lemma left_over_sub: "set (left_over acc xs) \<subseteq> set acc \<union> set xs"
  by (induction acc xs rule: left_over.induct) auto

lemma left_over_less: "10 \<in> set xs \<Longrightarrow> length (left_over acc xs) < length xs"
proof (induction acc xs rule: left_over.induct)
  case (2 acc c cs)
  have "length (left_over a ys) \<le> length a + length ys" for a ys by (induction a ys rule: left_over.induct) auto
  from this [of "[]" cs] 2 show ?case by auto
qed simp

lemma printed_append: "10 \<notin> set xs \<Longrightarrow> printed pattern (xs @ ys) = concat (map (\<lambda>l. l @ [10]) (filter (match pattern) (full_lines xs ys)))"
  using full_lines_none [of xs "[]"] by (simp add: printed_def full_lines_append)

text \<open>The pieces that are filtered well: no 0, at least one end of line in each, and room for each in the buffer after
  what is kept of the one before.\<close>

fun fitting :: "u8 list \<Rightarrow> u8 list list \<Rightarrow> bool" where
  "fitting held [] = True"
| "fitting held (c # cs) \<longleftrightarrow> 10 \<in> set c \<and> 0 \<notin> set c \<and> length held + length c < 1024 \<and> fitting (left_over held c) cs"

lemma strchr_at: "c \<notin> set l \<Longrightarrow> strchr (l @ c # r) c = Some (length l)"
proof -
  have "c \<notin> set l \<Longrightarrow> scan (\<lambda>x. x = c) (l @ c # r) i = Some (i + length l)" for i
    by (induction l arbitrary: i) auto
  then show "c \<notin> set l \<Longrightarrow> strchr (l @ c # r) c = Some (length l)" by (simp add: strchr_def first_such_def)
qed

lemma strchr_None: "strchr l c = None \<longleftrightarrow> c \<notin> set l"
  by (auto simp: strchr_def first_such_None)

lemma printed_line:
  assumes "10 \<notin> set l"
  shows "printed pattern (l @ 10 # r) = (if match pattern l then l @ [10] else []) @ printed pattern r" "left_over [] (l @ 10 # r) = left_over [] r"
  using full_lines_none [OF assms, of "[]"] by (simp_all add: printed_def full_lines_append left_over_append)

lemma takeWhile_nz: "0 \<notin> set p \<Longrightarrow> takeWhile (\<lambda>c. c \<noteq> 0) p = (p :: u8 list)"
  by (auto simp: takeWhile_eq_all_conv)

lemma grep_lines_ok:
  assumes "delivers fd cs s" "0 \<notin> set p"
  shows "\<exists>xs. grep_lines pattern p s = Ret (left_over [] p) (s\<lparr>calls := xs\<rparr>)
    \<and> written_to 1 xs = written_to 1 (calls s) @ printed pattern p \<and> reads_of fd xs = reads_of fd (calls s)"
  using assms
proof (induction p arbitrary: s rule: measure_induct_rule [of length])
  case (less p)
  show ?case
  proof (cases "10 \<in> set p")
    case False
    then show ?thesis using less.prems full_lines_none [of p "[]"]
      by (intro exI [of _ "calls s"]) (simp add: grep_lines.simps takeWhile_nz strchr_None [THEN iffD2] printed_def)
  next
    case True
    then obtain l r where p: "p = l @ 10 # r" "10 \<notin> set l" using split_list_first [OF True] by blast
    define u where "u = (if match pattern l then s\<lparr>calls := calls s @ [SysWrite 1 (l @ [10])]\<rparr> else s)"
    have d: "delivers fd cs u" using less.prems(1) by (simp add: u_def)
    have "grep_lines pattern p s = grep_lines pattern r u"
      using p less.prems strchr_at [OF p(2)] takeWhile_nz [of p]
      by (subst grep_lines.simps) (simp add: u_def delivers_write [OF less.prems(1)])
    moreover have "length r < length p" "0 \<notin> set r" using p less.prems(2) by auto
    from less.IH [OF this(1) d this(2)] obtain xs where "grep_lines pattern r u = Ret (left_over [] r) (u\<lparr>calls := xs\<rparr>)"
      "written_to 1 xs = written_to 1 (calls u) @ printed pattern r" "reads_of fd xs = reads_of fd (calls u)" by blast
    ultimately show ?thesis
      by (intro exI [of _ xs]) (simp add: p printed_line u_def written_to_append reads_of_append)
  qed
qed

lemma grep_loop_ok:
  assumes "delivers fd cs s" "fitting held (drop (reads_of fd (calls s)) cs)" "0 \<notin> set held" "10 \<notin> set held"
    and "length cs - reads_of fd (calls s) < k"
  shows "\<exists>xs. grep_loop k pattern fd held s = Ret () (s\<lparr>calls := xs\<rparr>)
    \<and> written_to 1 xs = written_to 1 (calls s) @ printed pattern (held @ concat (drop (reads_of fd (calls s)) cs))"
  using assms
proof (induction k arbitrary: held s)
  case 0
  then show ?case by simp
next
  case (Suc k)
  let ?n = "reads_of fd (calls s)" and ?m = "1024 - length held - 1"
  let ?u = "s\<lparr>calls := calls s @ [SysRead fd ?m]\<rparr>"
  show ?case
  proof (cases "?n < length cs")
    case False
    then have "uread fd ?m s = Ret (0, []) ?u" using delivers_read [OF Suc.prems(1)] by (simp add: nth_piece_def)
    then show ?thesis using False full_lines_none [OF Suc.prems(4), of "[]"]
      by (intro exI [of _ "calls ?u"]) (simp add: written_to_append printed_def)
  next
    case True
    define c where "c = cs ! ?n"
    have dc: "drop ?n cs = c # drop (Suc ?n) cs" using True by (simp add: c_def Cons_nth_drop_Suc)
    have f: "10 \<in> set c" "0 \<notin> set c" "length held + length c < 1024" "fitting (left_over held c) (drop (Suc ?n) cs)"
      using Suc.prems(2) by (simp_all add: dc)
    have rd: "uread fd ?m s = Ret (int (length c), c) ?u"
      using delivers_read [OF Suc.prems(1), of ?m] True f(3) by (simp add: nth_piece_def c_def)
    obtain xs where xs: "grep_lines pattern (held @ c) ?u = Ret (left_over [] (held @ c)) (?u\<lparr>calls := xs\<rparr>)"
      "written_to 1 xs = written_to 1 (calls ?u) @ printed pattern (held @ c)" "reads_of fd xs = reads_of fd (calls ?u)"
      using grep_lines_ok [of fd cs ?u "held @ c" pattern] Suc.prems f(2) by auto
    let ?v = "s\<lparr>calls := xs\<rparr>"
    have lo: "left_over [] (held @ c) = left_over held c" using full_lines_none [OF Suc.prems(4), of "[]"] by (simp add: left_over_append)
    have r: "reads_of fd xs = Suc ?n" using xs(3) by (simp add: reads_of_append)
    have "length (left_over held c) < length (held @ c)" using left_over_less [OF f(1), of held] by simp
    then have "grep_loop (Suc k) pattern fd held s = grep_loop k pattern fd (left_over held c) ?v"
      using rd xs(1) f(1) by (auto simp: Let_def lo)
    moreover have "0 \<notin> set (left_over held c)" "length cs - Suc ?n < k" using left_over_sub [of held c] Suc.prems f(2) True by auto
    then obtain ys where "grep_loop k pattern fd (left_over held c) ?v = Ret () (?v\<lparr>calls := ys\<rparr>)"
      "written_to 1 ys = written_to 1 xs @ printed pattern (left_over held c @ concat (drop (Suc ?n) cs))"
      using Suc.IH [of ?v "left_over held c"] Suc.prems(1) f(4) r left_over_clean [OF Suc.prems(4), of c] by auto
    moreover have "printed pattern (held @ c) @ printed pattern (left_over held c @ concat (drop (Suc ?n) cs)) = printed pattern (held @ c @ concat (drop (Suc ?n) cs))"
      using printed_append [OF left_over_clean [OF Suc.prems(4), of c]] full_lines_none [OF Suc.prems(4), of "[]"]
      by (simp add: printed_def full_lines_append)
    ultimately show ?thesis using xs(2) by (intro exI [of _ ys]) (simp add: dc written_to_append)
  qed
qed

text \<open>C33. \<^verbatim>\<open>grep\<close> prints exactly the complete lines of its input that match, in order, however the kernel
  cuts the input into pieces, as long as every piece ends some line, fits into the buffer beside the line
  begun by the piece before, and has no NUL byte, at which \<^verbatim>\<open>strchr\<close> would stop. One read more than there are pieces is enough.\<close>

theorem grep_prints:
  assumes "delivers fd cs s" "reads_of fd (calls s) = 0" "fitting [] cs" "length cs < k"
  shows "\<exists>t. grep k pattern fd s = Ret () t \<and> written_to 1 (calls t) = written_to 1 (calls s) @ printed pattern (concat cs)"
  using grep_loop_ok [of fd cs s "[]" k pattern] assms by (auto simp: grep_def)

theorem grep_prints_witness:
  "\<exists>t. grep 3 [94, 97] 0 (reader [[97, 98, 10, 120], [98, 10, 97]]) = Ret () t \<and> written_to 1 (calls t) = [97, 98, 10]"
  using grep_prints [of 0 "[[97, 98, 10, 120], [98, 10, 97]]" "reader [[97, 98, 10, 120], [98, 10, 97]]" 3 "[94, 97]"] reader_delivers
  by (simp add: printed_def match_def)

text \<open>A piece that ends no line is thrown away: the line \<open>abc\<close>, typed as two pieces, is not found.\<close>

lemma grep_loses_text:
  "\<exists>t. grep 3 [97, 98, 99] 0 (reader [[97, 98], [99, 10]]) = Ret () t \<and> written_to 1 (calls t) = []"
  "printed [97, 98, 99] (concat [[97, 98], [99, 10]]) = [97, 98, 99, 10]"
proof -
  have n: "strchr [97, 98] 10 = None" "strchr [99, 10] 10 = Some 1" "strchr [] 10 = None"
    using strchr_at [of 10 "[99]" "[]"] by (simp_all add: strchr_None)
  show "\<exists>t. grep 3 [97, 98, 99] 0 (reader [[97, 98], [99, 10]]) = Ret () t \<and> written_to 1 (calls t) = []"
    by (simp add: grep_def numeral_3_eq_3 uread_def sys_def reader_def nth_piece_def grep_lines.simps n match_def)
  show "printed [97, 98, 99] (concat [[97, 98], [99, 10]]) = [97, 98, 99, 10]"
    by (simp add: printed_def match_def)
qed

end
