(* ===== verification/Tools.thy ===== *)
theory Tools
  imports Ulib
begin

text \<open>
  The small programs: \<^verbatim>\<open>cat.c\<close>, \<^verbatim>\<open>wc.c\<close>, \<^verbatim>\<open>echo.c\<close>, \<^verbatim>\<open>kill.c\<close>, \<^verbatim>\<open>ln.c\<close>, \<^verbatim>\<open>mkdir.c\<close>, \<^verbatim>\<open>rm.c\<close>, \<^verbatim>\<open>ls.c\<close>, \<^verbatim>\<open>zombie.c\<close> and
  \<^verbatim>\<open>init.c\<close>. The loops over input make at most \<open>k\<close> reads.
\<close>

section \<open>cat\<close>

primrec cat :: "nat \<Rightarrow> int \<Rightarrow> 'x uworld_scheme \<Rightarrow> ('x uworld_scheme, unit) outcome" where
  "cat 0 fd s = Hang"
| "cat (Suc k) fd s =
     andthen (uread fd 512 s) (\<lambda>(n, buf) s.
       if n > 0 then
         andthen (sysval (SysWrite 1 buf) s) (\<lambda>m s.
           if m \<noteq> n then andthen (printf 1 (str8 ''cat: write error'' @ [10]) [] s) (\<lambda>_ s. uexit s)
           else cat k fd s)
       else if n < 0 then andthen (printf 1 (str8 ''cat: read error'' @ [10]) [] s) (\<lambda>_ s. uexit s)
       else Ret () s)"

primrec cat_files :: "nat \<Rightarrow> u8 list list \<Rightarrow> 'x uworld_scheme \<Rightarrow> ('x uworld_scheme, unit) outcome" where
  "cat_files k [] s = uexit s"
| "cat_files k (f # fs) s =
     andthen (sysval (SysOpen f 0) s) (\<lambda>fd s.
       if fd < 0 then andthen (printf 1 (str8 ''cat: cannot open %s'' @ [10]) [Str (Some f)] s) (\<lambda>_ s. uexit s)
       else
         andthen (cat k fd s) (\<lambda>_ s.
         andthen (sysval (SysClose fd) s) (\<lambda>_ s.
         cat_files k fs s)))"

definition cat_main :: "nat \<Rightarrow> u8 list list \<Rightarrow> 'x uworld_scheme \<Rightarrow> ('x uworld_scheme, unit) outcome" where
  "cat_main k argv s =
     (if length argv \<le> 1 then andthen (cat k 0 s) (\<lambda>_ s. uexit s)
      else cat_files k (tl argv) s)"

section \<open>wc\<close>

text \<open>The counters of lines, words and characters, and whether the last character was part of a word.\<close>

record counts =
  c_l :: u32
  c_w :: u32
  c_c :: u32
  inword :: bool

definition wc_space :: "u8 list" where "wc_space = [32, 13, 9, 10, 11]"

definition wc_char :: "u8 \<Rightarrow> counts \<Rightarrow> counts" where
  "wc_char b a =
     (let a = a\<lparr>c_c := c_c a + 1\<rparr>;
          a = (if b = 10 then a\<lparr>c_l := c_l a + 1\<rparr> else a) in
      if strchr wc_space b \<noteq> None then a\<lparr>inword := False\<rparr>
      else if \<not> inword a then a\<lparr>c_w := c_w a + 1, inword := True\<rparr>
      else a)"

primrec wc_loop :: "nat \<Rightarrow> int \<Rightarrow> counts \<Rightarrow> 'x uworld_scheme \<Rightarrow> ('x uworld_scheme, int \<times> counts) outcome" where
  "wc_loop 0 fd a s = Hang"
| "wc_loop (Suc k) fd a s =
     andthen (uread fd 512 s) (\<lambda>(n, buf) s.
       if n > 0 then wc_loop k fd (fold wc_char buf a) s else Ret (n, a) s)"

definition wc :: "nat \<Rightarrow> int \<Rightarrow> u8 list \<Rightarrow> 'x uworld_scheme \<Rightarrow> ('x uworld_scheme, unit) outcome" where
  "wc k fd name s =
     andthen (wc_loop k fd \<lparr>c_l = 0, c_w = 0, c_c = 0, inword = False\<rparr> s) (\<lambda>(n, a) s.
       if n < 0 then andthen (printf 1 (str8 ''wc: read error'' @ [10]) [] s) (\<lambda>_ s. uexit s)
       else printf 1 (str8 ''%d %d %d %s'' @ [10]) [Num (c_l a), Num (c_w a), Num (c_c a), Str (Some name)] s)"

primrec wc_files :: "nat \<Rightarrow> u8 list list \<Rightarrow> 'x uworld_scheme \<Rightarrow> ('x uworld_scheme, unit) outcome" where
  "wc_files k [] s = uexit s"
| "wc_files k (f # fs) s =
     andthen (sysval (SysOpen f 0) s) (\<lambda>fd s.
       if fd < 0 then andthen (printf 1 (str8 ''wc: cannot open %s'' @ [10]) [Str (Some f)] s) (\<lambda>_ s. uexit s)
       else
         andthen (wc k fd f s) (\<lambda>_ s.
         andthen (sysval (SysClose fd) s) (\<lambda>_ s.
         wc_files k fs s)))"

definition wc_main :: "nat \<Rightarrow> u8 list list \<Rightarrow> 'x uworld_scheme \<Rightarrow> ('x uworld_scheme, unit) outcome" where
  "wc_main k argv s =
     (if length argv \<le> 1 then andthen (wc k 0 [] s) (\<lambda>_ s. uexit s)
      else wc_files k (tl argv) s)"

section \<open>echo, kill, ln, mkdir, rm, zombie\<close>

primrec echo_args :: "u8 list list \<Rightarrow> 'x uworld_scheme \<Rightarrow> ('x uworld_scheme, unit) outcome" where
  "echo_args [] s = uexit s"
| "echo_args (a # as) s =
     andthen (printf 1 (str8 ''%s%s'') [Str (Some a), Str (Some (if as \<noteq> [] then [32] else [10]))] s) (\<lambda>_ s.
     echo_args as s)"

definition echo_main :: "u8 list list \<Rightarrow> 'x uworld_scheme \<Rightarrow> ('x uworld_scheme, unit) outcome" where
  "echo_main argv s = echo_args (tl argv) s"

definition kill_main :: "u8 list list \<Rightarrow> 'x uworld_scheme \<Rightarrow> ('x uworld_scheme, unit) outcome" where
  "kill_main argv s =
     (if length argv < 2 then andthen (printf 2 (str8 ''usage: kill pid...'' @ [10]) [] s) (\<lambda>_ s. uexit s)
      else
        andthen (each (\<lambda>a s. andthen (sysval (SysKill (atoi a)) s) (\<lambda>_ s. Ret () s)) (tl argv) s) (\<lambda>_ s. uexit s))"

definition ln_main :: "u8 list list \<Rightarrow> 'x uworld_scheme \<Rightarrow> ('x uworld_scheme, unit) outcome" where
  "ln_main argv s =
     (if length argv \<noteq> 3 then andthen (printf 2 (str8 ''Usage: ln old new'' @ [10]) [] s) (\<lambda>_ s. uexit s)
      else
        andthen (sysval (SysLink (argv ! 1) (argv ! 2)) s) (\<lambda>r s.
        andthen
          (if r < 0 then printf 2 (str8 ''link %s %s: failed'' @ [10]) [Str (Some (argv ! 1)), Str (Some (argv ! 2))] s
           else Ret () s) (\<lambda>_ s. uexit s)))"

primrec mkdir_args :: "u8 list list \<Rightarrow> 'x uworld_scheme \<Rightarrow> ('x uworld_scheme, unit) outcome" where
  "mkdir_args [] s = uexit s"
| "mkdir_args (a # as) s =
     andthen (sysval (SysMkdir a) s) (\<lambda>r s.
       if r < 0 then andthen (printf 2 (str8 ''mkdir: %s failed to create'' @ [10]) [Str (Some a)] s) (\<lambda>_ s. uexit s)
       else mkdir_args as s)"

definition mkdir_main :: "u8 list list \<Rightarrow> 'x uworld_scheme \<Rightarrow> ('x uworld_scheme, unit) outcome" where
  "mkdir_main argv s =
     (if length argv < 2 then andthen (printf 2 (str8 ''Usage: mkdir files...'' @ [10]) [] s) (\<lambda>_ s. uexit s)
      else mkdir_args (tl argv) s)"

primrec rm_args :: "u8 list list \<Rightarrow> 'x uworld_scheme \<Rightarrow> ('x uworld_scheme, unit) outcome" where
  "rm_args [] s = uexit s"
| "rm_args (a # as) s =
     andthen (sysval (SysUnlink a) s) (\<lambda>r s.
       if r < 0 then andthen (printf 2 (str8 ''rm: %s failed to delete'' @ [10]) [Str (Some a)] s) (\<lambda>_ s. uexit s)
       else rm_args as s)"

definition rm_main :: "u8 list list \<Rightarrow> 'x uworld_scheme \<Rightarrow> ('x uworld_scheme, unit) outcome" where
  "rm_main argv s =
     (if length argv < 2 then andthen (printf 2 (str8 ''Usage: rm files...'' @ [10]) [] s) (\<lambda>_ s. uexit s)
      else rm_args (tl argv) s)"

definition zombie_main :: "'x uworld_scheme \<Rightarrow> ('x uworld_scheme, unit) outcome" where
  "zombie_main s =
     andthen (sysval SysFork s) (\<lambda>pid s.
     andthen (if pid > 0 then sysval (SysSleep 5) s else Ret 0 s) (\<lambda>_ s. uexit s))"

section \<open>ls\<close>

text \<open>\<open>fmtname\<close> gives the characters of the string that the program points to: the name itself, or the
  static buffer, whose last byte is always 0.\<close>

definition fmtname :: "u8 list \<Rightarrow> u8 list" where
  "fmtname path =
     (let p = rev (takeWhile (\<lambda>c. c \<noteq> 47) (rev path)) in
      if length p \<ge> DIRSIZ then p else p @ replicate (DIRSIZ - length p) 32)"

definition ls_line :: "u8 list \<Rightarrow> stat \<Rightarrow> 'x uworld_scheme \<Rightarrow> ('x uworld_scheme, unit) outcome" where
  "ls_line path st s =
     printf 1 (str8 ''%s %d %d %d'' @ [10]) [Str (Some (fmtname path)), Num (scast (st_type st)), Num (st_ino st), Num (st_size st)] s"

text \<open>The loop over the entries of a directory; \<open>buf\<close> is the path with its slash.\<close>

primrec ls_entries :: "nat \<Rightarrow> int \<Rightarrow> u8 list \<Rightarrow> 'x uworld_scheme \<Rightarrow> ('x uworld_scheme, unit) outcome" where
  "ls_entries 0 fd buf s = Hang"
| "ls_entries (Suc k) fd buf s =
     andthen (uread fd 16 s) (\<lambda>(n, de) s.
       if n \<noteq> 16 then Ret () s
       else if de ! 0 = 0 \<and> de ! 1 = 0 then ls_entries k fd buf s
       else
         let path = buf @ takeWhile (\<lambda>c. c \<noteq> 0) (take DIRSIZ (drop 2 de)) in
         andthen (stat_u path s) (\<lambda>(r, st) s.
         andthen
           (case st of
              None \<Rightarrow> printf 1 (str8 ''ls: cannot stat %s'' @ [10]) [Str (Some path)] s
            | Some st \<Rightarrow> ls_line path st s) (\<lambda>_ s.
         ls_entries k fd buf s)))"

definition ls :: "nat \<Rightarrow> u8 list \<Rightarrow> 'x uworld_scheme \<Rightarrow> ('x uworld_scheme, unit) outcome" where
  "ls k path s =
     andthen (sysval (SysOpen path 0) s) (\<lambda>fd s.
       if fd < 0 then printf 2 (str8 ''ls: cannot open %s'' @ [10]) [Str (Some path)] s
       else
         andthen (ufstat fd s) (\<lambda>(r, st) s.
           case st of
             None \<Rightarrow>
               andthen (printf 2 (str8 ''ls: cannot stat %s'' @ [10]) [Str (Some path)] s) (\<lambda>_ s.
               andthen (sysval (SysClose fd) s) (\<lambda>_ s. Ret () s))
           | Some st \<Rightarrow>
               andthen
                 (if st_type st = T_FILE then ls_line path st s
                  else if st_type st = T_DIR then
                    if length path + 1 + DIRSIZ + 1 > 512 then printf 1 (str8 ''ls: path too long'' @ [10]) [] s
                    else ls_entries k fd (path @ [47]) s
                  else Ret () s) (\<lambda>_ s.
               andthen (sysval (SysClose fd) s) (\<lambda>_ s. Ret () s))))"

definition ls_main :: "nat \<Rightarrow> u8 list list \<Rightarrow> 'x uworld_scheme \<Rightarrow> ('x uworld_scheme, unit) outcome" where
  "ls_main k argv s =
     (if length argv < 2 then andthen (ls k (str8 ''.'') s) (\<lambda>_ s. uexit s)
      else andthen (each (ls k) (tl argv) s) (\<lambda>_ s. uexit s))"

section \<open>init\<close>

primrec init_wait :: "nat \<Rightarrow> int \<Rightarrow> 'x uworld_scheme \<Rightarrow> ('x uworld_scheme, unit) outcome" where
  "init_wait 0 pid s = Hang"
| "init_wait (Suc k) pid s =
     andthen (sysval SysWait s) (\<lambda>wpid s.
       if wpid \<ge> 0 \<and> wpid \<noteq> pid then andthen (printf 1 (str8 ''zombie!'' @ [10]) [] s) (\<lambda>_ s. init_wait k pid s)
       else Ret () s)"

primrec init_loop :: "nat \<Rightarrow> 'x uworld_scheme \<Rightarrow> ('x uworld_scheme, unit) outcome" where
  "init_loop 0 s = Hang"
| "init_loop (Suc k) s =
     andthen (printf 1 (str8 ''init: starting sh'' @ [10]) [] s) (\<lambda>_ s.
     andthen (sysval SysFork s) (\<lambda>pid s.
       if pid < 0 then andthen (printf 1 (str8 ''init: fork failed'' @ [10]) [] s) (\<lambda>_ s. uexit s)
       else if pid = 0 then
         andthen (sysval (SysExec (str8 ''sh'') [str8 ''sh'']) s) (\<lambda>_ s.
         andthen (printf 1 (str8 ''init: exec sh failed'' @ [10]) [] s) (\<lambda>_ s. uexit s))
       else andthen (init_wait k pid s) (\<lambda>_ s. init_loop k s)))"

definition init_main :: "nat \<Rightarrow> 'x uworld_scheme \<Rightarrow> ('x uworld_scheme, unit) outcome" where
  "init_main k s =
     andthen (sysval (SysOpen (str8 ''console'') O_RDWR) s) (\<lambda>r s.
     andthen
       (if r < 0 then
          andthen (sysval (SysMknod (str8 ''console'') 1 1) s) (\<lambda>_ s.
          sysval (SysOpen (str8 ''console'') O_RDWR) s)
        else Ret 0 s) (\<lambda>_ s.
     andthen (sysval (SysDup 0) s) (\<lambda>_ s.
     andthen (sysval (SysDup 0) s) (\<lambda>_ s.
     init_loop k s))))"

section \<open>Copying and counting\<close>

definition pieces :: "u8 list list \<Rightarrow> bool" where
  "pieces cs \<longleftrightarrow> (\<forall>c \<in> set cs. c \<noteq> [] \<and> length c \<le> 512)"

lemma next_piece:
  assumes "delivers fd cs s" "pieces cs"
  shows "uread fd 512 s = Ret (int (length (nth_piece cs (reads_of fd (calls s)))), nth_piece cs (reads_of fd (calls s)))
    (s\<lparr>calls := calls s @ [SysRead fd 512]\<rparr>)"
  using delivers_read [OF assms(1), of 512] assms(2) by (simp add: nth_piece_def pieces_def)

lemma piece_cases:
  assumes "pieces cs"
  obtains "length cs \<le> n" "nth_piece cs n = []" "drop n cs = []"
  | "n < length cs" "nth_piece cs n \<noteq> []" "drop n cs = nth_piece cs n # drop (Suc n) cs"
  using assms by (cases "n < length cs") (auto simp: nth_piece_def pieces_def Cons_nth_drop_Suc)

lemma cat_copies:
  assumes "delivers fd cs s" "pieces cs" "length cs - reads_of fd (calls s) < k"
  shows "\<exists>xs. cat k fd s = Ret () (s\<lparr>calls := xs\<rparr>)
    \<and> written_to 1 xs = written_to 1 (calls s) @ concat (drop (reads_of fd (calls s)) cs)"
  using assms
proof (induction k arbitrary: s)
  case (Suc k)
  let ?n = "reads_of fd (calls s)" and ?u = "s\<lparr>calls := calls s @ [SysRead fd 512]\<rparr>"
  show ?case
  proof (cases rule: piece_cases [OF Suc.prems(2), of ?n])
    case 1
    then show ?thesis using next_piece [OF Suc.prems(1,2)] by (intro exI [of _ "calls ?u"]) (simp add: written_to_append)
  next
    case 2
    let ?c = "nth_piece cs ?n"
    let ?v = "s\<lparr>calls := calls s @ [SysRead fd 512, SysWrite 1 ?c]\<rparr>"
    have r: "cat (Suc k) fd s = cat k fd ?v"
      using next_piece [OF Suc.prems(1,2)] 2(2) delivers_write [of fd cs ?u 1 ?c] Suc.prems(1) by simp
    have n: "reads_of fd (calls ?v) = Suc ?n" by (simp add: reads_of_append)
    have k: "length cs - Suc ?n < k" using Suc.prems(3) 2(1) by linarith
    obtain xs where "cat k fd ?v = Ret () (?v\<lparr>calls := xs\<rparr>)" "written_to 1 xs = written_to 1 (calls ?v) @ concat (drop (Suc ?n) cs)"
      using Suc.IH [of ?v] Suc.prems(1,2) k n by auto
    then show ?thesis using r 2(3) by (intro exI [of _ xs]) (simp add: written_to_append)
  qed
qed simp

text \<open>A word is a longest run of characters other than white space; it is counted where it begins.\<close>

definition white :: "u8 \<Rightarrow> bool" where
  "white b \<longleftrightarrow> b \<in> set wc_space"

definition word_starts :: "u8 list \<Rightarrow> nat list" where
  "word_starts tx = filter (\<lambda>i. \<not> white (tx ! i) \<and> (i = 0 \<or> white (tx ! (i - 1)))) [0..<length tx]"

lemma word_starts_snoc:
  "word_starts (tx @ [b]) = word_starts tx @ (if \<not> white b \<and> (tx = [] \<or> white (last tx)) then [length tx] else [])"
proof -
  have "filter (\<lambda>i. \<not> white ((tx @ [b]) ! i) \<and> (i = 0 \<or> white ((tx @ [b]) ! (i - 1)))) [0..<length tx] = word_starts tx"
    unfolding word_starts_def by (rule filter_cong) (auto simp: nth_append)
  then show ?thesis by (cases "tx = []") (auto simp: word_starts_def nth_append last_conv_nth)
qed

lemma wc_char_fold:
  "fold wc_char tx \<lparr>c_l = 0, c_w = 0, c_c = 0, inword = False\<rparr> =
    \<lparr>c_l = of_nat (count_list tx 10), c_w = of_nat (length (word_starts tx)), c_c = of_nat (length tx),
     inword = (tx \<noteq> [] \<and> \<not> white (last tx))\<rparr>"
proof (induction tx rule: rev_induct)
  case Nil
  then show ?case by (simp add: word_starts_def)
next
  case (snoc b tx)
  have "strchr wc_space b = None \<longleftrightarrow> \<not> white b" by (auto simp: strchr_def first_such_None white_def)
  then show ?case using snoc by (auto simp: word_starts_snoc wc_char_def Let_def)
qed

lemma wc_loop_ok:
  assumes "delivers fd cs s" "pieces cs" "length cs - reads_of fd (calls s) < k"
  shows "\<exists>xs. wc_loop k fd a s = Ret (0, fold wc_char (concat (drop (reads_of fd (calls s)) cs)) a) (s\<lparr>calls := xs\<rparr>)
    \<and> written_to 1 xs = written_to 1 (calls s)"
  using assms
proof (induction k arbitrary: s a)
  case (Suc k)
  let ?n = "reads_of fd (calls s)" and ?u = "s\<lparr>calls := calls s @ [SysRead fd 512]\<rparr>"
  show ?case
  proof (cases rule: piece_cases [OF Suc.prems(2), of ?n])
    case 1
    then show ?thesis using next_piece [OF Suc.prems(1,2)] by (intro exI [of _ "calls ?u"]) (simp add: written_to_append)
  next
    case 2
    let ?c = "nth_piece cs ?n"
    have r: "wc_loop (Suc k) fd a s = wc_loop k fd (fold wc_char ?c a) ?u"
      using next_piece [OF Suc.prems(1,2)] 2(2) by simp
    have n: "reads_of fd (calls ?u) = Suc ?n" by (simp add: reads_of_append)
    have k: "length cs - Suc ?n < k" using Suc.prems(3) 2(1) by linarith
    obtain xs where "wc_loop k fd (fold wc_char ?c a) ?u = Ret (0, fold wc_char (concat (drop (Suc ?n) cs)) (fold wc_char ?c a)) (?u\<lparr>calls := xs\<rparr>)"
      "written_to 1 xs = written_to 1 (calls ?u)"
      using Suc.IH [of ?u "fold wc_char ?c a"] Suc.prems(1,2) k n by auto
    then show ?thesis using r 2(3) by (intro exI [of _ xs]) (simp add: written_to_append)
  qed
qed simp

text \<open>C34. \<^verbatim>\<open>wc\<close> prints the number of line feeds, of words and of characters of its input, however the kernel cuts the
  input into pieces; a word that is cut by a piece is counted once. The numbers are those of 32 bit counters.\<close>

theorem wc_counts:
  assumes "delivers fd cs s" "reads_of fd (calls s) = 0" "pieces cs" "length cs < k"
  defines "tx \<equiv> concat cs"
  shows "\<exists>xs. wc k fd name s = printf 1 (str8 ''%d %d %d %s'' @ [10])
      [Num (of_nat (count_list tx 10)), Num (of_nat (length (word_starts tx))), Num (of_nat (length tx)), Str (Some name)] (s\<lparr>calls := xs\<rparr>)
    \<and> written_to 1 xs = written_to 1 (calls s)"
proof -
  obtain xs where "wc_loop k fd \<lparr>c_l = 0, c_w = 0, c_c = 0, inword = False\<rparr> s =
      Ret (0, fold wc_char tx \<lparr>c_l = 0, c_w = 0, c_c = 0, inword = False\<rparr>) (s\<lparr>calls := xs\<rparr>)" "written_to 1 xs = written_to 1 (calls s)"
    using wc_loop_ok [OF assms(1,3), of k] assms(2,4,5) by auto
  then show ?thesis by (intro exI [of _ xs]) (simp add: wc_def wc_char_fold)
qed

theorem wc_counts_witness:
  "\<exists>xs. wc 3 0 [] (reader [[97, 32, 98], [99, 10]]) =
    printf 1 (str8 ''%d %d %d %s'' @ [10]) [Num 1, Num 2, Num 5, Str (Some [])] (reader [[97, 32, 98], [99, 10]]\<lparr>calls := xs\<rparr>)"
proof -
  have "word_starts [97, 32, 98, 99, 10] = [0, 2]" by (simp add: word_starts_def upt_rec white_def wc_space_def)
  then show ?thesis
    using wc_counts [of 0 "[[97, 32, 98], [99, 10]]" "reader [[97, 32, 98], [99, 10]]" 3 "[]"] reader_delivers
    by (auto simp: pieces_def)
qed

end
