(* ===== verification/Spec2Isabelle.thy ===== *)
theory Spec2Isabelle
  imports Dispatch Pipequeue Terminal Usermem Bigfile Grep Tools
begin

text \<open>
  Verification of the operating system kernel under \<^verbatim>\<open>src/xv6-public\<close>, a version of xv6 with a
  multi-level feedback queue and stride scheduler, light-weight threads inside processes, and files with
  doubly and triply indirect blocks.

  \<^bold>\<open>How the program is modelled.\<close> A kernel function is a HOL function from a state to an \<open>outcome\<close>
  (theory \<open>Prelude\<close>): it returns a value and a state, panics, runs into undefined behaviour, gives up the
  processor, or never ends. \<open>andthen\<close> is sequencing, \<open>each\<close> a \<^verbatim>\<open>for\<close> loop over a table. The state is one record, built up
  by extension in the order of the components, so that the operations of a component work
  on the states of all later ones: the machine with its CPUs and spin locks (\<open>kbase\<close>), memory and the free
  list (\<open>kmem_state\<close>), the tables of processes and threads (\<open>proc_state\<close>), sleep locks, block cache and disk (\<open>bio_state\<close>),
  log, inodes, console, pipes, open files, and the interrupt table (\<open>trap_state\<close>). Addresses, and everything of type
  \<^verbatim>\<open>uint\<close>, are 32 bit words and wrap around as in C, fields of type \<^verbatim>\<open>short\<close> are 16 bit words. Counters of type \<^verbatim>\<open>int\<close> (\<^verbatim>\<open>ncli\<close>, \<^verbatim>\<open>nextpid\<close>,
  \<^verbatim>\<open>nexttid\<close>, reference counts) are mathematical integers: their overflow is undefined in C and is not modelled. Pointers into a table are indices. A function that sleeps is cut
  where it switches to another thread: the definition with \<open>_resume\<close> in its name is the rest of the function, run
  when the thread is scheduled again. A loop whose end is not structural takes fuel and gives \<open>Hang\<close> when the fuel
  runs out; \<open>Paging\<close> proves that the fuel suffices for the loops of \<^verbatim>\<open>vm.c\<close>, and the loops of the console
  take at most one step for each byte that the device has.

  \<^bold>\<open>The parts and their theories.\<close>
  \<^item> \<open>Spinlock\<close>: CPUs, interrupt flag, \<^verbatim>\<open>pushcli\<close>/\<^verbatim>\<open>popcli\<close>, \<^verbatim>\<open>acquire\<close>/\<^verbatim>\<open>release\<close> (\<^verbatim>\<open>spinlock.c\<close>). Mutual exclusion
    is proved for every interleaving of all CPUs, and the nesting of interrupt disabling.
  \<^item> \<open>Memory\<close>, \<open>Kalloc\<close>: byte memory and \<^verbatim>\<open>string.c\<close>; the page allocator with its free list inside the pages
    (\<^verbatim>\<open>kalloc.c\<close>). No page is handed out twice, \<^verbatim>\<open>freerange\<close> frees exactly the whole pages, \<^verbatim>\<open>memmove\<close> is
    correct for every overlap, the string functions stay within their bounds.
  \<^item> \<open>Proc\<close>, \<open>Scheduler\<close>, \<open>Dispatch\<close>: the tables, \<^verbatim>\<open>setstate\<close>, \<^verbatim>\<open>wakeup\<close>, \<^verbatim>\<open>kill\<close> (\<^verbatim>\<open>proc.c\<close>) and the scheduler
    (\<^verbatim>\<open>scheduler.c\<close>). Process states agree with thread states, the choice of process and thread is characterised, a pass
    of the scheduler ends well, the choice is a round robin that ignores the queue levels, so that no ready MLFQ process starves, CPU shares add up; two errors in the test and the
    accounting of shares are exhibited.
  \<^item> \<open>Vm\<close>, \<open>Paging\<close>: page tables and thread stacks (\<^verbatim>\<open>vm.c\<close>). \<^verbatim>\<open>mappages\<close> is correct, the loops over pages end, stacks are
    recycled.
  \<^item> \<open>Sleeplock\<close>, \<open>Bio\<close>, \<open>Log\<close>, with \<open>Cache\<close> and \<open>Recovery\<close>: sleep locks, the block cache over the disk driver \<^verbatim>\<open>memide.c\<close>
    and the redo log (\<^verbatim>\<open>sleeplock.c\<close>, \<^verbatim>\<open>bio.c\<close>, \<^verbatim>\<open>log.c\<close>). \<open>Cache\<close> is the library of facts about the cache for
    a thread that meets no contention, \<open>Recovery\<close> proves that a commit is atomic with respect to crashes.
  \<^item> \<open>Inode\<close>, \<open>Fs\<close>, \<open>File\<close>: the file system and the table of open files (\<^verbatim>\<open>fs.c\<close>, \<^verbatim>\<open>file.c\<close>). \<open>Bigfile\<close> proves that \<^verbatim>\<open>bmap\<close>
    follows the path of a block through up to three indirect blocks.
  \<^item> \<open>Pipe\<close> with \<open>Pipequeue\<close>, \<open>Console\<close> with \<open>Terminal\<close>: pipes, console, serial line (\<^verbatim>\<open>pipe.c\<close>, \<^verbatim>\<open>console.c\<close>,
    \<^verbatim>\<open>uart.c\<close>). Both keep bytes in a ring buffer; \<open>Ring\<close> is its theory, a locale interpreted for both. Pipes are
    queues in every interleaving of readers and writers; the console input is a line editor; numbers are printed correctly.
    \<open>Frame\<close> has the rules for what operations leave alone.
  \<^item> \<open>Thread\<close>, \<open>Process\<close>, \<open>Exec\<close>: threads and processes from creation to exit (\<^verbatim>\<open>thread.c\<close>, \<^verbatim>\<open>proc.c\<close>, \<^verbatim>\<open>exec.c\<close>).
  \<^item> \<open>Sysfile\<close>, \<open>Kbd\<close>, \<open>Syscall\<close>: system calls, keyboard, traps (\<^verbatim>\<open>sysfile.c\<close>, \<^verbatim>\<open>sysproc.c\<close>, \<^verbatim>\<open>syscall.c\<close>, \<^verbatim>\<open>kbd.c\<close>, \<^verbatim>\<open>trap.c\<close>).
    \<open>Usermem\<close> proves the check of user buffers exact and exhibits a pointer that is followed unchecked, and the list of free stacks, which
    a program can forge because the links lie in pages it may write; \<open>user_page\<close> and \<open>program_store\<close> are the processor's part in this.
  \<^item> \<open>Ulib\<close>, \<open>Grep\<close>, \<open>Tools\<close>: user programs (\<^verbatim>\<open>ulib.c\<close>, \<^verbatim>\<open>printf.c\<close>, \<^verbatim>\<open>grep.c\<close>, \<^verbatim>\<open>cat.c\<close>, \<^verbatim>\<open>wc.c\<close>, \<^verbatim>\<open>ls.c\<close>, \<^verbatim>\<open>init.c\<close> and other small
    ones) over the system calls they make, for every behaviour of the kernel behind these. The matcher of \<^verbatim>\<open>grep\<close> decides the language
    of its patterns, \<^verbatim>\<open>grep\<close> and \<^verbatim>\<open>wc\<close> are right however the input is cut into reads; the fuel of their loops is one
    more than the number of reads.
  \<^item> \<open>Sample\<close>: a complete kernel state for examples.

  \<^bold>\<open>Not modelled.\<close> Boot code, assembly stubs and the programming of interrupt controllers and timers: they consist
  of register accesses whose effect is the hardware's. The test programs, which only exercise the
  kernel. The shell, the storage allocator of user programs, the disk driver \<^verbatim>\<open>ide.c\<close> and the image builder \<^verbatim>\<open>mkfs.c\<close>. The fields \<^verbatim>\<open>name\<close> and \<^verbatim>\<open>pcs\<close> of locks, which are for debugging.
  Device registers are lists of the bytes that the device will deliver, or has been sent. The disk under the
  file system is that of \<^verbatim>\<open>memide.c\<close>; the target \<^verbatim>\<open>kernel\<close> of the Makefile links \<^verbatim>\<open>ide.c\<close> in its place, \<^verbatim>\<open>kernelmemfs\<close> links \<^verbatim>\<open>memide.c\<close>. Its history variable \<open>disk_hist\<close> records the contents before every write and is read by
  no definition. The trap frame is a field of the thread, not bytes on its kernel stack. A store of the kernel through a user
  address (\<open>user_stores\<close>) stands for the store, the page fault and the panic of \<^verbatim>\<open>trap\<close>. In the interleavings of \<open>Spinlock\<close> a CPU runs \<^verbatim>\<open>acquire\<close> and \<^verbatim>\<open>release\<close>
  in one step except where it spins; in those of \<open>Pipequeue\<close> a thread that resumes \<^verbatim>\<open>pipewrite\<close> goes on with any bytes, those left of its buffer among them.
\<close>

end
